(* ===== verification/Prelude.thy ===== *)
theory Prelude
  imports Main "HOL-Library.Word"
begin

text \<open>
  Shared vocabulary of the development: the machine integers of the C++ code, exceptions as
  values, the memory image of an integer on the (little-endian) hosts the tool is built for,
  and the generic facts on lists, words and results that the component theories use.
\<close>

unbundle bit_operations_syntax

type_synonym u8 = "8 word"
type_synonym u16 = "16 word"
type_synonym u32 = "32 word"
type_synonym u64 = "64 word"

named_theorems wire_simps \<open>evaluation of serializers and deserializers\<close>
named_theorems file_simps \<open>evaluation of operations on files and streams\<close>

section \<open>Exceptions and results\<close>

text \<open>
  A C++ call either returns or leaves by an exception. \<open>Undefined\<close> is not an exception: it marks
  the points where the C++ standard gives the program no meaning (signed overflow, a read past the
  end of a buffer, the element of an empty container), so no handler of the model catches it.
  \<open>Terminated\<close> is a call of \<^verbatim>\<open>std::terminate\<close>: an exception that leaves a destructor.
\<close>

datatype exn =
    Runtime_error string
  | Out_of_range
  | Length_error
  | Filesystem_error
  | Json_error
  | Terminated
  | Undefined string

type_synonym 'a result = "exn + 'a"

fun bindR :: "'a result \<Rightarrow> ('a \<Rightarrow> 'b result) \<Rightarrow> 'b result" where
  "bindR (Inl e) f = Inl e"
| "bindR (Inr x) f = f x"

fun is_std_exception :: "exn \<Rightarrow> bool" where
  "is_std_exception (Undefined _) = False"
| "is_std_exception Terminated = False"
| "is_std_exception _ = True"

lemma bindR_Inr_iff: "bindR m f = Inr y \<longleftrightarrow> (\<exists>x. m = Inr x \<and> f x = Inr y)"
  by (cases m) auto

lemma bindR_Inl_iff: "bindR m f = Inl e \<longleftrightarrow> m = Inl e \<or> (\<exists>x. m = Inr x \<and> f x = Inl e)"
  by (cases m) auto

lemma bindR_assoc: "bindR (bindR m f) g = bindR m (\<lambda>x. bindR (f x) g)"
  by (cases m) auto

section \<open>Integers in memory\<close>

text \<open>
  The bytes of an object of an unsigned type, lowest address first, on a little-endian host:
  what \<^verbatim>\<open>reinterpret_cast<const char*>(&x)\<close> shows. A \<open>char\<close> of HOL is exactly one byte.
\<close>

definition mem_bytes :: "nat \<Rightarrow> 'a::len word \<Rightarrow> string" where
  "mem_bytes n w = map (\<lambda>i. char_of (unat (drop_bit (8 * i) w))) [0..<n]"

definition load_bytes :: "string \<Rightarrow> 'a::len word" where
  "load_bytes s = of_nat (horner_sum of_char 256 s)"

lemma length_mem_bytes [simp]: "length (mem_bytes n w) = n"
  by (simp add: mem_bytes_def)

lemma horner_sum_base_digits:
  "horner_sum (\<lambda>i. n div b ^ i mod b) b [0..<k] = (n::nat) mod b ^ k"
proof (induction k)
  case 0
  then show ?case by simp
next
  case (Suc k)
  have "horner_sum (\<lambda>i. n div b ^ i mod b) b [0..<Suc k] = n mod b ^ k + b ^ k * (n div b ^ k mod b)"
    by (simp add: horner_sum_append Suc)
  also have "\<dots> = n mod (b ^ k * b)"
    by (simp add: mod_mult2_eq)
  finally show ?case by (simp add: mult.commute)
qed

lemma horner_sum_map: "horner_sum f a (map g xs) = horner_sum (f \<circ> g) a xs"
  by (induction xs) auto

lemma load_mem_bytes:
  fixes w :: "'a::len word"
  assumes "LENGTH('a) = 8 * n"
  shows "load_bytes (mem_bytes n w) = w"
proof -
  have "horner_sum of_char 256 (mem_bytes n w) = unat w mod 256 ^ n"
    using horner_sum_base_digits [of "unat w" 256 n]
    by (simp add: mem_bytes_def horner_sum_map comp_def unat_drop_bit_eq
        drop_bit_eq_div [where 'a = nat] power_mult [of 2 8, simplified])
  also have "\<dots> = unat w"
    using unsigned_less [of w, where ?'a = nat] assms
    by (simp add: power_mult [of 2 8, simplified])
  finally show ?thesis by (simp add: load_bytes_def)
qed

lemma load_mem_bytes_u32 [simp]: "load_bytes (mem_bytes 4 w) = (w :: u32)"
  by (rule load_mem_bytes) simp

lemma load_mem_bytes_u64 [simp]: "load_bytes (mem_bytes 8 w) = (w :: u64)"
  by (rule load_mem_bytes) simp

lemma char_of_unat_eqI:
  fixes v w :: "'a::len word"
  assumes "take_bit 8 v = take_bit 8 w"
  shows "(char_of (unat v) :: char) = char_of (unat w)"
proof -
  have "take_bit 8 (unat v) = take_bit 8 (unat w)"
    using assms by (metis unsigned_take_bit_eq)
  then show ?thesis by (metis char_of_take_bit_eq order_refl)
qed

section \<open>Lists\<close>

lemma take_append_exact [simp]: "length xs = n \<Longrightarrow> take n (xs @ ys) = xs"
  by simp

lemma drop_append_exact [simp]: "length xs = n \<Longrightarrow> drop n (xs @ ys) = ys"
  by simp

lemma takeWhile_neq_append:
  "c \<notin> set xs \<Longrightarrow> takeWhile (\<lambda>x. x \<noteq> c) (xs @ c # ys) = xs"
  by (induction xs) auto

lemma dropWhile_neq_append:
  "c \<notin> set xs \<Longrightarrow> dropWhile (\<lambda>x. x \<noteq> c) (xs @ c # ys) = c # ys"
  by (induction xs) auto

lemma takeWhile_neq_none: "c \<notin> set xs \<Longrightarrow> takeWhile (\<lambda>x. x \<noteq> c) xs = xs"
  by (induction xs) auto

lemma length_dropWhile_tl_less:
  "c \<in> set xs \<Longrightarrow> length (tl (dropWhile (\<lambda>x. x \<noteq> c) xs)) < length xs"
proof (induction xs)
  case Nil
  then show ?case by simp
next
  case (Cons x xs)
  then show ?case by (cases "x = c") auto
qed

end
