(* ===== verification/Std_Stream.thy ===== *)
theory Std_Stream
  imports Prelude
begin

text \<open>
  The part of the C++ standard library the program uses for input and output: input streams with
  their state bits, \<^verbatim>\<open>read\<close>, \<^verbatim>\<open>getline\<close> and \<^verbatim>\<open>operator>>\<close>, decimal printing,
  \<^verbatim>\<open>std::from_chars\<close>, \<^verbatim>\<open>string::find\<close>/\<^verbatim>\<open>starts_with\<close>, and the files behind
  \<^verbatim>\<open>ifstream\<close>, \<^verbatim>\<open>ofstream\<close> and \<^verbatim>\<open>rename\<close>.

  Memory the program leaves uninitialised is never given a made-up value: the operation that reads
  it takes the old contents as an argument, and a theorem about it quantifies over them.
\<close>

section \<open>Input streams\<close>

record istream =
  inbuf :: string   \<comment> \<open>the characters not yet extracted\<close>
  eofbit :: bool
  failbit :: bool

definition stream_of :: "string \<Rightarrow> istream" where
  "stream_of s = \<lparr>inbuf = s, eofbit = False, failbit = False\<rparr>"

definition good :: "istream \<Rightarrow> bool" where
  "good s \<longleftrightarrow> \<not> eofbit s \<and> \<not> failbit s"

lemma good_stream_of [simp]: "good (stream_of s)"
  and inbuf_stream_of [simp]: "inbuf (stream_of s) = s"
  and eofbit_stream_of [simp]: "\<not> eofbit (stream_of s)"
  and failbit_stream_of [simp]: "\<not> failbit (stream_of s)"
  by (simp_all add: good_def stream_of_def)

lemma stream_of_eqI: "good s \<Longrightarrow> s = stream_of (inbuf s)"
  by (simp add: good_def stream_of_def)

lemma stream_of_update [simp]: "(stream_of s)\<lparr>inbuf := r\<rparr> = stream_of r"
  by (simp add: stream_of_def)

text \<open>
  \<^verbatim>\<open>is.read(buf, n)\<close> over the old contents of \<^verbatim>\<open>buf\<close>: a short read stores what there is and
  raises \<^verbatim>\<open>eofbit\<close> and \<^verbatim>\<open>failbit\<close>; a stream that is not good stores nothing.
\<close>

definition stream_read :: "string \<Rightarrow> nat \<Rightarrow> istream \<Rightarrow> string \<times> istream" where
  "stream_read buf n s =
     (if \<not> good s then (buf, s\<lparr>failbit := True\<rparr>)
      else if n \<le> length (inbuf s)
      then (take n (inbuf s) @ drop n buf, s\<lparr>inbuf := drop n (inbuf s)\<rparr>)
      else (inbuf s @ drop (length (inbuf s)) buf,
            s\<lparr>inbuf := [], eofbit := True, failbit := True\<rparr>))"

lemma stream_read_enough [simp]:
  "length xs = n \<Longrightarrow> length buf = n \<Longrightarrow>
     stream_read buf n (stream_of (xs @ r)) = (xs, stream_of r)"
  by (simp add: stream_read_def)

lemma stream_read_short:
  "length xs < n \<Longrightarrow> failbit (snd (stream_read buf n (stream_of xs)))"
  by (simp add: stream_read_def)

text \<open>
  \<^verbatim>\<open>std::getline(is, str, delim)\<close>: the string is left alone when the stream is not good, else
  it is cleared and filled up to the delimiter, which is removed.
\<close>

definition getline :: "char \<Rightarrow> string \<Rightarrow> istream \<Rightarrow> string \<times> istream" where
  "getline delim str s =
     (if \<not> good s then (str, s\<lparr>failbit := True\<rparr>)
      else if delim \<in> set (inbuf s)
      then (takeWhile (\<lambda>c. c \<noteq> delim) (inbuf s),
            s\<lparr>inbuf := tl (dropWhile (\<lambda>c. c \<noteq> delim) (inbuf s))\<rparr>)
      else (inbuf s, s\<lparr>inbuf := [], eofbit := True, failbit := (inbuf s = [])\<rparr>))"

lemma getline_delim [file_simps]:
  "d \<notin> set xs \<Longrightarrow> getline d str (stream_of (xs @ d # r)) = (xs, stream_of r)"
  by (simp add: getline_def takeWhile_neq_append dropWhile_neq_append)

lemma getline_last [file_simps]:
  "d \<notin> set xs \<Longrightarrow> getline d str (stream_of xs) =
     (xs, \<lparr>inbuf = [], eofbit = True, failbit = (xs = [])\<rparr>)"
  by (simp add: getline_def stream_of_def good_def)

section \<open>Decimal numbers\<close>

definition is_digit :: "char \<Rightarrow> bool" where
  "is_digit c \<longleftrightarrow> 48 \<le> (of_char c :: nat) \<and> (of_char c :: nat) \<le> 57"

definition digit_val :: "char \<Rightarrow> nat" where
  "digit_val c = of_char c - 48"

definition digit_char :: "nat \<Rightarrow> char" where
  "digit_char d = char_of (48 + d)"

lemma digit_chars:
  "digit_char 0 = CHR ''0''"
  "digit_char (Suc 0) = CHR ''1''"
  "digit_char 2 = CHR ''2''"
  "digit_char 3 = CHR ''3''"
  "digit_char 4 = CHR ''4''"
  "digit_char 5 = CHR ''5''"
  "digit_char 6 = CHR ''6''"
  "digit_char 7 = CHR ''7''"
  "digit_char 8 = CHR ''8''"
  "digit_char 9 = CHR ''9''"
  by (simp_all add: digit_char_def char_of_def bit_iff_odd)

definition nat_of_digits :: "string \<Rightarrow> nat" where
  "nat_of_digits ds = foldl (\<lambda>a c. a * 10 + digit_val c) 0 ds"

text \<open>What \<^verbatim>\<open>operator<<\<close> and \<^verbatim>\<open>std::to_string\<close> write for an unsigned number.\<close>

fun show_nat :: "nat \<Rightarrow> string" where
  "show_nat n = (if n < 10 then [digit_char n] else show_nat (n div 10) @ [digit_char (n mod 10)])"

declare show_nat.simps [simp del]

lemma of_char_digit_char: "d < 10 \<Longrightarrow> (of_char (digit_char d) :: nat) = 48 + d"
  by (simp add: digit_char_def)

lemma is_digit_digit_char [simp]: "d < 10 \<Longrightarrow> is_digit (digit_char d)"
  by (simp add: is_digit_def of_char_digit_char)

lemma digit_val_digit_char [simp]: "d < 10 \<Longrightarrow> digit_val (digit_char d) = d"
  by (simp add: digit_val_def of_char_digit_char)

lemma nat_of_digits_snoc [simp]:
  "nat_of_digits (ds @ [c]) = nat_of_digits ds * 10 + digit_val c"
  by (simp add: nat_of_digits_def)

lemma nat_of_digits_Nil [simp]: "nat_of_digits [] = 0"
  by (simp add: nat_of_digits_def)

lemma nat_of_digits_show_nat [simp]: "nat_of_digits (show_nat n) = n"
proof (induction n rule: show_nat.induct)
  case (1 n)
  then show ?case
    by (subst show_nat.simps) (auto simp: nat_of_digits_snoc [of "[]", simplified])
qed

lemma show_nat_digits: "list_all is_digit (show_nat n)"
proof (induction n rule: show_nat.induct)
  case (1 n)
  then show ?case by (subst show_nat.simps) auto
qed

lemma show_nat_nonempty [simp]: "show_nat n \<noteq> []"
  by (subst show_nat.simps) simp

lemma length_show_nat: "n < 10 ^ Suc k \<Longrightarrow> length (show_nat n) \<le> Suc k"
proof (induction k arbitrary: n)
  case 0
  then show ?case by (subst show_nat.simps) simp
next
  case (Suc k)
  show ?case
  proof (cases "n < 10")
    case True
    then show ?thesis by (subst show_nat.simps) simp
  next
    case False
    have "n div 10 < 10 ^ Suc k" using Suc.prems by (simp add: less_mult_imp_div_less)
    with Suc.IH [of "n div 10"] False show ?thesis by (subst show_nat.simps) simp
  qed
qed

lemma length_show_u64: "length (show_nat (unat (w :: 64 word))) \<le> 20"
proof -
  have "unat w < 2 ^ 64" using unsigned_less [of w, where ?'a = nat] by simp
  also have "(2::nat) ^ 64 < 10 ^ Suc 19" by simp
  finally show ?thesis using length_show_nat [of "unat w" 19] by simp
qed

lemma show_nat_inject [simp]: "show_nat m = show_nat n \<longleftrightarrow> m = n"
  by (metis nat_of_digits_show_nat)

lemma not_in_show_nat: "\<not> is_digit c \<Longrightarrow> c \<notin> set (show_nat n)"
  using show_nat_digits [of n] by (auto simp: list_all_iff)

lemma separators_not_digit [simp]:
  "\<not> is_digit (CHR ''|'')" "\<not> is_digit (CHR 0x0A)" "\<not> is_digit (CHR 0x0D)"
  "\<not> is_digit (CHR '':'')" "\<not> is_digit (CHR '' '')"
  by (simp_all add: is_digit_def)

text \<open>
  \<^verbatim>\<open>std::from_chars(first, last, value)\<close> for an unsigned type, over the old value: the longest
  prefix of digits is read; no digits, or a number too large for the type, leave the value alone.
  The callers ignore the returned error code.
\<close>

definition from_chars :: "string \<Rightarrow> 'a::len word \<Rightarrow> 'a word" where
  "from_chars s old =
     (let ds = takeWhile is_digit s
      in if ds = [] then old
         else if nat_of_digits ds < 2 ^ LENGTH('a) then of_nat (nat_of_digits ds) else old)"

lemma takeWhile_is_digit_show_nat [simp]: "takeWhile is_digit (show_nat n) = show_nat n"
  using show_nat_digits [of n] by (simp add: list_all_iff takeWhile_eq_all_conv)

lemma from_chars_show_nat [simp]:
  fixes w :: "'a::len word"
  shows "from_chars (show_nat (unat w)) old = w"
  by (simp add: from_chars_def Let_def)

text \<open>
  \<^verbatim>\<open>is >> value\<close> for a 64-bit unsigned value: white space is skipped; at the end of the input the
  value is left alone; a text that is no number stores 0 and a number out of range the maximum.
\<close>

definition is_space :: "char \<Rightarrow> bool" where
  "is_space c \<longleftrightarrow> c \<in> set [CHR '' '', CHR 0x09, CHR 0x0A, CHR 0x0B, CHR 0x0C, CHR 0x0D]"

definition extract_u64 :: "u64 \<Rightarrow> istream \<Rightarrow> u64 \<times> istream" where
  "extract_u64 old s =
     (if \<not> good s then (old, s\<lparr>failbit := True\<rparr>)
      else let r = dropWhile is_space (inbuf s)
        in if r = [] then (old, s\<lparr>inbuf := [], eofbit := True, failbit := True\<rparr>)
           else let neg = (hd r = CHR ''-'');
                    t = (if hd r = CHR ''-'' \<or> hd r = CHR ''+'' then tl r else r);
                    ds = takeWhile is_digit t;
                    rest = dropWhile is_digit t;
                    v = nat_of_digits ds;
                    s' = s\<lparr>inbuf := rest, eofbit := (rest = [])\<rparr>
             in if ds = [] then (0, s'\<lparr>failbit := True\<rparr>)
                else if 2 ^ 64 \<le> v then (- 1, s'\<lparr>failbit := True\<rparr>)
                else (if neg then - of_nat v else of_nat v, s'))"

lemma digit_not_space: "is_digit c \<Longrightarrow> \<not> is_space c"
  by (auto simp: is_digit_def is_space_def)

lemma digit_not_sign: "is_digit c \<Longrightarrow> c \<noteq> CHR ''-'' \<and> c \<noteq> CHR ''+''"
  by (auto simp: is_digit_def)

lemma extract_u64_show_nat [simp]:
  "fst (extract_u64 old (stream_of (show_nat (unat w)))) = w"
proof -
  have hd: "is_digit (hd (show_nat (unat w)))"
    using show_nat_digits [of "unat w"] by (cases "show_nat (unat w)") auto
  have skip: "dropWhile is_space (show_nat (unat w)) = show_nat (unat w)"
    using hd by (cases "show_nat (unat w)") (auto dest: digit_not_space)
  have "unat w < 2 ^ 64"
    using unsigned_less [of w, where ?'a = nat] by simp
  then show ?thesis
    using digit_not_sign [OF hd] by (simp add: extract_u64_def skip Let_def not_le)
qed

lemma extract_u64_empty: "extract_u64 old (stream_of []) =
    (old, \<lparr>inbuf = [], eofbit = True, failbit = True\<rparr>)"
  by (simp add: extract_u64_def stream_of_def good_def)

section \<open>Strings\<close>

definition starts_with :: "string \<Rightarrow> string \<Rightarrow> bool" where
  "starts_with s p \<longleftrightarrow> take (length p) s = p"

text \<open>\<^verbatim>\<open>s.find(c)\<close>; \<open>None\<close> is \<^verbatim>\<open>std::string::npos\<close>.\<close>

definition find_char :: "string \<Rightarrow> char \<Rightarrow> nat option" where
  "find_char s c = (if c \<in> set s then Some (length (takeWhile (\<lambda>x. x \<noteq> c) s)) else None)"

lemma starts_with_append [simp]: "starts_with (p @ s) p"
  by (simp add: starts_with_def)

lemma starts_withD: "starts_with s p \<Longrightarrow> s = p @ drop (length p) s"
  by (metis append_take_drop_id starts_with_def)

lemma find_char_append [simp]: "c \<notin> set xs \<Longrightarrow> find_char (xs @ c # ys) c = Some (length xs)"
  by (simp add: find_char_def takeWhile_neq_append)

lemma find_char_None [simp]: "find_char s c = None \<longleftrightarrow> c \<notin> set s"
  by (simp add: find_char_def)

section \<open>Files\<close>

text \<open>
  The file system as the program sees it: the contents of each file, and the paths the environment
  refuses to open for reading or for writing (permissions, a missing directory, a full disk at open).
\<close>

record fsys =
  files :: "string \<rightharpoonup> string"
  no_read :: "string \<Rightarrow> bool"
  no_write :: "string \<Rightarrow> bool"

definition empty_fsys :: fsys where
  "empty_fsys = \<lparr>files = Map.empty, no_read = (\<lambda>_. False), no_write = (\<lambda>_. False)\<rparr>"

text \<open>\<^verbatim>\<open>std::ifstream in(path)\<close>; \<open>None\<close> when \<^verbatim>\<open>!in\<close>.\<close>

definition open_in :: "fsys \<Rightarrow> string \<Rightarrow> istream option" where
  "open_in fs p = (if no_read fs p then None else map_option stream_of (files fs p))"

text \<open>\<^verbatim>\<open>std::ofstream out(path)\<close> creates or truncates the file.\<close>

definition open_trunc :: "fsys \<Rightarrow> string \<Rightarrow> fsys option" where
  "open_trunc fs p = (if no_write fs p then None else Some (fs\<lparr>files := (files fs)(p \<mapsto> [])\<rparr>))"

text \<open>\<^verbatim>\<open>std::ofstream out(path, std::ios::app)\<close> creates the file but keeps its contents.\<close>

definition open_app :: "fsys \<Rightarrow> string \<Rightarrow> fsys option" where
  "open_app fs p =
     (if no_write fs p then None
      else Some (case files fs p of None \<Rightarrow> fs\<lparr>files := (files fs)(p \<mapsto> [])\<rparr> | Some _ \<Rightarrow> fs))"

text \<open>What is written to an open file goes behind its contents (the stream is flushed or closed).\<close>

definition write_file :: "fsys \<Rightarrow> string \<Rightarrow> string \<Rightarrow> fsys" where
  "write_file fs p s =
     fs\<lparr>files := (files fs)(p \<mapsto> (case files fs p of None \<Rightarrow> s | Some t \<Rightarrow> t @ s))\<rparr>"

text \<open>\<^verbatim>\<open>std::rename(from, to)\<close>; the boolean is a result of 0.\<close>

definition rename_file :: "fsys \<Rightarrow> string \<Rightarrow> string \<Rightarrow> bool \<times> fsys" where
  "rename_file fs p q =
     (case files fs p of
        None \<Rightarrow> (False, fs)
      | Some t \<Rightarrow>
          if no_write fs q then (False, fs)
          else (True, fs\<lparr>files := (files fs)(p := None, q \<mapsto> t)\<rparr>))"

lemma files_write_file [file_simps]:
  "files (write_file fs p s) =
     (files fs)(p \<mapsto> (case files fs p of None \<Rightarrow> s | Some t \<Rightarrow> t @ s))"
  by (simp add: write_file_def)

lemma perms_write_file [file_simps]:
  "no_read (write_file fs p s) = no_read fs" "no_write (write_file fs p s) = no_write fs"
  by (simp_all add: write_file_def)

lemma open_trunc_write [file_simps]:
  "open_trunc fs p = (if no_write fs p then None else Some (fs\<lparr>files := (files fs)(p \<mapsto> [])\<rparr>))"
  by (rule open_trunc_def)

lemma write_truncated [file_simps]:
  "write_file (fs\<lparr>files := m(p \<mapsto> [])\<rparr>) p s = fs\<lparr>files := m(p \<mapsto> s)\<rparr>"
  by (simp add: write_file_def)

lemma write_file_same: "files fs p = Some t \<Longrightarrow> files (write_file fs p s) p = Some (t @ s)"
  by (simp add: file_simps)

lemma write_file_other: "p \<noteq> q \<Longrightarrow> files (write_file fs p s) q = files fs q"
  by (simp add: file_simps)

end
