(* ===== verification/Serializable.thy ===== *)
theory Serializable
  imports Std_Stream
begin

text \<open>
  The stream half of \<^verbatim>\<open>src/common/serializable.hpp/.cpp\<close>: byte order, and the readers and writers of
  integers and strings. The vector templates are in \<open>Codec\<close>, the messages over a socket in
  \<open>Messages\<close>.
\<close>

section \<open>Byte order\<close>

definition swap_endian32 :: "u32 \<Rightarrow> u32" where
  "swap_endian32 value =
     push_bit 24 (value AND 0x000000FF) OR push_bit 8 (value AND 0x0000FF00) OR
     drop_bit 8 (value AND 0x00FF0000) OR drop_bit 24 (value AND 0xFF000000)"

definition swap_endian64 :: "u64 \<Rightarrow> u64" where
  "swap_endian64 value =
     (let bytes = map (\<lambda>i. ucast (drop_bit (8 * i) value AND 0xff) :: u8) [0..<8]
      in foldl (\<lambda>v i. v OR push_bit (8 * (7 - i)) (ucast (bytes ! i))) 0 [0..<8])"

text \<open>The signed overload casts to unsigned and back: \<^verbatim>\<open>int32_t\<close> is read as an \<open>int\<close>.\<close>

definition swap_endian_i32 :: "int \<Rightarrow> int" where
  "swap_endian_i32 value = sint (swap_endian32 (word_of_int value))"

lemma byte_masks:
  "(0x000000FF :: u32) = mask 8" "(0x0000FF00 :: u32) = push_bit 8 (mask 8)"
  "(0x00FF0000 :: u32) = push_bit 16 (mask 8)" "(0xFF000000 :: u32) = push_bit 24 (mask 8)"
  by (simp_all add: mask_eq_exp_minus_1)

lemma byte_mask64: "(0xff :: u64) = mask 8"
  by (simp add: mask_eq_exp_minus_1)

lemma swap_endian32_bytes:
  assumes "i < 4"
  shows "take_bit 8 (drop_bit (8 * i) (swap_endian32 v)) = take_bit 8 (drop_bit (8 * (3 - i)) v)"
proof -
  from assms consider "i = 0" | "i = 1" | "i = 2" | "i = 3" by linarith
  then show ?thesis
    by cases (rule bit_eqI, auto simp: swap_endian32_def byte_masks bit_simps)+
qed

lemma swap_endian64_unrolled:
  "swap_endian64 v =
     push_bit 56 (take_bit 8 v) OR push_bit 48 (take_bit 8 (drop_bit 8 v)) OR
     push_bit 40 (take_bit 8 (drop_bit 16 v)) OR push_bit 32 (take_bit 8 (drop_bit 24 v)) OR
     push_bit 24 (take_bit 8 (drop_bit 32 v)) OR push_bit 16 (take_bit 8 (drop_bit 40 v)) OR
     push_bit 8 (take_bit 8 (drop_bit 48 v)) OR take_bit 8 (drop_bit 56 v)"
proof -
  have u: "ucast (ucast (w AND 0xff) :: u8) = take_bit 8 (w :: u64)" for w
    by (rule bit_eqI) (auto simp: byte_mask64 bit_simps)
  have "[0..<8::nat] = [0, 1, 2, 3, 4, 5, 6, 7]"
    by (simp add: upt_rec)
  then show ?thesis
    by (simp add: swap_endian64_def Let_def u or.assoc)
qed

lemma byte_of_placed_byte:
  fixes x :: "'a::len word"
  assumes "m + 8 \<le> LENGTH('a)"
  shows "take_bit 8 (drop_bit m (push_bit m (take_bit 8 x))) = take_bit 8 x"
  using assms by (intro bit_eqI) (auto simp: bit_simps)

lemma byte_of_other_byte:
  fixes x :: "'a::len word"
  assumes "m + 8 \<le> k \<or> k + 8 \<le> m"
  shows "take_bit 8 (drop_bit k (push_bit m (take_bit 8 x))) = 0"
  using assms by (intro bit_eqI) (auto simp: bit_simps)

lemmas byte_placement =
  byte_of_placed_byte byte_of_placed_byte [where m = 0, simplified]
  byte_of_other_byte byte_of_other_byte [where m = 0, simplified]
  byte_of_other_byte [where k = 0, simplified]

lemma swap_endian64_bytes:
  assumes "i < 8"
  shows "take_bit 8 (drop_bit (8 * i) (swap_endian64 v)) = take_bit 8 (drop_bit (8 * (7 - i)) v)"
proof -
  from assms consider "i = 0" | "i = 1" | "i = 2" | "i = 3" | "i = 4" | "i = 5" | "i = 6" | "i = 7"
    by linarith
  then show ?thesis
    by cases (simp_all add: swap_endian64_unrolled take_bit_or drop_bit_or byte_placement
        del: take_bit_drop_bit push_bit_take_bit)
qed

lemma rev_map_upt: "rev (map f [0..<n]) = map (\<lambda>i. f (n - Suc i)) [0..<n]"
  by (rule nth_equalityI) (auto simp: rev_nth)

lemma mem_bytes_swap32: "mem_bytes 4 (swap_endian32 v) = rev (mem_bytes 4 v)"
  unfolding mem_bytes_def rev_map_upt
proof (rule map_cong [OF refl])
  fix i assume "i \<in> set [0..<4::nat]"
  then have "i < 4" by simp
  then show "char_of (unat (drop_bit (8 * i) (swap_endian32 v)))
      = (char_of (unat (drop_bit (8 * (4 - Suc i)) v)) :: char)"
    using swap_endian32_bytes [of i v] by (intro char_of_unat_eqI) (simp add: numeral_eq_Suc)
qed

lemma mem_bytes_swap64: "mem_bytes 8 (swap_endian64 v) = rev (mem_bytes 8 v)"
  unfolding mem_bytes_def rev_map_upt
proof (rule map_cong [OF refl])
  fix i assume "i \<in> set [0..<8::nat]"
  then have "i < 8" by simp
  then show "char_of (unat (drop_bit (8 * i) (swap_endian64 v)))
      = (char_of (unat (drop_bit (8 * (8 - Suc i)) v)) :: char)"
    using swap_endian64_bytes [of i v] by (intro char_of_unat_eqI) (simp add: numeral_eq_Suc)
qed

lemma swap_endian32_swap [simp]: "swap_endian32 (swap_endian32 v) = v"
proof -
  have "mem_bytes 4 (swap_endian32 (swap_endian32 v)) = mem_bytes 4 v"
    by (simp add: mem_bytes_swap32)
  then show ?thesis by (metis load_mem_bytes_u32)
qed

lemma swap_endian64_swap [simp]: "swap_endian64 (swap_endian64 v) = v"
proof -
  have "mem_bytes 8 (swap_endian64 (swap_endian64 v)) = mem_bytes 8 v"
    by (simp add: mem_bytes_swap64)
  then show ?thesis by (metis load_mem_bytes_u64)
qed

section \<open>Readers\<close>

type_synonym 'a reader = "istream \<Rightarrow> ('a \<times> istream) result"

abbreviation read_failed :: exn where
  "read_failed \<equiv> Runtime_error ''read failed''"

definition and_then :: "'a reader \<Rightarrow> ('a \<Rightarrow> 'b reader) \<Rightarrow> 'b reader" where
  "and_then d f is = bindR (d is) (\<lambda>(x, is'). f x is')"

definition read_return :: "'a \<Rightarrow> 'a reader" where
  "read_return x is = Inr (x, is)"

text \<open>
  A reader parses \<open>s\<close> as \<open>x\<close> when it consumes exactly \<open>s\<close>, whatever follows; it rejects what is
  shorter when every proper prefix of \<open>s\<close>, at the end of the input, raises the read error.
\<close>

definition parses :: "'a reader \<Rightarrow> string \<Rightarrow> 'a \<Rightarrow> bool" where
  "parses d s x \<longleftrightarrow> (\<forall>r. d (stream_of (s @ r)) = Inr (x, stream_of r))"

definition rejects_short :: "'a reader \<Rightarrow> string \<Rightarrow> bool" where
  "rejects_short d s \<longleftrightarrow>
     (\<forall>p q. s = p @ q \<longrightarrow> q \<noteq> [] \<longrightarrow> d (stream_of p) = Inl read_failed)"

lemma parsesD: "parses d s x \<Longrightarrow> d (stream_of (s @ r)) = Inr (x, stream_of r)"
  by (simp add: parses_def)

lemma parsesD_all: "parses d s x \<Longrightarrow> d (stream_of s) = Inr (x, stream_of [])"
  using parsesD [of d s x "[]"] by simp

lemma rejects_shortD: "rejects_short d (p @ q) \<Longrightarrow> q \<noteq> [] \<Longrightarrow> d (stream_of p) = Inl read_failed"
  by (simp add: rejects_short_def)

lemma rejects_short_length:
  "(\<And>p. length p < length s \<Longrightarrow> d (stream_of p) = Inl read_failed) \<Longrightarrow> rejects_short d s"
  by (auto simp: rejects_short_def)

lemma parses_return: "parses (read_return x) [] x"
  and rejects_short_return: "rejects_short (read_return x) []"
  by (auto simp: parses_def rejects_short_def read_return_def)

lemma parses_and_then:
  "parses d s x \<Longrightarrow> parses (f x) t y \<Longrightarrow> parses (and_then d f) (s @ t) y"
  by (simp add: parses_def and_then_def)

lemma rejects_short_and_then:
  assumes "parses d s x" and "rejects_short d s" and "rejects_short (f x) t"
  shows "rejects_short (and_then d f) (s @ t)"
  unfolding rejects_short_def
proof (intro allI impI)
  fix p q assume "s @ t = p @ q" and "q \<noteq> []"
  then consider q' where "s = p @ q'" "q' \<noteq> []" | p' where "p = s @ p'" "t = p' @ q"
    by (metis append_eq_append_conv2 append_Nil append_Nil2)
  then show "and_then d f (stream_of p) = Inl read_failed"
  proof cases
    case 1
    then show ?thesis using assms(2) by (auto simp: and_then_def dest: rejects_shortD)
  next
    case 2
    then show ?thesis using assms(1,3) \<open>q \<noteq> []\<close>
      by (auto simp: and_then_def parses_def dest: rejects_shortD)
  qed
qed

lemma parses_map:
  "parses d s x \<Longrightarrow> parses (and_then d (\<lambda>x. read_return (g x))) s (g x)"
  using parses_and_then [of d s x "\<lambda>x. read_return (g x)" "[]" "g x"] by (simp add: parses_return)

lemma rejects_short_map:
  "parses d s x \<Longrightarrow> rejects_short d s \<Longrightarrow>
     rejects_short (and_then d (\<lambda>x. read_return (g x))) s"
  using rejects_short_and_then [of d s x "\<lambda>x. read_return (g x)" "[]"]
  by (simp add: rejects_short_return)

lemmas reader_intros =
  parses_return rejects_short_return parses_and_then rejects_short_and_then

section \<open>Integers and strings on the wire\<close>

definition write_uint32 :: "u32 \<Rightarrow> string" where
  "write_uint32 value = (let be = swap_endian32 value in mem_bytes 4 be)"

text \<open>The uninitialised \<^verbatim>\<open>be\<close> is overwritten whole, or the function throws: its old bytes are zeros here.\<close>

definition read_uint32 :: "u32 reader" where
  "read_uint32 is =
     (case stream_read (replicate 4 (CHR 0x00)) 4 is of
        (be, is') \<Rightarrow> if failbit is' then Inl read_failed
                    else Inr (swap_endian32 (load_bytes be), is'))"

definition write_uint64 :: "u64 \<Rightarrow> string" where
  "write_uint64 value = (let be = swap_endian64 value in mem_bytes 8 be)"

definition read_uint64 :: "u64 reader" where
  "read_uint64 is =
     (case stream_read (replicate 8 (CHR 0x00)) 8 is of
        (be, is') \<Rightarrow> if failbit is' then Inl read_failed
                    else Inr (swap_endian64 (load_bytes be), is'))"

definition write_string :: "string \<Rightarrow> string result" where
  "write_string str =
     (if 2 ^ 32 - 1 < length str then Inl (Runtime_error ''string too large'')
      else Inr (write_uint32 (of_nat (length str)) @ str))"

definition read_string :: "string reader" where
  "read_string is =
     bindR (read_uint32 is) (\<lambda>(size, is').
       case stream_read (replicate (unat size) (CHR 0x00)) (unat size) is' of
         (str, is'') \<Rightarrow> if failbit is'' then Inl read_failed else Inr (str, is''))"

lemma length_write_uint32 [simp]: "length (write_uint32 v) = 4"
  and length_write_uint64 [simp]: "length (write_uint64 w) = 8"
  by (simp_all add: write_uint32_def write_uint64_def Let_def)

lemma parses_uint32: "parses read_uint32 (write_uint32 v) v"
  by (simp add: parses_def read_uint32_def) (simp add: write_uint32_def Let_def)

lemma parses_uint64: "parses read_uint64 (write_uint64 v) v"
  by (simp add: parses_def read_uint64_def) (simp add: write_uint64_def Let_def)

lemma read_uint32_short: "length p < 4 \<Longrightarrow> read_uint32 (stream_of p) = Inl read_failed"
  by (auto simp: read_uint32_def split: prod.splits dest: stream_read_short [of p 4])
     (metis snd_conv stream_read_short)

lemma read_uint64_short: "length p < 8 \<Longrightarrow> read_uint64 (stream_of p) = Inl read_failed"
  by (auto simp: read_uint64_def split: prod.splits) (metis snd_conv stream_read_short)

lemma rejects_short_uint32: "rejects_short read_uint32 (write_uint32 v)"
  by (rule rejects_short_length) (simp add: read_uint32_short)

lemma rejects_short_uint64: "rejects_short read_uint64 (write_uint64 v)"
  by (rule rejects_short_length) (simp add: read_uint64_short)

text \<open>The body of \<^verbatim>\<open>read_string\<close> once the size is known.\<close>

lemma read_string_alt:
  "read_string = and_then read_uint32 (\<lambda>size is'.
     case stream_read (replicate (unat size) (CHR 0x00)) (unat size) is' of
       (str, is'') \<Rightarrow> if failbit is'' then Inl read_failed else Inr (str, is''))"
  by (rule ext) (simp add: read_string_def and_then_def)

lemma write_string_Inr:
  "write_string str = Inr s \<longleftrightarrow>
     length str < 2 ^ 32 \<and> s = write_uint32 (of_nat (length str)) @ str"
  by (auto simp: write_string_def)

lemma unat_of_nat_u32: "n < 2 ^ 32 \<Longrightarrow> unat (of_nat n :: u32) = n"
  by (simp add: unsigned_of_nat take_bit_nat_eq_self)

lemma parses_string:
  assumes "write_string str = Inr s"
  shows "parses read_string s str"
proof -
  from assms have "length str < 2 ^ 32" and s: "s = write_uint32 (of_nat (length str)) @ str"
    by (simp_all add: write_string_Inr)
  then show ?thesis
    unfolding read_string_alt s
    by (intro parses_and_then [OF parses_uint32]) (simp add: parses_def unat_of_nat_u32)
qed

lemma rejects_short_string:
  assumes "write_string str = Inr s"
  shows "rejects_short read_string s"
proof -
  from assms have "length str < 2 ^ 32" and s: "s = write_uint32 (of_nat (length str)) @ str"
    by (simp_all add: write_string_Inr)
  then show ?thesis
    unfolding read_string_alt s
    by (intro rejects_short_and_then [OF parses_uint32 rejects_short_uint32])
       (auto simp: rejects_short_def unat_of_nat_u32 stream_read_def)
qed

lemmas primitive_parses = parses_uint32 parses_uint64 parses_string
lemmas primitive_rejects = rejects_short_uint32 rejects_short_uint64 rejects_short_string

section \<open>Properties\<close>

text \<open>
  Integers travel in network byte order: the serializers put the most significant byte first,
  for both widths, although the objects in memory have it last.
\<close>

lemma network_byte_order:
  "write_uint32 v = map (\<lambda>i. char_of (unat (drop_bit (8 * (3 - i)) v))) [0..<4] \<and>
   write_uint64 w = map (\<lambda>i. char_of (unat (drop_bit (8 * (7 - i)) w))) [0..<8]"
proof -
  have "4 - Suc i = 3 - i" and "8 - Suc i = 7 - i" for i by simp_all
  then show ?thesis
    unfolding write_uint32_def write_uint64_def Let_def mem_bytes_swap32 mem_bytes_swap64
    unfolding mem_bytes_def rev_map_upt by (simp only: simp_thms)
qed

end
