(* ===== verification/Codec.thy ===== *)
theory Codec
  imports Serializable
begin

text \<open>
  The \<^verbatim>\<open>ISerializable\<close> interface of \<^verbatim>\<open>src/common/serializable.hpp\<close> as a locale, and the vector
  readers and writers that are clients of it: the two templates and their string instances.
\<close>

section \<open>Vectors\<close>

fun write_items :: "('a \<Rightarrow> string result) \<Rightarrow> 'a list \<Rightarrow> string result" where
  "write_items ser [] = Inr []"
| "write_items ser (item # items) =
     bindR (ser item) (\<lambda>a. bindR (write_items ser items) (\<lambda>b. Inr (a @ b)))"

definition write_vector_serializeable :: "('a \<Rightarrow> string result) \<Rightarrow> 'a list \<Rightarrow> string result" where
  "write_vector_serializeable ser vec =
     (let count = of_nat (length vec); net_count = swap_endian32 count
      in bindR (write_items ser vec) (\<lambda>s. Inr (mem_bytes 4 net_count @ s)))"

fun read_items :: "'a reader \<Rightarrow> nat \<Rightarrow> 'a list \<Rightarrow> 'a list reader" where
  "read_items deser 0 vec is = Inr (vec, is)"
| "read_items deser (Suc n) vec is =
     bindR (deser is) (\<lambda>(item, is'). read_items deser n (vec @ [item]) is')"

text \<open>
  The count is read without a check of the stream: after a short read it still holds (some of) the
  indeterminate bytes of the uninitialised \<^verbatim>\<open>net_count\<close>, here the argument \<open>mem\<close>.
\<close>

definition read_vector_serializeable :: "u32 \<Rightarrow> 'a reader \<Rightarrow> 'a list reader" where
  "read_vector_serializeable mem deser is =
     (case stream_read (mem_bytes 4 mem) 4 is of
        (net_count, is') \<Rightarrow>
          let count = swap_endian32 (load_bytes net_count)
          in read_items deser (unat count) [] is')"

definition write_vector_string :: "string list \<Rightarrow> string result" where
  "write_vector_string vec =
     (let count = of_nat (length vec); net_count = swap_endian32 count
      in bindR (write_items write_string vec) (\<lambda>s. Inr (mem_bytes 4 net_count @ s)))"

definition read_vector_string :: "u32 \<Rightarrow> string list reader" where
  "read_vector_string mem is =
     (case stream_read (mem_bytes 4 mem) 4 is of
        (net_count, is') \<Rightarrow>
          let count = swap_endian32 (load_bytes net_count)
          in read_items read_string (unat count) [] is')"

lemma read_items_accum:
  "read_items deser n vec is = bindR (read_items deser n [] is) (\<lambda>(xs, is'). Inr (vec @ xs, is'))"
proof (induction n arbitrary: vec "is")
  case 0
  then show ?case by simp
next
  case (Suc n)
  show ?case
  proof (cases "deser is")
    case (Inl e)
    then show ?thesis by simp
  next
    case (Inr p)
    obtain x is' where "p = (x, is')" by (cases p)
    with Inr Suc [of "vec @ [x]" is'] Suc [of "[x]" is'] show ?thesis
      by (simp add: bindR_assoc case_prod_beta)
  qed
qed

lemma read_items_Suc:
  "read_items deser (Suc n) [] =
     and_then deser (\<lambda>x. and_then (read_items deser n []) (\<lambda>xs. read_return (x # xs)))"
proof (rule ext)
  fix "is"
  show "read_items deser (Suc n) [] is =
      and_then deser (\<lambda>x. and_then (read_items deser n []) (\<lambda>xs. read_return (x # xs))) is"
    by (cases "deser is")
       (auto simp: and_then_def read_return_def read_items_accum [of deser n "[x]" for x])
qed

lemma read_items_0: "read_items deser 0 [] = read_return []"
  by (rule ext) (simp add: read_return_def)

text \<open>Reading a vector whose header has arrived is reading the header and then the items.\<close>

lemma read_vector_header:
  "read_vector_serializeable mem deser (stream_of (write_uint32 count @ s)) =
     read_items deser (unat count) [] (stream_of s)"
  by (simp add: read_vector_serializeable_def write_uint32_def Let_def)

lemma write_vector_Inr:
  "write_vector_serializeable ser xs = Inr s \<longleftrightarrow>
     (\<exists>t. write_items ser xs = Inr t \<and> s = write_uint32 (of_nat (length xs)) @ t)"
  by (auto simp: write_vector_serializeable_def write_uint32_def Let_def bindR_Inr_iff)

lemma read_vector_string_alt: "read_vector_string mem = read_vector_serializeable mem read_string"
  by (rule ext) (simp add: read_vector_string_def read_vector_serializeable_def)

lemma write_vector_string_alt: "write_vector_string = write_vector_serializeable write_string"
  by (rule ext) (simp add: write_vector_string_def write_vector_serializeable_def)

section \<open>The interface\<close>

locale codec =
  fixes ser :: "'a \<Rightarrow> string result"
    and deser :: "'a reader"
    and ok :: "'a \<Rightarrow> bool"
  assumes ser_ok: "ok x \<Longrightarrow> \<exists>s. ser x = Inr s"
    and deser_ser: "ok x \<Longrightarrow> ser x = Inr s \<Longrightarrow> parses deser s x"
begin

lemma ser_inject: "ok x \<Longrightarrow> ok y \<Longrightarrow> ser x = Inr s \<Longrightarrow> ser y = Inr s \<Longrightarrow> x = y"
  using deser_ser [of x s, THEN parsesD_all] deser_ser [of y s, THEN parsesD_all] by simp

lemma write_items_ok: "list_all ok xs \<Longrightarrow> \<exists>s. write_items ser xs = Inr s"
proof (induction xs)
  case Nil
  then show ?case by simp
next
  case (Cons x xs)
  then obtain a b where "ser x = Inr a" and "write_items ser xs = Inr b"
    using ser_ok [of x] by auto
  then show ?case by simp
qed

lemma items_roundtrip:
  "list_all ok xs \<Longrightarrow> write_items ser xs = Inr s \<Longrightarrow>
     parses (read_items deser (length xs) []) s xs"
proof (induction xs arbitrary: s)
  case Nil
  then show ?case by (simp add: read_items_0 parses_return)
next
  case (Cons x xs)
  then obtain a b where a: "ser x = Inr a" and b: "write_items ser xs = Inr b" and s: "s = a @ b"
    by (auto simp: bindR_Inr_iff)
  have "parses (read_items deser (length xs) []) b xs"
    using Cons b by simp
  moreover have "parses deser a x"
    using Cons.prems a deser_ser by simp
  ultimately show ?case
    by (simp only: list.size(4) add_Suc_right add_0_right read_items_Suc s)
       (rule parses_and_then, assumption, rule parses_map)
qed

lemma vector_ser_ok: "list_all ok xs \<Longrightarrow> \<exists>s. write_vector_serializeable ser xs = Inr s"
  using write_items_ok [of xs] by (auto simp: write_vector_Inr)

lemma vector_roundtrip:
  assumes "list_all ok xs" and "length xs < 2 ^ 32"
    and "write_vector_serializeable ser xs = Inr s"
  shows "parses (read_vector_serializeable mem deser) s xs"
proof -
  from assms(3) obtain t where t: "write_items ser xs = Inr t"
    and s: "s = write_uint32 (of_nat (length xs)) @ t"
    by (auto simp: write_vector_Inr)
  show ?thesis
    using items_roundtrip [OF assms(1) t]
    by (simp add: parses_def s read_vector_header unat_of_nat_u32 [OF assms(2)])
qed

lemma vector_codec:
  "codec (write_vector_serializeable ser) (read_vector_serializeable mem deser)
     (\<lambda>xs. list_all ok xs \<and> length xs < 2 ^ 32)"
  by unfold_locales (auto intro: vector_ser_ok vector_roundtrip)

end

text \<open>A codec whose reader also notices every truncation.\<close>

locale strict_codec = codec +
  assumes deser_short: "ok x \<Longrightarrow> ser x = Inr s \<Longrightarrow> rejects_short deser s"
begin

lemma items_short:
  "list_all ok xs \<Longrightarrow> write_items ser xs = Inr s \<Longrightarrow>
     rejects_short (read_items deser (length xs) []) s"
proof (induction xs arbitrary: s)
  case Nil
  then show ?case by (simp add: read_items_0 rejects_short_return)
next
  case (Cons x xs)
  then obtain a b where a: "ser x = Inr a" and b: "write_items ser xs = Inr b" and s: "s = a @ b"
    by (auto simp: bindR_Inr_iff)
  have "parses (read_items deser (length xs) []) b xs"
    and "rejects_short (read_items deser (length xs) []) b"
    using Cons b items_roundtrip by simp_all
  moreover have "parses deser a x" and "rejects_short deser a"
    using Cons.prems a by (auto intro: deser_ser deser_short)
  ultimately show ?case
    by (simp only: list.size(4) add_Suc_right add_0_right read_items_Suc s)
       (rule rejects_short_and_then, assumption, assumption, rule rejects_short_map)
qed

text \<open>A vector cut after its header is rejected, wherever the cut falls.\<close>

lemma vector_short:
  assumes "list_all ok xs" and "length xs < 2 ^ 32"
    and "write_vector_serializeable ser xs = Inr (p @ q)" and "q \<noteq> []" and "4 \<le> length p"
  shows "read_vector_serializeable mem deser (stream_of p) = Inl read_failed"
proof -
  from assms(3) obtain t where t: "write_items ser xs = Inr t"
    and s: "p @ q = write_uint32 (of_nat (length xs)) @ t"
    by (auto simp: write_vector_Inr)
  define p' where "p' = drop 4 p"
  have "take 4 p = take 4 (p @ q)" using assms(5) by simp
  then have p: "p = write_uint32 (of_nat (length xs)) @ p'"
    unfolding s p'_def by (metis append_take_drop_id length_write_uint32 take_append_exact)
  with s have "t = p' @ q" by simp
  then show ?thesis
    using items_short [OF assms(1) t] \<open>q \<noteq> []\<close>
    by (simp add: p read_vector_header unat_of_nat_u32 [OF assms(2)] rejects_short_def)
qed

end

interpretation string_codec: strict_codec write_string read_string "\<lambda>s. length s < 2 ^ 32"
  by unfold_locales (auto simp: write_string_Inr intro: parses_string rejects_short_string)

end
