(* ===== verification/Log_Entry.thy ===== *)
theory Log_Entry
  imports Codec
begin

text \<open>
  \<^verbatim>\<open>src/common/log_entry.hpp/.cpp\<close>: one log record, its binary form (sent over the network) and
  its text form (one line of a log file).
\<close>

section \<open>Data\<close>

text \<open>
  The enumeration is read back from the wire by a cast, which checks nothing: \<open>LogType_value n\<close> is
  an object of the type that holds a number without an enumerator.
\<close>

datatype LogType = CPU | MEM | DISK | NET | LogType_value u32

fun u32_of_LogType :: "LogType \<Rightarrow> u32" where
  "u32_of_LogType CPU = 1"
| "u32_of_LogType MEM = 2"
| "u32_of_LogType DISK = 3"
| "u32_of_LogType NET = 4"
| "u32_of_LogType (LogType_value n) = n"

definition LogType_of_u32 :: "u32 \<Rightarrow> LogType" where
  "LogType_of_u32 n =
     (if n = 1 then CPU else if n = 2 then MEM else if n = 3 then DISK else if n = 4 then NET
      else LogType_value n)"

definition proper_type :: "LogType \<Rightarrow> bool" where
  "proper_type t \<longleftrightarrow> LogType_of_u32 (u32_of_LogType t) = t"

lemma proper_type_enumerators [simp]:
  "proper_type CPU" "proper_type MEM" "proper_type DISK" "proper_type NET"
  by (simp_all add: proper_type_def LogType_of_u32_def)

lemma LogType_of_u32_inverse [simp]: "proper_type t \<Longrightarrow> LogType_of_u32 (u32_of_LogType t) = t"
  by (simp add: proper_type_def)

lemma u32_of_LogType_of_u32 [simp]: "u32_of_LogType (LogType_of_u32 n) = n"
  by (simp add: LogType_of_u32_def)

lemma proper_type_of_u32 [simp]: "proper_type (LogType_of_u32 n)"
  by (simp add: proper_type_def)

record LogEntry =
  le_id :: u64
  le_process_name :: string
  le_timestamp_ms :: u64
  le_log_type :: LogType
  le_value :: u64

definition LogEntry_new :: "u64 \<Rightarrow> string \<Rightarrow> u64 \<Rightarrow> LogType \<Rightarrow> u64 \<Rightarrow> LogEntry" where
  "LogEntry_new n_id n_process_name n_timestamp_ms n_log_type n_value =
     \<lparr>le_id = n_id, le_process_name = n_process_name, le_timestamp_ms = n_timestamp_ms,
      le_log_type = n_log_type, le_value = n_value\<rparr>"

text \<open>
  The default constructor initialises the string only; the numbers keep what the memory held
  (\<open>mem\<close>).
\<close>

definition LogEntry_default :: "LogEntry \<Rightarrow> LogEntry" where
  "LogEntry_default mem = mem\<lparr>le_process_name := []\<rparr>"

definition LogEntry_eq :: "LogEntry \<Rightarrow> LogEntry \<Rightarrow> bool" where
  "LogEntry_eq lhs rhs =
     (if le_id lhs \<noteq> le_id rhs then False
      else if le_process_name lhs \<noteq> le_process_name rhs then False
      else if le_timestamp_ms lhs \<noteq> le_timestamp_ms rhs then False
      else if le_log_type lhs \<noteq> le_log_type rhs then False
      else if le_value lhs \<noteq> le_value rhs then False
      else True)"

definition ids :: "LogEntry list \<Rightarrow> nat list" where
  "ids es = map (\<lambda>e. unat (le_id e)) es"

lemma ids_simps [simp]: "ids [] = []" "ids (e # es) = unat (le_id e) # ids es"
    "ids (xs @ ys) = ids xs @ ids ys" "length (ids es) = length es"
  by (simp_all add: ids_def)

lemma ids_take_drop: "ids (take n es) = take n (ids es)" "ids (drop n es) = drop n (ids es)"
  by (simp_all add: ids_def take_map drop_map)

lemma LogEntry_eq_iff [simp]: "LogEntry_eq a b \<longleftrightarrow> a = b"
  by (auto simp: LogEntry_eq_def)

text \<open>
  What the uninitialised locals of a caller hold: the number, the entry and the element count that
  the readers below may leave alone.
\<close>

record indeterminate =
  in_num :: u32
  in_entry :: LogEntry
  in_count :: u32
  in_id :: u64

section \<open>Binary form\<close>

definition serialize :: "LogEntry \<Rightarrow> string result" where
  "serialize e =
     bindR (write_string (le_process_name e)) (\<lambda>name.
       Inr (write_uint64 (le_id e) @ name @ write_uint64 (le_timestamp_ms e) @
            write_uint32 (u32_of_LogType (le_log_type e)) @ write_uint64 (le_value e)))"

definition deserialize :: "LogEntry reader" where
  "deserialize =
     and_then read_uint64 (\<lambda>i.
     and_then read_string (\<lambda>name.
     and_then read_uint64 (\<lambda>ts.
     and_then read_uint32 (\<lambda>ty.
     and_then read_uint64 (\<lambda>v.
       read_return \<lparr>le_id = i, le_process_name = name, le_timestamp_ms = ts,
                    le_log_type = LogType_of_u32 ty, le_value = v\<rparr>)))))"

definition sendable :: "LogEntry \<Rightarrow> bool" where
  "sendable e \<longleftrightarrow> length (le_process_name e) < 2 ^ 32 \<and> proper_type (le_log_type e)"

lemma serialize_Inr:
  "serialize e = Inr s \<longleftrightarrow> (\<exists>name. write_string (le_process_name e) = Inr name \<and>
     s = write_uint64 (le_id e) @ name @ write_uint64 (le_timestamp_ms e) @
         write_uint32 (u32_of_LogType (le_log_type e)) @ write_uint64 (le_value e) @ [])"
  by (auto simp: serialize_def bindR_Inr_iff)

lemma parses_log_entry:
  assumes "sendable e" and "serialize e = Inr s"
  shows "parses deserialize s e"
proof -
  from assms(2) obtain name where name: "write_string (le_process_name e) = Inr name"
    and s: "s = write_uint64 (le_id e) @ name @ write_uint64 (le_timestamp_ms e) @
         write_uint32 (u32_of_LogType (le_log_type e)) @ write_uint64 (le_value e) @ []"
    by (auto simp: serialize_Inr)
  have "e = \<lparr>le_id = le_id e, le_process_name = le_process_name e,
      le_timestamp_ms = le_timestamp_ms e,
      le_log_type = LogType_of_u32 (u32_of_LogType (le_log_type e)), le_value = le_value e\<rparr>"
    using assms(1) by (simp add: sendable_def)
  then show ?thesis
    unfolding s deserialize_def
    by (metis (no_types, lifting) parses_and_then parses_return parses_uint32 parses_uint64
        parses_string [OF name])
qed

lemma rejects_short_log_entry:
  assumes "serialize e = Inr s"
  shows "rejects_short deserialize s"
proof -
  from assms obtain name where name: "write_string (le_process_name e) = Inr name"
    and s: "s = write_uint64 (le_id e) @ name @ write_uint64 (le_timestamp_ms e) @
         write_uint32 (u32_of_LogType (le_log_type e)) @ write_uint64 (le_value e) @ []"
    by (auto simp: serialize_Inr)
  show ?thesis
    unfolding s deserialize_def
    by (intro rejects_short_and_then rejects_short_return rejects_short_uint32
        rejects_short_uint64 rejects_short_string [OF name])
       (rule parses_uint32 parses_uint64 parses_string [OF name])+
qed

interpretation log_codec: strict_codec serialize deserialize sendable
proof unfold_locales
  fix e :: LogEntry and s
  assume "sendable e"
  then show "\<exists>s. serialize e = Inr s"
    by (auto simp: serialize_Inr sendable_def write_string_Inr)
qed (auto intro: parses_log_entry rejects_short_log_entry)

section \<open>Text form\<close>

abbreviation (input) bar :: char where "bar \<equiv> CHR ''|''"
abbreviation (input) newline :: char where "newline \<equiv> CHR 0x0A"

definition serialize_str :: "LogEntry \<Rightarrow> string" where
  "serialize_str e =
     show_nat (unat (le_id e)) @ ''|'' @ le_process_name e @ ''|'' @
     show_nat (unat (le_timestamp_ms e)) @ ''|'' @
     show_nat (unat (u32_of_LogType (le_log_type e))) @ ''|'' @
     show_nat (unat (le_value e)) @ [newline]"

text \<open>
  \<open>temp_number\<close> is the indeterminate local of that name and \<open>this\<close> the entry before the call: a
  number that does not parse leaves them as they were. A \<^verbatim>\<open>getline\<close> behind the end of the line
  leaves its string as it was, so the last piece is parsed again for the fields that are missing.
\<close>

definition deserialize_str :: "u32 \<Rightarrow> LogEntry \<Rightarrow> istream \<Rightarrow> int \<times> LogEntry \<times> istream" where
  "deserialize_str temp_number this is =
     (let (line, is') = getline newline [] is
      in if failbit is' then (1, this, is')
         else if line = [] then (1, this, is')
         else
           let ss = stream_of line;
               (temp, ss) = getline bar [] ss;
               i = from_chars temp (le_id this);
               (name, ss) = getline bar (le_process_name this) ss;
               (temp, ss) = getline bar temp ss;
               ts = from_chars temp (le_timestamp_ms this);
               (temp, ss) = getline bar temp ss;
               ty = LogType_of_u32 (from_chars temp temp_number);
               (temp, ss) = getline bar temp ss;
               v = from_chars temp (le_value this)
           in (0, \<lparr>le_id = i, le_process_name = name, le_timestamp_ms = ts,
                   le_log_type = ty, le_value = v\<rparr>, is'))"

definition storable :: "LogEntry \<Rightarrow> bool" where
  "storable e \<longleftrightarrow>
     bar \<notin> set (le_process_name e) \<and> newline \<notin> set (le_process_name e) \<and>
     proper_type (le_log_type e)"

definition entry_line :: "LogEntry \<Rightarrow> string" where
  "entry_line e =
     show_nat (unat (le_id e)) @ bar # le_process_name e @ bar #
     show_nat (unat (le_timestamp_ms e)) @ bar #
     show_nat (unat (u32_of_LogType (le_log_type e))) @ bar #
     show_nat (unat (le_value e))"

lemma serialize_str_line: "serialize_str e = entry_line e @ [newline]"
  by (simp add: serialize_str_def entry_line_def)

lemma entry_line_nonempty [simp]: "entry_line e \<noteq> []"
  by (simp add: entry_line_def)

lemma newline_notin_entry_line:
  "newline \<notin> set (le_process_name e) \<Longrightarrow> newline \<notin> set (entry_line e)"
  by (auto simp: entry_line_def not_in_show_nat)

lemma getline_entry_line:
  "newline \<notin> set (le_process_name e) \<Longrightarrow>
     getline newline str (stream_of (serialize_str e @ r)) = (entry_line e, stream_of r)"
  using getline_delim [OF newline_notin_entry_line, of e str r] by (simp add: serialize_str_line)

lemma getline_show_nat:
  "getline bar str (stream_of (show_nat n @ bar # r)) = (show_nat n, stream_of r)"
  "fst (getline bar str (stream_of (show_nat n))) = show_nat n"
  by (simp_all add: getline_delim getline_last not_in_show_nat)

lemma deserialize_serialize_str:
  assumes "storable e"
  shows "deserialize_str temp_number this (stream_of (serialize_str e @ r)) = (0, e, stream_of r)"
proof -
  have "newline \<notin> set (le_process_name e)" and "bar \<notin> set (le_process_name e)"
    and "proper_type (le_log_type e)"
    using assms by (simp_all add: storable_def)
  then show ?thesis
    by (simp add: deserialize_str_def getline_entry_line Let_def case_prod_beta)
       (simp add: entry_line_def getline_show_nat getline_delim)
qed

text \<open>A separator in the name ends the name early, and the text is read as another entry.\<close>

lemma deserialize_str_bar_in_name:
  assumes "newline \<notin> set (le_process_name e)" and "bar \<in> set (le_process_name e)"
  shows "le_process_name (fst (snd
           (deserialize_str temp_number this (stream_of (serialize_str e @ r)))))
         = takeWhile (\<lambda>c. c \<noteq> bar) (le_process_name e)"
proof -
  from split_list_first [OF assms(2)] obtain a b where n: "le_process_name e = a @ bar # b"
    and a: "bar \<notin> set a" by blast
  with assms(1) show ?thesis
    by (simp add: deserialize_str_def getline_entry_line Let_def case_prod_beta
        takeWhile_neq_append)
       (simp add: entry_line_def getline_show_nat getline_delim n)
qed

section \<open>Properties\<close>

text \<open>
  C33. A batch of logs whose names and types fit the format is read back from its bytes as it was
  written, whatever follows in the stream and whatever the uninitialised count held before.
\<close>

theorem log_batch_roundtrip:
  assumes "list_all sendable es" and "length es < 2 ^ 32"
  shows "\<exists>s. write_vector_serializeable serialize es = Inr s \<and>
    read_vector_serializeable mem deserialize (stream_of (s @ rest)) = Inr (es, stream_of rest)"
  using log_codec.vector_ser_ok [OF assms(1)] parsesD [OF log_codec.vector_roundtrip [OF assms]]
  by blast

lemma log_batch_roundtrip_witness:
  "\<exists>s. write_vector_serializeable serialize [LogEntry_new 1 ''a'' 2 MEM 3, LogEntry_new 2 ''b'' 2 NET 4] = Inr s \<and>
    read_vector_serializeable 77 deserialize (stream_of (s @ ''xyz'')) =
      Inr ([LogEntry_new 1 ''a'' 2 MEM 3, LogEntry_new 2 ''b'' 2 NET 4], stream_of ''xyz'')"
  by (rule log_batch_roundtrip) (simp_all add: sendable_def LogEntry_new_def)

text \<open>
  A batch cut short anywhere behind its count is an error for the reader, never a shorter or
  different batch.
\<close>

lemma log_batch_truncated:
  assumes "list_all sendable es" and "length es < 2 ^ 32"
    and "write_vector_serializeable serialize es = Inr (p @ q)" and "q \<noteq> []" and "4 \<le> length p"
  shows "read_vector_serializeable mem deserialize (stream_of p) = Inl read_failed"
  using assms by (rule log_codec.vector_short)

lemma log_batch_truncated_witness:
  "\<exists>s. write_vector_serializeable serialize [LogEntry_new 1 ''a'' 2 MEM 3] = Inr s \<and>
    read_vector_serializeable 77 deserialize (stream_of (take 10 s)) = Inl read_failed"
proof -
  obtain n where n: "write_string ''a'' = Inr n" and "length n = 5"
    by (simp add: write_string_Inr)
  then obtain s where s: "write_vector_serializeable serialize [LogEntry_new 1 ''a'' 2 MEM 3] = Inr s"
    and "length s = 37"
    by (simp add: write_vector_Inr serialize_def LogEntry_new_def)
  then have "drop 10 s \<noteq> []" and "4 \<le> length (take 10 s)" by auto
  with log_batch_truncated [of "[LogEntry_new 1 ''a'' 2 MEM 3]" "take 10 s" "drop 10 s" 77] s
  show ?thesis by (simp add: sendable_def LogEntry_new_def)
qed

text \<open>
  C34. The text form of a log is read back as it was written, whatever the entry read into held
  before, if the program's name contains neither the separator nor a line break.
\<close>

theorem log_text_roundtrip:
  assumes "storable e"
  shows "deserialize_str temp_number this (stream_of (serialize_str e @ r)) = (0, e, stream_of r)"
  using assms by (rule deserialize_serialize_str)

lemma log_text_roundtrip_witness:
  "deserialize_str 9 (LogEntry_new 5 ''old'' 6 NET 7)
     (stream_of (serialize_str (LogEntry_new 1 ''chrome.exe'' 2 MEM 3) @ ''tail'')) =
   (0, LogEntry_new 1 ''chrome.exe'' 2 MEM 3, stream_of ''tail'')"
  by (rule log_text_roundtrip) (simp add: storable_def LogEntry_new_def)

text \<open>
  A separator in the name damages the entry: the name read back is cut at the separator, so
  the round trip fails.
\<close>

lemma log_text_separator:
  assumes "newline \<notin> set (le_process_name e)" and "bar \<in> set (le_process_name e)"
  shows "fst (snd (deserialize_str temp_number this (stream_of (serialize_str e @ r)))) \<noteq> e"
proof -
  have "takeWhile (\<lambda>c. c \<noteq> bar) (le_process_name e) \<noteq> le_process_name e"
    using assms(2) by (metis set_takeWhileD)
  with deserialize_str_bar_in_name [OF assms] show ?thesis by metis
qed

lemma log_text_separator_witness:
  "fst (snd (deserialize_str 0 (LogEntry_new 0 [] 0 CPU 0)
     (stream_of (serialize_str (LogEntry_new 1 ''a|b'' 2 MEM 3) @ [])))) \<noteq> LogEntry_new 1 ''a|b'' 2 MEM 3"
  by (rule log_text_separator) (simp_all add: LogEntry_new_def)

end
