(* ===== verification/Config.thy ===== *)
theory Config
  imports Codec
begin

text \<open>
  \<^verbatim>\<open>src/common/global.hpp\<close>, \<^verbatim>\<open>config_entry.hpp/.cpp\<close> and \<^verbatim>\<open>config.hpp/.cpp\<close>: the thresholds per
  program, their units, their binary form and the configuration file of the POSIX build. The JSON
  library is a parameter: \<open>dump\<close> prints a list of entries and \<open>parse\<close> reads one, or throws.
\<close>

section \<open>Units\<close>

definition KB :: u64 where "KB = push_bit 10 1"
definition MB :: u64 where "MB = push_bit 20 1"

definition CPU_UNIT :: u32 where "CPU_UNIT = 1000"
definition MEM_UNIT :: u64 where "MEM_UNIT = MB"
definition DISK_UNIT :: u64 where "DISK_UNIT = KB"
definition NETWORK_UNIT :: u64 where "NETWORK_UNIT = KB"

lemma unit_values: "CPU_UNIT = 1000" "MEM_UNIT = 1048576" "DISK_UNIT = 1024" "NETWORK_UNIT = 1024"
  by (simp_all add: CPU_UNIT_def MEM_UNIT_def DISK_UNIT_def NETWORK_UNIT_def MB_def KB_def
      push_bit_eq_mult)

section \<open>Entries\<close>

record ConfigEntry =
  ce_process_name :: string
  ce_cpu_usage :: u32
  ce_mem_usage :: u64
  ce_disk_usage :: u64
  ce_network_usage :: u64

definition ConfigEntry_new :: "string \<Rightarrow> u32 \<Rightarrow> u64 \<Rightarrow> u64 \<Rightarrow> u64 \<Rightarrow> ConfigEntry" where
  "ConfigEntry_new n_process_name n_cpu_usage n_mem_usage n_disk_usage n_network_usage =
     \<lparr>ce_process_name = n_process_name, ce_cpu_usage = n_cpu_usage, ce_mem_usage = n_mem_usage,
      ce_disk_usage = n_disk_usage, ce_network_usage = n_network_usage\<rparr>"

definition ce_serialize :: "ConfigEntry \<Rightarrow> string result" where
  "ce_serialize c =
     bindR (write_string (ce_process_name c)) (\<lambda>name.
       Inr (name @ write_uint32 (ce_cpu_usage c) @ write_uint64 (ce_mem_usage c) @
            write_uint64 (ce_disk_usage c) @ write_uint64 (ce_network_usage c)))"

definition ce_deserialize :: "ConfigEntry reader" where
  "ce_deserialize =
     and_then read_string (\<lambda>name.
     and_then read_uint32 (\<lambda>cpu.
     and_then read_uint64 (\<lambda>mem.
     and_then read_uint64 (\<lambda>disk.
     and_then read_uint64 (\<lambda>net.
       read_return (ConfigEntry_new name cpu mem disk net))))))"

definition convert_after_read :: "ConfigEntry \<Rightarrow> ConfigEntry" where
  "convert_after_read c =
     c\<lparr>ce_cpu_usage := ce_cpu_usage c * CPU_UNIT,
       ce_mem_usage := ce_mem_usage c * MEM_UNIT,
       ce_disk_usage := ce_disk_usage c * DISK_UNIT,
       ce_network_usage := ce_network_usage c * NETWORK_UNIT\<rparr>"

definition convert_before_write :: "ConfigEntry \<Rightarrow> ConfigEntry" where
  "convert_before_write c =
     c\<lparr>ce_cpu_usage := ce_cpu_usage c div CPU_UNIT,
       ce_mem_usage := ce_mem_usage c div MEM_UNIT,
       ce_disk_usage := ce_disk_usage c div DISK_UNIT,
       ce_network_usage := ce_network_usage c div NETWORK_UNIT\<rparr>"

lemma ce_serialize_Inr:
  "ce_serialize c = Inr s \<longleftrightarrow> (\<exists>name. write_string (ce_process_name c) = Inr name \<and>
     s = name @ write_uint32 (ce_cpu_usage c) @ write_uint64 (ce_mem_usage c) @
         write_uint64 (ce_disk_usage c) @ write_uint64 (ce_network_usage c) @ [])"
  by (auto simp: ce_serialize_def bindR_Inr_iff)

lemma ConfigEntry_new_fields [simp]:
  "ConfigEntry_new (ce_process_name c) (ce_cpu_usage c) (ce_mem_usage c) (ce_disk_usage c)
     (ce_network_usage c) = c"
  by (simp add: ConfigEntry_new_def)

lemma parses_config_entry:
  assumes "ce_serialize c = Inr s"
  shows "parses ce_deserialize s c"
proof -
  from assms obtain name where name: "write_string (ce_process_name c) = Inr name"
    and s: "s = name @ write_uint32 (ce_cpu_usage c) @ write_uint64 (ce_mem_usage c) @
         write_uint64 (ce_disk_usage c) @ write_uint64 (ce_network_usage c) @ []"
    by (auto simp: ce_serialize_Inr)
  show ?thesis
    unfolding s ce_deserialize_def
    by (metis (no_types, lifting) parses_and_then parses_return parses_uint32 parses_uint64
        parses_string [OF name] ConfigEntry_new_fields)
qed

lemma rejects_short_config_entry:
  assumes "ce_serialize c = Inr s"
  shows "rejects_short ce_deserialize s"
proof -
  from assms obtain name where name: "write_string (ce_process_name c) = Inr name"
    and s: "s = name @ write_uint32 (ce_cpu_usage c) @ write_uint64 (ce_mem_usage c) @
         write_uint64 (ce_disk_usage c) @ write_uint64 (ce_network_usage c) @ []"
    by (auto simp: ce_serialize_Inr)
  show ?thesis
    unfolding s ce_deserialize_def
    by (intro rejects_short_and_then rejects_short_return rejects_short_uint32
        rejects_short_uint64 rejects_short_string [OF name])
       (rule parses_uint32 parses_uint64 parses_string [OF name])+
qed

interpretation config_entry_codec:
  strict_codec ce_serialize ce_deserialize "\<lambda>c. length (ce_process_name c) < 2 ^ 32"
proof unfold_locales
  fix c :: ConfigEntry
  assume "length (ce_process_name c) < 2 ^ 32"
  then show "\<exists>s. ce_serialize c = Inr s"
    by (auto simp: ce_serialize_Inr write_string_Inr)
qed (auto intro: parses_config_entry rejects_short_config_entry)

section \<open>Unit conversion\<close>

text \<open>A word times a unit is exact as long as the product fits the field.\<close>

lemma word_mult_div_exact:
  fixes w k :: "'a::len word"
  assumes "unat w * unat k < 2 ^ LENGTH('a)" and "0 < unat k"
  shows "w * k div k = w"
proof -
  have "unat (w * k) = unat w * unat k"
    using assms(1) by (simp add: unat_word_ariths)
  then have "unat (w * k div k) = unat w"
    using assms(2) by (simp add: unat_div)
  then show ?thesis by (simp add: word_unat_eq_iff)
qed

lemma word_div_mult_le:
  fixes w k :: "'a::len word"
  shows "unat (w div k * k) = unat w div unat k * unat k"
proof -
  have "unat w div unat k * unat k \<le> unat w" by (rule div_times_less_eq_dividend)
  also have "unat w < 2 ^ LENGTH('a)" by (rule unsigned_less)
  finally show ?thesis by (simp add: unat_word_ariths(2) unat_div)
qed

definition fits_units :: "ConfigEntry \<Rightarrow> bool" where
  "fits_units c \<longleftrightarrow>
     unat (ce_cpu_usage c) * 1000 < 2 ^ 32 \<and> unat (ce_mem_usage c) < 2 ^ 44 \<and>
     unat (ce_disk_usage c) < 2 ^ 54 \<and> unat (ce_network_usage c) < 2 ^ 54"

lemma convert_write_read:
  assumes "fits_units c"
  shows "convert_before_write (convert_after_read c) = c"
  using assms
  by (simp add: convert_before_write_def convert_after_read_def unit_values fits_units_def
      word_mult_div_exact)

text \<open>Writing rounds a threshold down to whole units, and never up.\<close>

definition round_down :: "ConfigEntry \<Rightarrow> ConfigEntry" where
  "round_down c = convert_after_read (convert_before_write c)"

lemma round_down_fields:
  "ce_process_name (round_down c) = ce_process_name c"
  "unat (ce_cpu_usage (round_down c)) = unat (ce_cpu_usage c) div 1000 * 1000"
  "unat (ce_mem_usage (round_down c)) = unat (ce_mem_usage c) div 1048576 * 1048576"
  "unat (ce_disk_usage (round_down c)) = unat (ce_disk_usage c) div 1024 * 1024"
  "unat (ce_network_usage (round_down c)) = unat (ce_network_usage c) div 1024 * 1024"
  by (simp_all add: round_down_def convert_before_write_def convert_after_read_def unit_values
      word_div_mult_le)

lemma round_down_converted: "fits_units c \<Longrightarrow> round_down (convert_after_read c) = convert_after_read c"
  by (simp add: round_down_def convert_write_read)

section \<open>The configuration and its file\<close>

record Config =
  config_entries :: "ConfigEntry list"

definition Config_empty :: Config where
  "Config_empty = \<lparr>config_entries = []\<rparr>"

definition config_serialize :: "Config \<Rightarrow> string result" where
  "config_serialize c = write_vector_serializeable ce_serialize (config_entries c)"

definition config_deserialize :: "u32 \<Rightarrow> Config reader" where
  "config_deserialize mem is =
     bindR (read_vector_serializeable mem ce_deserialize is) (\<lambda>(es, is').
       Inr (\<lparr>config_entries = es\<rparr>, is'))"

definition default_config :: Config where
  "default_config =
     \<lparr>config_entries = map convert_after_read
        [ConfigEntry_new ''test_prog'' 1 11 1 1,
         ConfigEntry_new ''test_prog.exe'' 1 11 1 1,
         ConfigEntry_new ''chrome.exe'' 10 200 1 500,
         ConfigEntry_new ''devenv.exe'' 50 100 10 100]\<rparr>"

text \<open>
  \<open>home\<close> is the directory \<^verbatim>\<open>getpwuid\<close> names and \<open>mkdir_ok\<close> whether \<^verbatim>\<open>create_directories\<close> returns.
  The file is truncated before the entries are printed, so a \<^verbatim>\<open>dump\<close> that throws leaves it empty.
\<close>

definition config_path :: "string \<Rightarrow> string" where
  "config_path home = home @ ''/.config/rmt'' @ ''/rmt-config.json''"

definition write_config ::
  "(ConfigEntry list \<Rightarrow> string result) \<Rightarrow> bool \<Rightarrow> string \<Rightarrow> Config \<Rightarrow> fsys \<Rightarrow> int result \<times> fsys" where
  "write_config dump mkdir_ok home c fs =
     (if \<not> mkdir_ok then (Inl Filesystem_error, fs)
      else case open_trunc fs (config_path home) of
             None \<Rightarrow> (Inr 1, fs)
           | Some fs' \<Rightarrow>
               (case dump (map convert_before_write (config_entries c)) of
                  Inl e \<Rightarrow> (Inl e, fs')
                | Inr s \<Rightarrow> (Inr 0, write_file fs' (config_path home) s)))"

definition read_config ::
  "(string \<Rightarrow> ConfigEntry list result) \<Rightarrow> string \<Rightarrow> fsys \<Rightarrow> Config \<Rightarrow> (int \<times> Config) result" where
  "read_config parse home fs c =
     (case open_in fs (config_path home) of
        None \<Rightarrow> Inr (1, c)
      | Some in' \<Rightarrow>
          bindR (parse (inbuf in')) (\<lambda>es.
            Inr (0, c\<lparr>config_entries := map convert_after_read es\<rparr>)))"

lemma write_config_ok:
  assumes "mkdir_ok" and "\<not> no_write fs (config_path home)"
    and "dump (map convert_before_write (config_entries c)) = Inr s"
  shows "write_config dump mkdir_ok home c fs =
    (Inr 0, fs\<lparr>files := (files fs)(config_path home \<mapsto> s)\<rparr>)"
  using assms by (simp add: write_config_def open_trunc_def file_simps)

text \<open>Whatever happens, no other file changes.\<close>

lemma write_config_files:
  "snd (write_config dump mkdir_ok home c fs) = fs \<or>
     (\<exists>s. snd (write_config dump mkdir_ok home c fs) = fs\<lparr>files := (files fs)(config_path home \<mapsto> s)\<rparr>)"
  by (auto simp: write_config_def open_trunc_def file_simps split: sum.split)

text \<open>The destructor writes the file too; an exception that leaves it ends the program.\<close>

definition Config_destroy ::
  "(ConfigEntry list \<Rightarrow> string result) \<Rightarrow> bool \<Rightarrow> string \<Rightarrow> Config \<Rightarrow> fsys \<Rightarrow> unit result \<times> fsys" where
  "Config_destroy dump mkdir_ok home c fs =
     (case write_config dump mkdir_ok home c fs of
        (Inl e, fs') \<Rightarrow> (Inl Terminated, fs')
      | (Inr _, fs') \<Rightarrow> (Inr (), fs'))"

lemma snd_Config_destroy: "snd (Config_destroy dump mkdir_ok home c fs) = snd (write_config dump mkdir_ok home c fs)"
  by (simp add: Config_destroy_def split: prod.split sum.split)

text \<open>The documented law of the JSON library the program relies on: what it printed it reads back.\<close>

definition json_roundtrip ::
  "(ConfigEntry list \<Rightarrow> string result) \<Rightarrow> (string \<Rightarrow> ConfigEntry list result) \<Rightarrow> bool" where
  "json_roundtrip dump parse \<longleftrightarrow> (\<forall>es s. dump es = Inr s \<longrightarrow> parse s = Inr es)"

lemma write_read_config:
  assumes "json_roundtrip dump parse"
    and w: "write_config dump mkdir_ok home c fs = (Inr 0, fs')"
    and r: "\<not> no_read fs (config_path home)"
  shows "read_config parse home fs' d = Inr (0, d\<lparr>config_entries := map round_down (config_entries c)\<rparr>)"
  using assms
  by (auto simp: write_config_def read_config_def open_in_def open_trunc_def json_roundtrip_def
      file_simps round_down_def comp_def split: if_splits option.splits sum.splits)

text \<open>
  A concrete library for the witnesses: the binary form stands for the JSON text.
\<close>

definition binary_dump :: "ConfigEntry list \<Rightarrow> string result" where
  "binary_dump es = (if length es < 2 ^ 32 then write_vector_serializeable ce_serialize es else Inl Json_error)"

definition binary_parse :: "string \<Rightarrow> ConfigEntry list result" where
  "binary_parse s = bindR (read_vector_serializeable 0 ce_deserialize (stream_of s)) (\<lambda>(es, _). Inr es)"

lemma write_items_names:
  "write_items ce_serialize es = Inr s \<Longrightarrow> list_all (\<lambda>c. length (ce_process_name c) < 2 ^ 32) es"
  by (induction es arbitrary: s) (auto simp: bindR_Inr_iff ce_serialize_Inr write_string_Inr)

lemma json_roundtrip_binary: "json_roundtrip binary_dump binary_parse"
  unfolding json_roundtrip_def
proof (intro allI impI)
  fix es s
  assume "binary_dump es = Inr s"
  then have "length es < 2 ^ 32" and w: "write_vector_serializeable ce_serialize es = Inr s"
    by (simp_all add: binary_dump_def split: if_splits)
  moreover from w have "list_all (\<lambda>c. length (ce_process_name c) < 2 ^ 32) es"
    by (auto simp: write_vector_Inr dest: write_items_names)
  ultimately have "parses (read_vector_serializeable 0 ce_deserialize) s es"
    by (intro config_entry_codec.vector_roundtrip)
  then show "binary_parse s = Inr es"
    by (simp add: binary_parse_def parsesD_all)
qed

section \<open>Properties\<close>

text \<open>
  C35. A configuration that was written is read back with every threshold rounded down to a whole
  number of its unit, and never rounded up; the names, their number and their order stay.
\<close>

theorem config_write_read:
  assumes "json_roundtrip dump parse" and "\<not> no_read fs (config_path home)"
    and "write_config dump mkdir_ok home c fs = (Inr 0, fs')"
  shows "\<exists>d. read_config parse home fs' e = Inr (0, d) \<and>
    map ce_process_name (config_entries d) = map ce_process_name (config_entries c) \<and>
    map (unat \<circ> ce_cpu_usage) (config_entries d) =
      map (\<lambda>x. unat (ce_cpu_usage x) div 1000 * 1000) (config_entries c) \<and>
    map (unat \<circ> ce_mem_usage) (config_entries d) =
      map (\<lambda>x. unat (ce_mem_usage x) div 1048576 * 1048576) (config_entries c) \<and>
    map (unat \<circ> ce_disk_usage) (config_entries d) =
      map (\<lambda>x. unat (ce_disk_usage x) div 1024 * 1024) (config_entries c) \<and>
    map (unat \<circ> ce_network_usage) (config_entries d) =
      map (\<lambda>x. unat (ce_network_usage x) div 1024 * 1024) (config_entries c)"
  using write_read_config [OF assms(1,3,2), of e] by (simp add: round_down_fields comp_def)

lemma config_write_read_witness:
  "\<exists>fs' d. write_config binary_dump True [] \<lparr>config_entries = [ConfigEntry_new ''p'' 1500 0 0 0]\<rparr> empty_fsys
      = (Inr 0, fs') \<and>
    read_config binary_parse [] fs' Config_empty = Inr (0, d) \<and>
    map (unat \<circ> ce_cpu_usage) (config_entries d) = [1000]"
proof -
  let ?c = "\<lparr>config_entries = [ConfigEntry_new ''p'' 1500 0 0 0]\<rparr>"
  have "list_all (\<lambda>c. length (ce_process_name c) < 2 ^ 32) (map convert_before_write (config_entries ?c))"
    by (simp add: ConfigEntry_new_def convert_before_write_def)
  from config_entry_codec.vector_ser_ok [OF this] obtain t where
    "binary_dump (map convert_before_write (config_entries ?c)) = Inr t"
    by (auto simp: binary_dump_def)
  then have w: "write_config binary_dump True [] ?c empty_fsys =
      (Inr 0, empty_fsys\<lparr>files := (files empty_fsys)(config_path [] \<mapsto> t)\<rparr>)"
    by (intro write_config_ok) (simp_all add: empty_fsys_def)
  have "\<not> no_read empty_fsys (config_path [])" by (simp add: empty_fsys_def)
  from config_write_read [OF json_roundtrip_binary this w, of Config_empty] w show ?thesis
    by (auto simp: ConfigEntry_new_def)
qed

end
