(* ===== verification/Log_Queue.thy ===== *)
theory Log_Queue
  imports Log_Entry Config
begin

text \<open>
  \<^verbatim>\<open>src/client/log_queue.hpp/.cpp\<close>: the client's queue of logs that the server has not
  acknowledged, with its two files: every log ever added (until a clean-up) and the last
  acknowledged id.
\<close>

record LogQueue =
  lq_log_file :: string
  lq_ack_file :: string
  lq_ack_id :: u64
  lq_log_entries :: "LogEntry list"
  lq_new_id :: u64

definition MAX_LOG_FILE_SIZE :: nat where
  "MAX_LOG_FILE_SIZE = unat (10 * MB)"

section \<open>Operations\<close>

text \<open>
  The constructor's loop over the log file. It ends at the end of the file only, so a stream that
  failed without reaching it would be read for ever: the result is then \<open>None\<close>. \<open>num\<close> and \<open>mem\<close>
  are the indeterminate contents of the locals it declares.
\<close>

partial_function (option) load_entries ::
  "u32 \<Rightarrow> LogEntry \<Rightarrow> u64 \<Rightarrow> istream \<Rightarrow> LogEntry list \<Rightarrow> LogEntry list option" where
  "load_entries num mem ack_id log_file_in acc =
     (if eofbit log_file_in then Some acc
      else case deserialize_str num (LogEntry_default mem) log_file_in of
             (ret, log_entry, is') \<Rightarrow>
               if ret \<noteq> 0 then load_entries num mem ack_id is' acc
               else if ack_id < le_id log_entry
               then load_entries num mem ack_id is' (acc @ [log_entry])
               else load_entries num mem ack_id is' acc)"

text \<open>
  The constructor. \<open>mem_ack\<close> is the indeterminate member \<^verbatim>\<open>ack_id\<close>, which an ack file without a
  number (an empty one) does not set.
\<close>

definition load_ack :: "u64 \<Rightarrow> string \<Rightarrow> fsys \<Rightarrow> u64 \<times> fsys" where
  "load_ack mem_ack ack_file fs =
     (case open_in fs ack_file of
        None \<Rightarrow>
          (case open_trunc fs ack_file of
             None \<Rightarrow> (0, fs)
           | Some fs' \<Rightarrow> (0, write_file fs' ack_file ''0''))
      | Some ack_file_in \<Rightarrow> (fst (extract_u64 mem_ack ack_file_in), fs))"

definition LogQueue_new ::
  "u64 \<Rightarrow> u32 \<Rightarrow> LogEntry \<Rightarrow> string \<Rightarrow> string \<Rightarrow> fsys \<Rightarrow> (LogQueue \<times> fsys) option" where
  "LogQueue_new mem_ack num mem log_file ack_file fs =
     (case load_ack mem_ack ack_file fs of
        (ack, fs1) \<Rightarrow>
          (case (case open_in fs1 log_file of
                   None \<Rightarrow> Some ([], case open_trunc fs1 log_file of None \<Rightarrow> fs1 | Some fs2 \<Rightarrow> fs2)
                 | Some log_file_in \<Rightarrow>
                     map_option (\<lambda>es. (es, fs1)) (load_entries num mem ack log_file_in [])) of
             None \<Rightarrow> None
           | Some (es, fs3) \<Rightarrow>
               Some (\<lparr>lq_log_file = log_file, lq_ack_file = ack_file, lq_ack_id = ack,
                      lq_log_entries = es,
                      lq_new_id = (if es \<noteq> [] then le_id (last es) + 1 else 1)\<rparr>, fs3)))"

definition clean_old_logs :: "LogQueue \<Rightarrow> fsys \<Rightarrow> fsys" where
  "clean_old_logs q fs =
     (case open_in fs (lq_log_file q) of
        None \<Rightarrow> fs
      | Some log_file_in \<Rightarrow>
          if length (inbuf log_file_in) \<le> MAX_LOG_FILE_SIZE then fs
          else
            let temp_log_file = lq_log_file q @ ''.tmp''
            in case open_trunc fs temp_log_file of
                 None \<Rightarrow> fs
               | Some fs1 \<Rightarrow>
                   let kept = filter (\<lambda>e. lq_ack_id q < le_id e) (lq_log_entries q);
                       fs2 = write_file fs1 temp_log_file (concat (map serialize_str kept))
                   in snd (rename_file fs2 temp_log_file (lq_log_file q)))"

definition write_ack :: "LogQueue \<Rightarrow> fsys \<Rightarrow> fsys" where
  "write_ack q fs =
     (case open_trunc fs (lq_ack_file q) of
        None \<Rightarrow> fs
      | Some fs' \<Rightarrow> write_file fs' (lq_ack_file q) (show_nat (unat (lq_ack_id q))))"

definition LogQueue_destroy :: "LogQueue \<Rightarrow> fsys \<Rightarrow> fsys" where
  "LogQueue_destroy q fs = write_ack q (clean_old_logs q fs)"

definition add_log :: "LogEntry \<Rightarrow> LogQueue \<Rightarrow> fsys \<Rightarrow> LogQueue \<times> fsys" where
  "add_log log_entry q fs =
     (q\<lparr>lq_log_entries := lq_log_entries q @ [log_entry]\<rparr>,
      case open_app fs (lq_log_file q) of
        None \<Rightarrow> fs
      | Some fs' \<Rightarrow> write_file fs' (lq_log_file q) (serialize_str log_entry))"

definition get_batch_log :: "u32 \<Rightarrow> LogQueue \<Rightarrow> LogEntry list" where
  "get_batch_log batch_size q =
     (if lq_log_entries q = [] then []
      else let batch_size = min batch_size (of_nat (length (lq_log_entries q)))
           in map (\<lambda>i. lq_log_entries q ! i) [0..<unat batch_size])"

fun pop_acked :: "u64 \<Rightarrow> LogEntry list \<Rightarrow> LogEntry list" where
  "pop_acked ack_id [] = []"
| "pop_acked ack_id (e # es) = (if le_id e \<le> ack_id then pop_acked ack_id es else e # es)"

definition ack_log :: "u64 \<Rightarrow> LogQueue \<Rightarrow> fsys \<Rightarrow> LogQueue \<times> fsys" where
  "ack_log i q fs =
     (if i = lq_ack_id q then (q, fs)
      else let q' = q\<lparr>lq_ack_id := i, lq_log_entries := pop_acked i (lq_log_entries q)\<rparr>
           in (q', write_ack q' fs))"

definition get_new_id :: "LogQueue \<Rightarrow> u64 \<times> LogQueue" where
  "get_new_id q = (lq_new_id q, q\<lparr>lq_new_id := lq_new_id q + 1\<rparr>)"

section \<open>The constructor returns\<close>

lemma deserialize_str_progress:
  assumes "good s" and "deserialize_str num this s = (ret, e, s')"
  shows "(good s' \<and> length (inbuf s') < length (inbuf s)) \<or> eofbit s'"
proof -
  have s': "s' = snd (getline newline [] s)"
    using assms(2) by (auto simp: deserialize_str_def Let_def split: prod.splits if_splits)
  show ?thesis
    using assms(1) length_dropWhile_tl_less [of newline "inbuf s"]
    by (auto simp: s' getline_def good_def)
qed

lemma load_entries_returns:
  "good s \<or> eofbit s \<Longrightarrow> \<exists>es. load_entries num mem ack s acc = Some es"
proof (induction "length (inbuf s)" arbitrary: s acc rule: less_induct)
  case less
  show ?case
  proof (cases "eofbit s")
    case True
    then show ?thesis by (simp add: load_entries.simps)
  next
    case False
    with less.prems have g: "good s" by simp
    obtain ret e s' where d: "deserialize_str num (LogEntry_default mem) s = (ret, e, s')"
      by (cases "deserialize_str num (LogEntry_default mem) s")
    have "\<exists>es. load_entries num mem ack s' acc' = Some es" for acc'
      using deserialize_str_progress [OF g d] less.hyps [of s']
      by (cases "eofbit s'") (auto simp: load_entries.simps [of _ _ _ s'])
    with False d show ?thesis by (simp add: load_entries.simps [of _ _ _ s])
  qed
qed

lemma open_in_good: "open_in fs p = Some s \<Longrightarrow> good s"
  by (auto simp: open_in_def split: if_splits)

lemma LogQueue_new_returns: "\<exists>q fs'. LogQueue_new mem_ack num mem lf af fs = Some (q, fs')"
proof -
  obtain ack fs1 where a: "load_ack mem_ack af fs = (ack, fs1)"
    by (cases "load_ack mem_ack af fs")
  show ?thesis
  proof (cases "open_in fs1 lf")
    case None
    with a show ?thesis by (simp add: LogQueue_new_def)
  next
    case (Some s)
    then obtain es where "load_entries num mem ack s [] = Some es"
      using load_entries_returns [of s] open_in_good by blast
    with a Some show ?thesis by (simp add: LogQueue_new_def)
  qed
qed

section \<open>What the constructor reads\<close>

lemma load_entries_eof: "eofbit s \<Longrightarrow> load_entries num mem ack s acc = Some acc"
  by (simp add: load_entries.simps)

lemma deserialize_str_at_end:
  "deserialize_str num this (stream_of []) =
     (1, this, \<lparr>inbuf = [], eofbit = True, failbit = True\<rparr>)"
  by (simp add: deserialize_str_def getline_last)

lemma load_entries_text:
  "list_all storable es \<Longrightarrow>
     load_entries num mem ack (stream_of (concat (map serialize_str es))) acc =
       Some (acc @ filter (\<lambda>e. ack < le_id e) es)"
proof (induction es arbitrary: acc)
  case Nil
  then show ?case
    by (simp add: load_entries.simps [of _ _ _ "stream_of []"] deserialize_str_at_end load_entries_eof)
next
  case (Cons e es)
  then show ?case
    using deserialize_serialize_str [of e num "LogEntry_default mem" "concat (map serialize_str es)"]
    by (simp add: load_entries.simps [of _ _ _ "stream_of (serialize_str e @ _)"])
qed

lemma pop_acked_dropWhile: "pop_acked a es = dropWhile (\<lambda>e. le_id e \<le> a) es"
  by (induction es) auto

text \<open>A batch is a prefix of the queue; the cast of the size to 32 bits can make it shorter.\<close>

lemma get_batch_log_prefix:
  "get_batch_log n q =
     take (min (unat n) (length (lq_log_entries q) mod 2 ^ 32)) (lq_log_entries q)"
proof -
  have u: "unat (min n (of_nat (length (lq_log_entries q))))
      = min (unat n) (length (lq_log_entries q) mod 2 ^ 32)"
    by (simp add: min_def word_le_nat_alt unsigned_of_nat take_bit_eq_mod)
  have "length (lq_log_entries q) mod 2 ^ 32 \<le> length (lq_log_entries q)"
    by (rule mod_less_eq_dividend)
  then show ?thesis
    by (auto simp: get_batch_log_def Let_def u intro!: nth_equalityI)
qed

lemma get_batch_log_take:
  "length (lq_log_entries q) < 2 ^ 32 \<Longrightarrow> get_batch_log n q = take (unat n) (lq_log_entries q)"
  by (simp add: get_batch_log_prefix min_def)

section \<open>The ids in the queue\<close>

text \<open>What \<^verbatim>\<open>generate_log\<close> does for one finding: take a new id, add the entry that carries it.\<close>

definition log_event :: "string \<Rightarrow> u64 \<Rightarrow> LogType \<Rightarrow> u64 \<Rightarrow> LogQueue \<Rightarrow> fsys \<Rightarrow> LogQueue \<times> fsys" where
  "log_event name now_ms ty v q fs =
     (case get_new_id q of (i, q') \<Rightarrow> add_log (LogEntry_new i name now_ms ty v) q' fs)"

text \<open>
  The queue holds the last ids handed out, in order and without gaps, and all of them are newer
  than the acknowledged id.
\<close>

definition queue_ok :: "LogQueue \<Rightarrow> bool" where
  "queue_ok q \<longleftrightarrow>
     (let n = unat (lq_new_id q); len = length (lq_log_entries q)
      in ids (lq_log_entries q) = [n - len..<n] \<and> unat (lq_ack_id q) + len < n)"

lemma unat_Suc_u64: "unat w + 1 < 2 ^ 64 \<Longrightarrow> unat (w + 1 :: u64) = unat w + 1"
  by (simp add: unat_word_ariths)

lemma log_event_fields:
  "fst (log_event name now ty v q fs) =
     q\<lparr>lq_new_id := lq_new_id q + 1,
       lq_log_entries := lq_log_entries q @ [LogEntry_new (lq_new_id q) name now ty v]\<rparr>"
  by (simp add: log_event_def get_new_id_def add_log_def)

lemma queue_ok_log_event:
  assumes "queue_ok q" and "unat (lq_new_id q) + 1 < 2 ^ 64"
  shows "queue_ok (fst (log_event name now ty v q fs))"
proof -
  have len: "length (lq_log_entries q) < unat (lq_new_id q)"
    using assms(1) by (simp add: queue_ok_def Let_def)
  then have "[unat (lq_new_id q) - length (lq_log_entries q)..<unat (lq_new_id q) + 1]
      = [unat (lq_new_id q) - length (lq_log_entries q)..<unat (lq_new_id q)] @ [unat (lq_new_id q)]"
    by simp
  with assms len show ?thesis
    by (simp add: queue_ok_def Let_def log_event_fields unat_Suc_u64 LogEntry_new_def)
qed

lemma ids_pop_acked:
  "ids es = [a..<n] \<Longrightarrow>
     ids (pop_acked i es) = [max a (min (unat i + 1) n)..<n] \<and>
     es = take (length es - length (pop_acked i es)) es @ pop_acked i es \<and>
     (\<forall>e \<in> set (take (length es - length (pop_acked i es)) es). le_id e \<le> i)"
proof (induction es arbitrary: a)
  case Nil
  then have "n \<le> a" by (metis ids_simps(1) upt_eq_Nil_conv not_le order_less_imp_le le_zero_eq)
  then show ?case by (simp add: max_def min_def)
next
  case (Cons e es)
  from Cons.prems have "a < n" and e: "unat (le_id e) = a" and es: "ids es = [a + 1..<n]"
    using upt_eq_Cons_conv [of a n "unat (le_id e)" "ids es"] by auto
  show ?case
  proof (cases "le_id e \<le> i")
    case True
    then have "a \<le> unat i" using e by (simp add: word_le_nat_alt)
    have len: "length (pop_acked i es) \<le> length es"
      by (simp add: pop_acked_dropWhile length_dropWhile_le)
    then have "Suc (length es) - length (pop_acked i es) = Suc (length es - length (pop_acked i es))"
      by simp
    moreover have "max (a + 1) (min (unat i + 1) n) = max a (min (unat i + 1) n)"
      using \<open>a \<le> unat i\<close> \<open>a < n\<close> by (simp add: max_def min_def)
    ultimately show ?thesis using Cons.IH [OF es] True by simp
  next
    case False
    then have "unat i < a" using e by (simp add: word_le_nat_alt)
    then have "max a (min (unat i + 1) n) = a" using \<open>a < n\<close> by (simp add: max_def min_def)
    with False Cons.prems show ?thesis by simp
  qed
qed

text \<open>The server has authority over the acknowledged id, which may go back; ids stay in order.\<close>

lemma queue_ok_ack_log:
  assumes "queue_ok q" and "unat i < unat (lq_new_id q)"
  shows "queue_ok (fst (ack_log i q fs))"
proof -
  let ?n = "unat (lq_new_id q)" and ?es = "lq_log_entries q"
  have q: "ids ?es = [?n - length ?es..<?n]" "unat (lq_ack_id q) + length ?es < ?n"
    using assms(1) by (simp_all add: queue_ok_def Let_def)
  note pop = ids_pop_acked [OF q(1), of i]
  then have "length (pop_acked i ?es) = ?n - max (?n - length ?es) (min (unat i + 1) ?n)"
    by (metis ids_simps(4) length_upt)
  with pop assms q show ?thesis
    by (auto simp: ack_log_def queue_ok_def Let_def max_def min_def)
qed

section \<open>Durability\<close>

text \<open>
  The files hold the queue: the log file lists some acknowledged entries and then the queue, the
  ack file the acknowledged id, and both can be read and written.
\<close>

definition persisted_behind :: "LogEntry list \<Rightarrow> LogQueue \<Rightarrow> fsys \<Rightarrow> bool" where
  "persisted_behind old q fs \<longleftrightarrow>
     files fs (lq_log_file q) = Some (concat (map serialize_str (old @ lq_log_entries q))) \<and>
     list_all storable (old @ lq_log_entries q) \<and>
     (\<forall>e \<in> set old. le_id e \<le> lq_ack_id q) \<and>
     files fs (lq_ack_file q) = Some (show_nat (unat (lq_ack_id q))) \<and>
     \<not> no_read fs (lq_log_file q) \<and> \<not> no_write fs (lq_log_file q) \<and>
     \<not> no_read fs (lq_ack_file q) \<and> \<not> no_write fs (lq_ack_file q) \<and>
     lq_ack_file q \<noteq> lq_log_file q \<and> lq_ack_file q \<noteq> lq_log_file q @ ''.tmp''"

definition persisted :: "LogQueue \<Rightarrow> fsys \<Rightarrow> bool" where
  "persisted q fs \<longleftrightarrow> (\<exists>old. persisted_behind old q fs)"

lemma queue_ids_above_ack:
  assumes "queue_ok q" and "e \<in> set (lq_log_entries q)"
  shows "lq_ack_id q < le_id e"
proof -
  let ?n = "unat (lq_new_id q)" and ?len = "length (lq_log_entries q)"
  have "unat (le_id e) \<in> set (ids (lq_log_entries q))" using assms(2) by (simp add: ids_def)
  moreover have q: "ids (lq_log_entries q) = [?n - ?len..<?n]" "unat (lq_ack_id q) + ?len < ?n"
    using assms(1) by (simp_all add: queue_ok_def Let_def)
  ultimately have "?n - ?len \<le> unat (le_id e)" by simp
  with q(2) show ?thesis by (simp add: word_less_nat_alt)
qed

lemma persisted_log_event:
  assumes "persisted q fs" and "bar \<notin> set name" and "newline \<notin> set name" and "proper_type ty"
  shows "persisted (fst (log_event name now ty v q fs)) (snd (log_event name now ty v q fs))"
proof -
  let ?e = "LogEntry_new (lq_new_id q) name now ty v"
  have "storable ?e" using assms(2-4) by (simp add: storable_def LogEntry_new_def)
  moreover from assms(1) obtain old where "persisted_behind old q fs" by (auto simp: persisted_def)
  ultimately have "persisted_behind old (fst (log_event name now ty v q fs))
      (snd (log_event name now ty v q fs))"
    by (simp add: persisted_behind_def log_event_def get_new_id_def add_log_def open_app_def
        file_simps)
  then show ?thesis by (auto simp: persisted_def)
qed

lemma persisted_ack_log:
  assumes "persisted q fs" and "queue_ok q" and "lq_ack_id q \<le> i"
  shows "persisted (fst (ack_log i q fs)) (snd (ack_log i q fs))"
proof (cases "i = lq_ack_id q")
  case True
  with assms(1) show ?thesis by (simp add: ack_log_def)
next
  case False
  let ?es = "lq_log_entries q"
  have "ids ?es = [unat (lq_new_id q) - length ?es..<unat (lq_new_id q)]"
    using assms(2) by (simp add: queue_ok_def Let_def)
  from ids_pop_acked [OF this, of i] obtain popped where
    es: "?es = popped @ pop_acked i ?es" and p: "\<forall>e \<in> set popped. le_id e \<le> i" by blast
  from assms(1) obtain old where old: "persisted_behind old q fs" by (auto simp: persisted_def)
  then have "\<forall>e \<in> set (old @ popped). le_id e \<le> i"
    using p assms(3) by (auto simp: persisted_behind_def intro: order_trans)
  moreover have "(old @ popped) @ pop_acked i ?es = old @ ?es"
    using es by simp
  ultimately have "persisted_behind (old @ popped) (fst (ack_log i q fs)) (snd (ack_log i q fs))"
    using old False
    unfolding persisted_behind_def ack_log_def write_ack_def Let_def open_trunc_def
    by (auto simp: file_simps simp del: map_append append_assoc)
  then show ?thesis by (auto simp: persisted_def)
qed

lemma clean_old_logs_cases:
  assumes "files fs (lq_log_file q) = Some t" and "\<not> no_write fs (lq_log_file q)"
  shows "clean_old_logs q fs = fs \<or>
    clean_old_logs q fs = fs\<lparr>files := (files fs)(lq_log_file q @ ''.tmp'' := None,
      lq_log_file q \<mapsto>
        concat (map serialize_str (filter (\<lambda>e. lq_ack_id q < le_id e) (lq_log_entries q))))\<rparr>"
  using assms by (simp add: clean_old_logs_def open_in_def open_trunc_def Let_def rename_file_def
      write_file_def)

lemma persisted_clean_old_logs:
  assumes "persisted q fs" and "queue_ok q"
  shows "persisted q (clean_old_logs q fs)"
proof -
  have kept: "filter (\<lambda>e. lq_ack_id q < le_id e) (lq_log_entries q) = lq_log_entries q"
    using queue_ids_above_ack [OF assms(2)] by (simp add: filter_id_conv)
  from assms(1) obtain old where old: "persisted_behind old q fs" by (auto simp: persisted_def)
  have "clean_old_logs q fs = fs \<or> persisted_behind [] q (clean_old_logs q fs)"
    using old
    by (auto simp: persisted_behind_def clean_old_logs_def open_in_def open_trunc_def Let_def kept
        rename_file_def file_simps)
  with assms(1) show ?thesis by (auto simp: persisted_def)
qed

lemma persisted_destroy:
  assumes "persisted q fs" and "queue_ok q"
  shows "persisted q (LogQueue_destroy q fs)"
proof -
  from persisted_clean_old_logs [OF assms] obtain old where
    "persisted_behind old q (clean_old_logs q fs)" by (auto simp: persisted_def)
  then have "persisted_behind old q (LogQueue_destroy q fs)"
    by (auto simp: LogQueue_destroy_def write_ack_def open_trunc_def file_simps persisted_behind_def)
  then show ?thesis by (auto simp: persisted_def)
qed

text \<open>Opening the files again.\<close>

lemma last_id:
  assumes "queue_ok q" and "lq_log_entries q \<noteq> []"
  shows "le_id (last (lq_log_entries q)) + 1 = lq_new_id q"
proof -
  have "unat (le_id (last (lq_log_entries q))) = last (ids (lq_log_entries q))"
    using assms(2) by (simp add: ids_def last_map)
  also have "\<dots> = unat (lq_new_id q) - 1"
    using assms by (cases "lq_log_entries q") (auto simp: queue_ok_def Let_def simp del: ids_simps(2))
  finally have "Suc (unat (le_id (last (lq_log_entries q)))) = unat (lq_new_id q)"
    using assms(1) by (simp add: queue_ok_def Let_def)
  then have "of_nat (Suc (unat (le_id (last (lq_log_entries q))))) = lq_new_id q" by simp
  then show ?thesis by (simp add: add.commute)
qed

lemma reopen:
  assumes "persisted q fs" and "queue_ok q"
  shows "LogQueue_new mem_ack num mem (lq_log_file q) (lq_ack_file q) fs =
     Some (q\<lparr>lq_new_id := (if lq_log_entries q = [] then 1 else lq_new_id q)\<rparr>, fs)"
proof -
  from assms(1) obtain old where old: "persisted_behind old q fs" by (auto simp: persisted_def)
  then have st: "list_all storable (old @ lq_log_entries q)"
    and acked: "\<forall>e \<in> set old. le_id e \<le> lq_ack_id q"
    by (simp_all add: persisted_behind_def)
  have "filter (\<lambda>e. lq_ack_id q < le_id e) old = []"
    using acked by (simp add: filter_empty_conv not_less)
  moreover have "filter (\<lambda>e. lq_ack_id q < le_id e) (lq_log_entries q) = lq_log_entries q"
    using queue_ids_above_ack [OF assms(2)] by (simp add: filter_id_conv)
  ultimately have load: "load_entries num mem (lq_ack_id q)
      (stream_of (concat (map serialize_str (old @ lq_log_entries q)))) [] = Some (lq_log_entries q)"
    using load_entries_text [OF st, of num mem "lq_ack_id q" "[]"] by simp
  have "load_ack mem_ack (lq_ack_file q) fs = (lq_ack_id q, fs)"
    using old by (simp add: load_ack_def open_in_def persisted_behind_def)
  with load old last_id [OF assms(2)] show ?thesis
    by (simp add: LogQueue_new_def open_in_def persisted_behind_def del: map_append concat_append)
qed

text \<open>The clean-up and the destructor touch the queue's own files only.\<close>

lemma destroy_perms:
  "no_read (LogQueue_destroy q fs) = no_read fs" "no_write (LogQueue_destroy q fs) = no_write fs"
  by (auto simp: LogQueue_destroy_def clean_old_logs_def write_ack_def open_trunc_def Let_def
      rename_file_def write_file_def split: option.splits)

lemma destroy_new_id:
  "LogQueue_destroy (q\<lparr>lq_new_id := i\<rparr>) fs = LogQueue_destroy q fs"
  "persisted (q\<lparr>lq_new_id := i\<rparr>) fs = persisted q fs"
  by (simp_all add: LogQueue_destroy_def clean_old_logs_def write_ack_def persisted_def
      persisted_behind_def Let_def cong: option.case_cong if_cong)

lemma persisted_other_file:
  assumes "persisted q fs" and "g \<noteq> lq_log_file q" and "g \<noteq> lq_ack_file q"
  shows "persisted q (fs\<lparr>files := (files fs)(g \<mapsto> s)\<rparr>)"
  using assms by (simp add: persisted_def persisted_behind_def)

end
