(* ===== verification/Process_Stat.thy ===== *)
theory Process_Stat
  imports Prelude
begin

text \<open>
  \<^verbatim>\<open>src/client/process_stat.hpp\<close> and \<^verbatim>\<open>process_listing.hpp/.cpp\<close>: what the client knows of a
  process. A default-constructed object is the \<open>_default\<close> of its type.
\<close>

section \<open>Usage\<close>

record CpuStat =
  cpu_usage :: u64
  cpu_idle :: u64

record DiskStat =
  disk_read :: "u64 option"
  disk_write :: "u64 option"

record NetworkStat =
  network_recv :: "u64 option"
  network_send :: "u64 option"

record ProcessStat =
  cpu_usage_percent :: u32
  mem_usage :: u64
  disk_usage :: DiskStat
  network_usage :: NetworkStat

definition CpuStat_default :: CpuStat where
  "CpuStat_default = \<lparr>cpu_usage = 0, cpu_idle = 0\<rparr>"

definition DiskStat_default :: DiskStat where
  "DiskStat_default = \<lparr>disk_read = None, disk_write = None\<rparr>"

definition NetworkStat_default :: NetworkStat where
  "NetworkStat_default = \<lparr>network_recv = None, network_send = None\<rparr>"

definition ProcessStat_default :: ProcessStat where
  "ProcessStat_default =
     \<lparr>cpu_usage_percent = 0, mem_usage = 0, disk_usage = DiskStat_default,
      network_usage = NetworkStat_default\<rparr>"

text \<open>\<^verbatim>\<open>optional::value_or\<close>.\<close>

definition value_or :: "'a option \<Rightarrow> 'a \<Rightarrow> 'a" where
  "value_or x d = (case x of None \<Rightarrow> d | Some v \<Rightarrow> v)"

lemma value_or_simps [simp]: "value_or None d = d" "value_or (Some v) d = v"
  by (simp_all add: value_or_def)

text \<open>The sums the log thresholds and the sorted views use; they wrap.\<close>

definition disk_total :: "ProcessStat \<Rightarrow> u64" where
  "disk_total stat = value_or (disk_read (disk_usage stat)) 0 + value_or (disk_write (disk_usage stat)) 0"

definition network_total :: "ProcessStat \<Rightarrow> u64" where
  "network_total stat =
     value_or (network_recv (network_usage stat)) 0 + value_or (network_send (network_usage stat)) 0"

text \<open>\<^verbatim>\<open>map[name]\<close> of a map from program names: a default entry appears when there is none.\<close>

definition stat_of :: "(string \<rightharpoonup> ProcessStat) \<Rightarrow> string \<Rightarrow> ProcessStat" where
  "stat_of m name = (case m name of None \<Rightarrow> ProcessStat_default | Some stat \<Rightarrow> stat)"

section \<open>Processes\<close>

record ProcessListing =
  pl_pid :: u32
  pl_process_name :: string
  pl_args :: "string list"

definition ProcessListing_new :: "u32 \<Rightarrow> string \<Rightarrow> string list \<Rightarrow> ProcessListing" where
  "ProcessListing_new n_pid n_process_name n_args =
     \<lparr>pl_pid = n_pid, pl_process_name = n_process_name, pl_args = n_args\<rparr>"

text \<open>The default constructor leaves the number as the memory was.\<close>

definition ProcessListing_default :: "u32 \<Rightarrow> ProcessListing" where
  "ProcessListing_default mem = \<lparr>pl_pid = mem, pl_process_name = [], pl_args = []\<rparr>"

fun args_loop :: "string list \<Rightarrow> nat \<Rightarrow> nat \<Rightarrow> string \<Rightarrow> string" where
  "args_loop args 0 i res = res"
| "args_loop args (Suc todo) i res =
     (let res = res @ args ! i;
          res = (if i + 1 < length args then res @ '' '' else res)
      in args_loop args todo (i + 1) res)"

definition get_args_as_string :: "ProcessListing \<Rightarrow> string" where
  "get_args_as_string p = args_loop (pl_args p) (length (pl_args p)) 0 []"

text \<open>The arguments with single spaces between them.\<close>

fun join_spaces :: "string list \<Rightarrow> string" where
  "join_spaces [] = []"
| "join_spaces [a] = a"
| "join_spaces (a # b # as) = a @ '' '' @ join_spaces (b # as)"

lemma args_loop_join:
  "i + todo = length args \<Longrightarrow> args_loop args todo i res = res @ join_spaces (drop i args)"
proof (induction todo arbitrary: i res)
  case 0
  then show ?case by simp
next
  case (Suc todo)
  have d: "drop i args = args ! i # drop (i + 1) args"
    using Suc.prems by (simp add: Cons_nth_drop_Suc)
  show ?case
  proof (cases "drop (i + 1) args")
    case Nil
    then have "length args \<le> i + 1" by simp
    then show ?thesis using Suc.IH [of "i + 1"] Suc.prems d Nil by (simp add: Let_def)
  next
    case (Cons a as)
    then have "i + 1 < length args" by (metis drop_all list.distinct(1) not_le)
    then show ?thesis using Suc.IH [of "i + 1"] Suc.prems d Cons by (simp add: Let_def)
  qed
qed

lemma get_args_as_string_join: "get_args_as_string p = join_spaces (pl_args p)"
  by (simp add: get_args_as_string_def args_loop_join)

end
