(* ===== verification/Wire.thy ===== *)
theory Wire
  imports Log_Entry
begin

text \<open>
  The payloads the two sides exchange: the batch of logs of \<^verbatim>\<open>client_main\<close>'s loop
  (\<^verbatim>\<open>src/client/client.cpp\<close>) and the acknowledgement of \<^verbatim>\<open>ClientHandler\<close>
  (\<^verbatim>\<open>src/server/client_handler.cpp\<close>), with the reader of the latter in \<^verbatim>\<open>ClientLogger\<close>.
\<close>

text \<open>What a client puts on the wire for a batch: the word \<^verbatim>\<open>log\<close> and the entries.\<close>

definition log_payload :: "LogEntry list \<Rightarrow> string result" where
  "log_payload es =
     bindR (write_string ''log'') (\<lambda>a.
       bindR (write_vector_serializeable serialize es) (\<lambda>b. Inr (a @ b)))"

lemma read_log_payload:
  assumes "log_payload es = Inr p" and "list_all sendable es" and "length es < 2 ^ 32"
  shows "\<exists>iss iss'. read_string (stream_of p) = Inr (''log'', iss) \<and>
    read_vector_serializeable mem deserialize iss = Inr (es, iss')"
proof -
  from assms(1) obtain a b where a: "write_string ''log'' = Inr a"
    and b: "write_vector_serializeable serialize es = Inr b" and p: "p = a @ b"
    by (auto simp: log_payload_def bindR_Inr_iff)
  have "read_string (stream_of p) = Inr (''log'', stream_of b)"
    using parsesD [OF parses_string [OF a]] by (simp add: p)
  moreover have "read_vector_serializeable mem deserialize (stream_of b) = Inr (es, stream_of [])"
    using parsesD_all [OF log_codec.vector_roundtrip [OF assms(2,3) b]] .
  ultimately show ?thesis by blast
qed

section \<open>Acknowledgements\<close>

definition ack_payload :: "u64 \<Rightarrow> string result" where
  "ack_payload i = write_string (''ack '' @ show_nat (unat i))"

lemma ack_payload_Inr: "\<exists>p. ack_payload i = Inr p"
proof -
  have "length (''ack '' @ show_nat (unat i)) < 2 ^ 32"
    using length_show_u64 [of i] by simp
  then show ?thesis unfolding ack_payload_def write_string_Inr by blast
qed

text \<open>What \<^verbatim>\<open>ClientLogger\<close> makes of a message; \<open>mem\<close> is its uninitialised local.\<close>

definition parse_ack :: "u64 \<Rightarrow> string \<Rightarrow> u64 option" where
  "parse_ack mem message =
     (if starts_with message ''ack '' then
        let id_str = drop (length ''ack '') message in Some (from_chars id_str mem)
      else None)"

lemma read_ack_payload:
  assumes "ack_payload i = Inr p"
  shows "read_string (stream_of p) = Inr (''ack '' @ show_nat (unat i), stream_of [])"
    and "parse_ack mem (''ack '' @ show_nat (unat i)) = Some i"
  using parsesD_all [OF parses_string] assms
  by (simp_all add: ack_payload_def parse_ack_def starts_with_def)

end
