(* ===== verification/Client_Logger.thy ===== *)
theory Client_Logger
  imports Log_Queue Config Process_Stat Wire
begin

text \<open>
  \<^verbatim>\<open>src/client/client_logger.hpp/.cpp\<close>: the thresholds turned into log entries, and the
  acknowledgements of the server handed to the queue. The subscription to the event bus is
  in \<open>Client\<close>, with the other subscribers.
\<close>

record ClientLogger =
  cl_config :: Config
  cl_log_queue :: LogQueue

section \<open>Acknowledgements\<close>

text \<open>
  The subscriber's reaction to a payload. \<open>mem\<close> is its uninitialised local \<^verbatim>\<open>id\<close>; the exception of
  a payload that holds no string leaves it.
\<close>

definition logger_recv :: "u64 \<Rightarrow> string \<Rightarrow> ClientLogger \<Rightarrow> fsys \<Rightarrow> unit result \<times> ClientLogger \<times> fsys" where
  "logger_recv mem payload l fs =
     (case read_string (stream_of payload) of
        Inl e \<Rightarrow> (Inl e, l, fs)
      | Inr (message, _) \<Rightarrow>
          (case parse_ack mem message of
             None \<Rightarrow> (Inr (), l, fs)
           | Some i \<Rightarrow>
               (case ack_log i (cl_log_queue l) fs of
                  (q, fs') \<Rightarrow> (Inr (), l\<lparr>cl_log_queue := q\<rparr>, fs'))))"

section \<open>Thresholds\<close>

definition generate_log_entry ::
  "(string \<rightharpoonup> ProcessStat) \<Rightarrow> u64 \<Rightarrow> ConfigEntry \<Rightarrow> LogQueue \<times> fsys \<Rightarrow> LogQueue \<times> fsys" where
  "generate_log_entry m now_ms config_entry st =
     (let name = ce_process_name config_entry;
          stat = stat_of m name;
          st = (if ce_cpu_usage config_entry < cpu_usage_percent stat
                then case st of (q, fs) \<Rightarrow> log_event name now_ms CPU (ucast (cpu_usage_percent stat)) q fs
                else st);
          st = (if ce_mem_usage config_entry < mem_usage stat
                then case st of (q, fs) \<Rightarrow> log_event name now_ms MEM (mem_usage stat) q fs
                else st);
          st = (if ce_disk_usage config_entry < disk_total stat
                then case st of (q, fs) \<Rightarrow> log_event name now_ms DISK (disk_total stat) q fs
                else st)
      in if ce_network_usage config_entry < network_total stat
         then case st of (q, fs) \<Rightarrow> log_event name now_ms NET (network_total stat) q fs
         else st)"

fun generate_log_loop ::
  "(string \<rightharpoonup> ProcessStat) \<Rightarrow> u64 \<Rightarrow> ConfigEntry list \<Rightarrow> LogQueue \<times> fsys \<Rightarrow> LogQueue \<times> fsys" where
  "generate_log_loop m now_ms [] st = st"
| "generate_log_loop m now_ms (c # cs) st =
     generate_log_loop m now_ms cs (generate_log_entry m now_ms c st)"

text \<open>\<open>m\<close> is the result of \<^verbatim>\<open>get_map_program_name_resource\<close>, \<open>now_ms\<close> that of the clock.\<close>

definition generate_log ::
  "(string \<rightharpoonup> ProcessStat) \<Rightarrow> u64 \<Rightarrow> ClientLogger \<Rightarrow> fsys \<Rightarrow> ClientLogger \<times> fsys" where
  "generate_log m now_ms l fs =
     (case generate_log_loop m now_ms (config_entries (cl_config l)) (cl_log_queue l, fs) of
        (q, fs') \<Rightarrow> (l\<lparr>cl_log_queue := q\<rparr>, fs'))"

definition logger_get_batch_log :: "u32 \<Rightarrow> ClientLogger \<Rightarrow> LogEntry list" where
  "logger_get_batch_log batch_size l = get_batch_log batch_size (cl_log_queue l)"

definition set_config ::
  "(ConfigEntry list \<Rightarrow> string result) \<Rightarrow> bool \<Rightarrow> string \<Rightarrow> Config \<Rightarrow> ClientLogger \<Rightarrow> fsys \<Rightarrow>
     unit result \<times> ClientLogger \<times> fsys" where
  "set_config dump mkdir_ok home n_config l fs =
     (let l' = l\<lparr>cl_config := n_config\<rparr>
      in case write_config dump mkdir_ok home (cl_config l') fs of
           (Inl e, fs') \<Rightarrow> (Inl e, l', fs')
         | (Inr _, fs') \<Rightarrow> (Inr (), l', fs'))"

section \<open>What is logged\<close>

text \<open>The findings of one round: for each configured program, what exceeds its threshold.\<close>

definition entry_findings :: "(string \<rightharpoonup> ProcessStat) \<Rightarrow> ConfigEntry \<Rightarrow> (string \<times> LogType \<times> u64) list" where
  "entry_findings m c =
     (let stat = stat_of m (ce_process_name c)
      in map (\<lambda>(limit, ty, v). (ce_process_name c, ty, v))
           (filter (\<lambda>(limit, ty, v). limit < v)
             [(ucast (ce_cpu_usage c), CPU, ucast (cpu_usage_percent stat)),
              (ce_mem_usage c, MEM, mem_usage stat),
              (ce_disk_usage c, DISK, disk_total stat),
              (ce_network_usage c, NET, network_total stat)]))"

definition findings :: "(string \<rightharpoonup> ProcessStat) \<Rightarrow> ConfigEntry list \<Rightarrow> (string \<times> LogType \<times> u64) list" where
  "findings m cs = concat (map (entry_findings m) cs)"

fun log_events :: "u64 \<Rightarrow> (string \<times> LogType \<times> u64) list \<Rightarrow> LogQueue \<times> fsys \<Rightarrow> LogQueue \<times> fsys" where
  "log_events now [] st = st"
| "log_events now ((name, ty, v) # fs) st = log_events now fs (log_event name now ty v (fst st) (snd st))"

lemma log_events_append: "log_events now (xs @ ys) st = log_events now ys (log_events now xs st)"
  by (induction now xs st rule: log_events.induct) auto

lemma ucast_less_u32: "ucast (a :: u32) < (ucast b :: u64) \<longleftrightarrow> a < b"
  by (simp add: word_less_nat_alt unsigned_ucast_eq take_bit_nat_eq_self
      order.strict_trans [OF unsigned_less])

lemma generate_log_entry_findings:
  "generate_log_entry m now c st = log_events now (entry_findings m c) st"
  by (cases st) (simp add: generate_log_entry_def entry_findings_def Let_def ucast_less_u32
      case_prod_beta)

lemma generate_log_loop_findings:
  "generate_log_loop m now cs st = log_events now (findings m cs) st"
  by (induction cs arbitrary: st)
     (simp_all add: findings_def generate_log_entry_findings log_events_append)

text \<open>The findings numbered from \<open>i\<close> on.\<close>

fun number :: "u64 \<Rightarrow> u64 \<Rightarrow> (string \<times> LogType \<times> u64) list \<Rightarrow> LogEntry list" where
  "number i now [] = []"
| "number i now ((name, ty, v) # fs) = LogEntry_new i name now ty v # number (i + 1) now fs"

lemma length_number [simp]: "length (number i now fs) = length fs"
  by (induction i now fs rule: number.induct) auto

lemma log_events_fields:
  "fst (log_events now fs st) =
     (fst st)\<lparr>lq_new_id := lq_new_id (fst st) + of_nat (length fs),
        lq_log_entries := lq_log_entries (fst st) @ number (lq_new_id (fst st)) now fs\<rparr>"
  by (induction now fs st rule: log_events.induct) (simp_all add: log_event_fields algebra_simps)

lemma generate_log_fields:
  "fst (generate_log m now l fs) =
     (let f = findings m (config_entries (cl_config l)); q = cl_log_queue l
      in l\<lparr>cl_log_queue := q\<lparr>lq_new_id := lq_new_id q + of_nat (length f),
             lq_log_entries := lq_log_entries q @ number (lq_new_id q) now f\<rparr>\<rparr>)"
  using log_events_fields [of now "findings m (config_entries (cl_config l))" "(cl_log_queue l, fs)"]
  by (simp add: generate_log_def generate_log_loop_findings case_prod_beta Let_def)

lemma queue_ok_log_events:
  "queue_ok (fst st) \<Longrightarrow> unat (lq_new_id (fst st)) + length fs < 2 ^ 64 \<Longrightarrow>
     queue_ok (fst (log_events now fs st))"
proof (induction now fs st rule: log_events.induct)
  case (1 now st)
  then show ?case by simp
next
  case (2 now name ty v fs st)
  then show ?case
    using queue_ok_log_event [of "fst st" name now ty v "snd st"]
    by (simp add: log_event_fields unat_Suc_u64)
qed

lemma persisted_log_events:
  "persisted (fst st) (snd st) \<Longrightarrow>
     list_all (\<lambda>(name, ty, v). bar \<notin> set name \<and> newline \<notin> set name \<and> proper_type ty) fs \<Longrightarrow>
     persisted (fst (log_events now fs st)) (snd (log_events now fs st))"
proof (induction now fs st rule: log_events.induct)
  case (1 now st)
  then show ?case by simp
next
  case (2 now name ty v fs st)
  then show ?case
    using persisted_log_event [of "fst st" "snd st" name ty now v]
    by (simp add: storable_def LogEntry_new_def)
qed

lemma findings_names:
  assumes "f \<in> set (findings m cs)"
  shows "fst f \<in> ce_process_name ` set cs \<and> proper_type (fst (snd f))"
proof -
  from assms obtain c where "c \<in> set cs" and "f \<in> set (entry_findings m c)"
    by (auto simp: findings_def)
  moreover have "set (entry_findings m c) \<subseteq> (\<lambda>(limit, ty, v). (ce_process_name c, ty, v)) ` set
      [(ucast (ce_cpu_usage c), CPU, ucast (cpu_usage_percent (stat_of m (ce_process_name c)))),
       (ce_mem_usage c, MEM, mem_usage (stat_of m (ce_process_name c))),
       (ce_disk_usage c, DISK, disk_total (stat_of m (ce_process_name c))),
       (ce_network_usage c, NET, network_total (stat_of m (ce_process_name c)))]"
    unfolding entry_findings_def Let_def set_map by (intro image_mono filter_is_subset)
  ultimately show ?thesis by auto
qed

section \<open>Properties\<close>

text \<open>
  C14. A round of the logger appends exactly one log for each configured program and resource whose
  usage is above its threshold, in the order of the configuration, numbered from the next id
  without a gap; what was in the queue stays in front.
\<close>

theorem generate_log_exact:
  "lq_log_entries (cl_log_queue (fst (generate_log m now l fs))) =
     lq_log_entries (cl_log_queue l) @
     number (lq_new_id (cl_log_queue l)) now (findings m (config_entries (cl_config l))) \<and>
   lq_new_id (cl_log_queue (fst (generate_log m now l fs))) =
     lq_new_id (cl_log_queue l) + of_nat (length (findings m (config_entries (cl_config l))))"
  by (simp add: generate_log_fields Let_def)

end
