(* ===== verification/Event_Bus.thy ===== *)
theory Event_Bus
  imports Prelude
begin

text \<open>
  \<^verbatim>\<open>src/common/event.hpp\<close>, \<^verbatim>\<open>event_bus.hpp/.cpp\<close>, \<^verbatim>\<open>input_event\<close>, \<^verbatim>\<open>network_event\<close> and
  \<^verbatim>\<open>input_handler.cpp\<close>: the events and the bus that runs every subscriber in place. What a
  subscriber does to the state is the argument \<open>call\<close>; the client and the server supply theirs.
\<close>

datatype Event =
    InputEvent (input_payload: string)
  | NetworkSendEvent (send_ip: string) (send_port: u16) (send_payload: string)
  | NetworkRecvEvent (recv_ip: string) (recv_port: u16) (recv_payload: string)

record 'cb EventBus =
  subscribers :: "'cb list"

definition EventBus_new :: "'cb EventBus" where
  "EventBus_new = \<lparr>subscribers = []\<rparr>"

definition subscribe :: "'cb \<Rightarrow> 'cb EventBus \<Rightarrow> 'cb EventBus" where
  "subscribe cb bus = bus\<lparr>subscribers := subscribers bus @ [cb]\<rparr>"

text \<open>The loop over the copied callbacks; an exception of one keeps its effects and skips the rest.\<close>

fun run_callbacks ::
  "('cb \<Rightarrow> Event \<Rightarrow> 's \<Rightarrow> unit result \<times> 's) \<Rightarrow> Event \<Rightarrow> 'cb list \<Rightarrow> 's \<Rightarrow> unit result \<times> 's" where
  "run_callbacks call event [] s = (Inr (), s)"
| "run_callbacks call event (cb # cbs) s =
     (case call cb event s of
        (Inl e, s') \<Rightarrow> (Inl e, s')
      | (Inr _, s') \<Rightarrow> run_callbacks call event cbs s')"

definition publish ::
  "('s \<Rightarrow> 'cb EventBus) \<Rightarrow> ('cb \<Rightarrow> Event \<Rightarrow> 's \<Rightarrow> unit result \<times> 's) \<Rightarrow> Event \<Rightarrow> 's \<Rightarrow>
     unit result \<times> 's" where
  "publish bus_of call event s =
     (let copy = subscribers (bus_of s) in run_callbacks call event copy s)"

text \<open>
  A callback may publish in turn: these congruence rules let such a definition terminate, since
  the bus calls its callbacks with the event it was given.
\<close>

lemma run_callbacks_cong [fundef_cong]:
  "event = event' \<Longrightarrow> cbs = cbs' \<Longrightarrow> s = s' \<Longrightarrow>
     (\<And>cb t. cb \<in> set cbs' \<Longrightarrow> call cb event' t = call' cb event' t) \<Longrightarrow>
     run_callbacks call event cbs s = run_callbacks call' event' cbs' s'"
proof (induction cbs arbitrary: s cbs' s')
  case Nil
  then show ?case by auto
next
  case (Cons cb cbs)
  then show ?case by (auto split: prod.splits sum.splits)
qed

lemma publish_cong [fundef_cong]:
  "bus_of = bus_of' \<Longrightarrow> event = event' \<Longrightarrow> s = s' \<Longrightarrow>
     (\<And>cb t. cb \<in> set (subscribers (bus_of' s')) \<Longrightarrow> call cb event' t = call' cb event' t) \<Longrightarrow>
     publish bus_of call event s = publish bus_of' call' event' s'"
  unfolding publish_def Let_def by (rule run_callbacks_cong) auto

lemma run_callbacks_append:
  "run_callbacks call ev (xs @ ys) s =
     (case run_callbacks call ev xs s of
        (Inl e, s') \<Rightarrow> (Inl e, s')
      | (Inr _, s') \<Rightarrow> run_callbacks call ev ys s')"
  by (induction xs arbitrary: s) (auto split: prod.splits sum.splits)

text \<open>A callback that ignores the event is as good as absent.\<close>

lemma run_callbacks_skip:
  "(\<And>cb t. cb \<in> set cbs \<Longrightarrow> \<not> P cb \<Longrightarrow> call cb ev t = (Inr (), t)) \<Longrightarrow>
     run_callbacks call ev cbs s = run_callbacks call ev (filter P cbs) s"
  by (induction cbs arbitrary: s) (auto split: prod.splits sum.splits)

lemma run_callbacks_rel:
  assumes "\<And>cb t. cb \<in> set cbs \<Longrightarrow> R t (snd (call cb ev t))"
    and "\<And>t. R t t" and "\<And>a b c. R a b \<Longrightarrow> R b c \<Longrightarrow> R a c"
  shows "R s (snd (run_callbacks call ev cbs s))"
  using assms(1)
proof (induction cbs arbitrary: s)
  case Nil
  then show ?case using assms(2) by simp
next
  case (Cons cb cbs)
  obtain r s' where c: "call cb ev s = (r, s')" by (cases "call cb ev s")
  with Cons.prems [of cb s] have "R s s'" by simp
  moreover have "R s' (snd (run_callbacks call ev cbs s'))" using Cons by simp
  ultimately show ?case using c assms(3) by (cases r) auto
qed

lemma run_callbacks_single:
  assumes "\<forall>c t. c \<in> set xs \<union> set ys \<longrightarrow> call c ev t = (Inr (), t)"
  shows "run_callbacks call ev (xs @ cb # ys) s = call cb ev s"
proof -
  have skip: "run_callbacks call ev zs t = (Inr (), t)" if "set zs \<subseteq> set xs \<union> set ys" for zs t
    using that assms by (induction zs) auto
  obtain r s' where c: "call cb ev s = (r, s')" by (cases "call cb ev s")
  show ?thesis
    using skip [of xs] skip [of ys] c by (cases r) (simp_all add: run_callbacks_append)
qed

text \<open>A \<^verbatim>\<open>try\<close> block whose handler reports the exception and goes on.\<close>

definition swallow :: "unit result \<times> 's \<Rightarrow> unit result \<times> 's" where
  "swallow r = (case r of
     (Inl e, s) \<Rightarrow> if is_std_exception e then (Inr (), s) else (Inl e, s)
   | (Inr u, s) \<Rightarrow> (Inr u, s))"

lemma snd_swallow [simp]: "snd (swallow r) = snd r"
  by (cases r) (auto simp: swallow_def split: sum.split)

text \<open>A received message or an input may lead to messages to send, never the other way round.\<close>

fun event_rank :: "Event \<Rightarrow> nat" where
  "event_rank (NetworkSendEvent _ _ _) = 0"
| "event_rank _ = 1"

section \<open>Invariants of the subscribers\<close>

text \<open>
  The contract a subscriber is held to: it keeps what the other users of the shared state rely on,
  also when it leaves by an exception.
\<close>

locale callbacks =
  fixes call :: "'cb \<Rightarrow> Event \<Rightarrow> 's \<Rightarrow> unit result \<times> 's"
    and inv :: "'s \<Rightarrow> bool"
  assumes call_inv: "inv s \<Longrightarrow> inv (snd (call cb ev s))"
begin

lemma run_inv: "inv s \<Longrightarrow> inv (snd (run_callbacks call ev cbs s))"
proof (induction cbs arbitrary: s)
  case Nil
  then show ?case by simp
next
  case (Cons cb cbs)
  obtain r s' where c: "call cb ev s = (r, s')" by (cases "call cb ev s")
  with call_inv [OF Cons.prems, of cb ev] have "inv s'" by simp
  with Cons.IH c show ?case by (cases r) simp_all
qed

lemma publish_inv: "inv s \<Longrightarrow> inv (snd (publish bus_of call ev s))"
  by (simp add: publish_def run_inv)

fun publish_all :: "('s \<Rightarrow> 'cb EventBus) \<Rightarrow> Event list \<Rightarrow> 's \<Rightarrow> 's" where
  "publish_all bus_of [] s = s"
| "publish_all bus_of (ev # evs) s = publish_all bus_of evs (snd (publish bus_of call ev s))"

lemma publish_all_inv: "inv s \<Longrightarrow> inv (publish_all bus_of evs s)"
  by (induction evs arbitrary: s) (auto intro: publish_inv)

end

section \<open>User input\<close>

text \<open>
  \<^verbatim>\<open>InputHandler::do_input_indefinitely\<close>: the events published for the lines of the standard
  input, in order; empty lines publish nothing.
\<close>

fun input_events :: "string list \<Rightarrow> Event list" where
  "input_events [] = []"
| "input_events (line # input) =
     (if line = [] then input_events input else InputEvent line # input_events input)"

end
