(* ===== verification/Client.thy ===== *)
theory Client
  imports Client_Logger Event_Bus
begin

text \<open>
  \<^verbatim>\<open>src/client/client.cpp\<close>: the client program. Its three subscribers (the logger's, the sender
  and the receiver of configurations), its start, the reaction to a received message and one round
  of the main loop. A thread started to send a message is an element of \<open>cc_outbox\<close>.
\<close>

section \<open>State\<close>

datatype client_callback = LoggerCallback | SendToServerCallback | RecvConfigCallback

record Client =
  cc_bus :: "client_callback EventBus"
  cc_server_ip :: string
  cc_server_port :: u16
  cc_logger :: ClientLogger
  cc_fs :: fsys
  cc_outbox :: "string list"

text \<open>
  What the program finds outside: uninitialised memory, the JSON library, the home directory and
  whether \<^verbatim>\<open>create_directories\<close> returns.
\<close>

record client_env =
  ke_indet :: indeterminate
  ke_mem_ack :: u64
  ke_dump :: "ConfigEntry list \<Rightarrow> string result"
  ke_parse :: "string \<Rightarrow> ConfigEntry list result"
  ke_home :: string
  ke_mkdir_ok :: bool

section \<open>The subscribers\<close>

text \<open>
  \<^verbatim>\<open>client_logger.set_config(Config(config_entries))\<close>: the parameter object is destroyed after the
  call, also when the call leaves by an exception.
\<close>

definition store_config :: "client_env \<Rightarrow> ConfigEntry list \<Rightarrow> Client \<Rightarrow> unit result \<times> Client" where
  "store_config env es s =
     (let n_config = \<lparr>config_entries = es\<rparr>
      in case set_config (ke_dump env) (ke_mkdir_ok env) (ke_home env) n_config (cc_logger s) (cc_fs s) of
           (r, l, fs) \<Rightarrow>
             (case Config_destroy (ke_dump env) (ke_mkdir_ok env) (ke_home env) n_config fs of
                (Inl e, fs') \<Rightarrow> (Inl e, s\<lparr>cc_logger := l, cc_fs := fs'\<rparr>)
              | (Inr _, fs') \<Rightarrow> (r, s\<lparr>cc_logger := l, cc_fs := fs'\<rparr>)))"

function client_publish :: "client_env \<Rightarrow> Event \<Rightarrow> Client \<Rightarrow> unit result \<times> Client"
  and client_call :: "client_env \<Rightarrow> client_callback \<Rightarrow> Event \<Rightarrow> Client \<Rightarrow> unit result \<times> Client"
where
  "client_publish env ev s = publish cc_bus (\<lambda>cb ev s. client_call env cb ev s) ev s"
| "client_call env cb ev s =
     (case cb of
        LoggerCallback \<Rightarrow>
          (case ev of
             NetworkRecvEvent ip port payload \<Rightarrow>
               (case logger_recv (in_id (ke_indet env)) payload (cc_logger s) (cc_fs s) of
                  (r, l, fs) \<Rightarrow> (r, s\<lparr>cc_logger := l, cc_fs := fs\<rparr>))
           | _ \<Rightarrow> (Inr (), s))
      | SendToServerCallback \<Rightarrow>
          (case ev of
             NetworkSendEvent ip port payload \<Rightarrow> (Inr (), s\<lparr>cc_outbox := cc_outbox s @ [payload]\<rparr>)
           | _ \<Rightarrow> (Inr (), s))
      | RecvConfigCallback \<Rightarrow>
          (case ev of
             NetworkRecvEvent ip port payload \<Rightarrow>
               (case read_string (stream_of payload) of
                  Inl e \<Rightarrow> (Inl e, s)
                | Inr (message, _) \<Rightarrow>
                    if starts_with message ''config '' then
                      let content = drop (length ''config '') message
                      in swallow
                           (case ke_parse env content of
                              Inl e \<Rightarrow> (Inl e, s)
                            | Inr es \<Rightarrow>
                                (case store_config env es s of
                                   (Inl e, s') \<Rightarrow> (Inl e, s')
                                 | (Inr _, s') \<Rightarrow>
                                     (case write_string ''config ok'' of
                                        Inl e \<Rightarrow> (Inl e, s')
                                      | Inr p \<Rightarrow>
                                          client_publish env
                                            (NetworkSendEvent (cc_server_ip s') (cc_server_port s') p)
                                            s')))
                    else (Inr (), s))
           | _ \<Rightarrow> (Inr (), s)))"
  by pat_completeness auto
termination
  by (relation "measure (\<lambda>x. case x of
        Inl (env, ev, s) \<Rightarrow> 2 * event_rank ev + 1
      | Inr (env, cb, ev, s) \<Rightarrow> 2 * event_rank ev)") auto

declare client_publish.simps [simp del] client_call.simps [simp del]

section \<open>The program\<close>

text \<open>
  From the reading of the configuration to the constructor of the logger: \<open>None\<close> if the constructor
  of the log queue does not return. The default configuration is assigned from a temporary, and the logger is
  constructed from parameters; each of these objects is destroyed again.
\<close>

definition startup_config :: "client_env \<Rightarrow> fsys \<Rightarrow> Config result \<times> fsys" where
  "startup_config env fs =
     (case read_config (ke_parse env) (ke_home env) fs Config_empty of
        Inl e \<Rightarrow> (Inl e, fs)
      | Inr (ret, config) \<Rightarrow>
          if ret \<noteq> 0 then
            (case Config_destroy (ke_dump env) (ke_mkdir_ok env) (ke_home env) default_config fs of
               (Inl e, fs') \<Rightarrow> (Inl e, fs')
             | (Inr _, fs') \<Rightarrow> (Inr default_config, fs'))
          else (Inr config, fs))"

definition client_construct :: "client_env \<Rightarrow> string \<Rightarrow> u16 \<Rightarrow> fsys \<Rightarrow> (Client result \<times> fsys) option" where
  "client_construct env ip port fs =
     (case startup_config env fs of
        (Inl e, fs1) \<Rightarrow> Some (Inl e, fs1)
      | (Inr config, fs1) \<Rightarrow>
          (case LogQueue_new (ke_mem_ack env) (in_num (ke_indet env)) (in_entry (ke_indet env))
                  ''rmt-log.txt'' ''rmt-ack.txt'' fs1 of
             None \<Rightarrow> None
           | Some (q, fs2) \<Rightarrow>
               (case Config_destroy (ke_dump env) (ke_mkdir_ok env) (ke_home env) config
                       (LogQueue_destroy q fs2) of
                  (Inl e, fs3) \<Rightarrow> Some (Inl e, fs3)
                | (Inr _, fs3) \<Rightarrow>
                    Some (Inr \<lparr>cc_bus = subscribe LoggerCallback EventBus_new,
                               cc_server_ip = ip, cc_server_port = port,
                               cc_logger = \<lparr>cl_config = config, cl_log_queue = q\<rparr>,
                               cc_fs = fs3, cc_outbox = []\<rparr>, fs3))))"

text \<open>The other two subscribers; then the main loop begins.\<close>

definition register_send_output_to_server :: "Client \<Rightarrow> Client" where
  "register_send_output_to_server s = s\<lparr>cc_bus := subscribe SendToServerCallback (cc_bus s)\<rparr>"

definition register_recv_config :: "Client \<Rightarrow> Client" where
  "register_recv_config s = s\<lparr>cc_bus := subscribe RecvConfigCallback (cc_bus s)\<rparr>"

definition client_start :: "client_env \<Rightarrow> string \<Rightarrow> u16 \<Rightarrow> fsys \<Rightarrow> (Client result \<times> fsys) option" where
  "client_start env ip port fs =
     (case client_construct env ip port fs of
        None \<Rightarrow> None
      | Some (Inl e, fs1) \<Rightarrow> Some (Inl e, fs1)
      | Some (Inr c, fs1) \<Rightarrow>
          Some (Inr (register_recv_config (register_send_output_to_server c)), fs1))"

text \<open>A start without anybody in between, in one equation.\<close>

lemma client_start_eq:
  "client_start env ip port fs =
     (case startup_config env fs of
        (Inl e, fs1) \<Rightarrow> Some (Inl e, fs1)
      | (Inr config, fs1) \<Rightarrow>
          (case LogQueue_new (ke_mem_ack env) (in_num (ke_indet env)) (in_entry (ke_indet env))
                  ''rmt-log.txt'' ''rmt-ack.txt'' fs1 of
             None \<Rightarrow> None
           | Some (q, fs2) \<Rightarrow>
               (case Config_destroy (ke_dump env) (ke_mkdir_ok env) (ke_home env) config
                       (LogQueue_destroy q fs2) of
                  (Inl e, fs3) \<Rightarrow> Some (Inl e, fs3)
                | (Inr _, fs3) \<Rightarrow>
                    Some (Inr \<lparr>cc_bus = subscribe RecvConfigCallback (subscribe SendToServerCallback
                                 (subscribe LoggerCallback EventBus_new)),
                               cc_server_ip = ip, cc_server_port = port,
                               cc_logger = \<lparr>cl_config = config, cl_log_queue = q\<rparr>,
                               cc_fs = fs3, cc_outbox = []\<rparr>, fs3))))"
  by (simp add: client_start_def client_construct_def register_recv_config_def
      register_send_output_to_server_def split: prod.split sum.split option.split)

text \<open>One message in \<^verbatim>\<open>receive_server_input\<close>; nothing there catches an exception.\<close>

definition receive_server_input :: "client_env \<Rightarrow> string \<Rightarrow> Client \<Rightarrow> unit result \<times> Client" where
  "receive_server_input env message s =
     (if message = [] then (Inr (), s)
      else client_publish env (NetworkRecvEvent (cc_server_ip s) (cc_server_port s) message) s)"

text \<open>One round of the main loop, after the update of the process table.\<close>

definition client_tick ::
  "client_env \<Rightarrow> (string \<rightharpoonup> ProcessStat) \<Rightarrow> u64 \<Rightarrow> Client \<Rightarrow> unit result \<times> Client" where
  "client_tick env m now_ms s =
     (case generate_log m now_ms (cc_logger s) (cc_fs s) of
        (l, fs) \<Rightarrow>
          let s' = s\<lparr>cc_logger := l, cc_fs := fs\<rparr>;
              log_entries = logger_get_batch_log 100 l
          in if log_entries \<noteq> [] then
               (case log_payload log_entries of
                  Inl e \<Rightarrow> (Inl e, s')
                | Inr p \<Rightarrow>
                    client_publish env (NetworkSendEvent (cc_server_ip s') (cc_server_port s') p) s')
             else (Inr (), s'))"

section \<open>The bus\<close>

definition client_ok :: "Client \<Rightarrow> bool" where
  "client_ok s \<longleftrightarrow>
     subscribers (cc_bus s) = [LoggerCallback, SendToServerCallback, RecvConfigCallback]"

lemma client_call_send:
  "client_call env LoggerCallback (NetworkSendEvent ip port p) s = (Inr (), s)"
  "client_call env SendToServerCallback (NetworkSendEvent ip port p) s =
     (Inr (), s\<lparr>cc_outbox := cc_outbox s @ [p]\<rparr>)"
  "client_call env RecvConfigCallback (NetworkSendEvent ip port p) s = (Inr (), s)"
  "client_call env SendToServerCallback (NetworkRecvEvent ip port p) s = (Inr (), s)"
  "client_call env cb (InputEvent p) s = (Inr (), s)"
  by (simp_all add: client_call.simps split: client_callback.split)

lemma client_publish_send:
  "client_ok s \<Longrightarrow>
     client_publish env (NetworkSendEvent ip port p) s = (Inr (), s\<lparr>cc_outbox := cc_outbox s @ [p]\<rparr>)"
  by (simp add: client_publish.simps publish_def client_ok_def client_call_send)

lemma client_publish_recv:
  "client_ok s \<Longrightarrow> client_publish env (NetworkRecvEvent ip port p) s =
     (case client_call env LoggerCallback (NetworkRecvEvent ip port p) s of
        (Inl e, s') \<Rightarrow> (Inl e, s')
      | (Inr _, s') \<Rightarrow> client_call env RecvConfigCallback (NetworkRecvEvent ip port p) s')"
  by (simp add: client_publish.simps publish_def client_ok_def client_call_send
      split: prod.split sum.split)

lemma client_ok_update [simp]:
  "client_ok (s\<lparr>cc_logger := l\<rparr>) = client_ok s" "client_ok (s\<lparr>cc_fs := fs\<rparr>) = client_ok s"
  "client_ok (s\<lparr>cc_outbox := out\<rparr>) = client_ok s"
  by (simp_all add: client_ok_def)

lemma publish_send_outbox:
  "\<exists>out. client_publish env (NetworkSendEvent ip port p) s = (Inr (), s\<lparr>cc_outbox := out\<rparr>)"
proof -
  have "\<exists>out. run_callbacks (client_call env) (NetworkSendEvent ip port p) cbs s = (Inr (), s\<lparr>cc_outbox := out\<rparr>)"
    for cbs s
  proof (induction cbs arbitrary: s)
    case Nil
    show ?case by (auto intro: exI [of _ "cc_outbox s"])
  next
    case (Cons cb cbs)
    then show ?case
      using Cons.IH [of "s\<lparr>cc_outbox := cc_outbox s @ [p]\<rparr>"] by (cases cb) (simp_all add: client_call_send)
  qed
  then show ?thesis by (simp add: client_publish.simps publish_def)
qed

lemma client_publish_send_fields [simp]:
  "fst (client_publish env (NetworkSendEvent ip port p) s) = Inr ()"
  "cc_bus (snd (client_publish env (NetworkSendEvent ip port p) s)) = cc_bus s"
  "cc_logger (snd (client_publish env (NetworkSendEvent ip port p) s)) = cc_logger s"
  using publish_send_outbox [of env ip port p s] by auto

lemma store_config_fields [simp]:
  "cc_logger (snd (store_config env es s)) = (cc_logger s)\<lparr>cl_config := \<lparr>config_entries = es\<rparr>\<rparr>"
  "cc_bus (snd (store_config env es s)) = cc_bus s"
  by (auto simp: store_config_def set_config_def Let_def split: prod.split sum.split)

text \<open>No subscriber changes who is subscribed.\<close>

lemma client_call_bus: "cc_bus (snd (client_call env cb ev s)) = cc_bus s"
proof (cases ev)
  case (NetworkRecvEvent ip port p)
  have *: "cc_bus s' = cc_bus s" if "store_config env es s = (r, s')" for es r s'
    using store_config_fields(2) [of env es s] that by simp
  show ?thesis
    using * by (cases cb)
       (auto simp: NetworkRecvEvent client_call.simps [of env _ "NetworkRecvEvent ip port p"]
         Let_def split: prod.splits sum.splits)
qed (cases cb; simp add: client_call_send)+

interpretation client_bus: callbacks "client_call env" "\<lambda>s. cc_bus s = bus" for env bus
  by unfold_locales (simp add: client_call_bus)

lemma receive_bus: "cc_bus (snd (receive_server_input env m s)) = cc_bus s"
  using client_bus.publish_inv [of s "cc_bus s" cc_bus env]
  by (simp add: receive_server_input_def client_publish.simps)

section \<open>What the client does with a message\<close>

lemma write_string_nonempty: "write_string x = Inr p \<Longrightarrow> p \<noteq> []"
  by (auto simp: write_string_Inr simp flip: length_0_conv)

definition with_queue :: "LogQueue \<Rightarrow> fsys \<Rightarrow> Client \<Rightarrow> Client" where
  "with_queue q fs s = s\<lparr>cc_logger := (cc_logger s)\<lparr>cl_log_queue := q\<rparr>, cc_fs := fs\<rparr>"

lemma receive_ack:
  assumes "client_ok s" and p: "ack_payload i = Inr p"
  shows "receive_server_input env p s =
    (Inr (), case ack_log i (cl_log_queue (cc_logger s)) (cc_fs s) of (q, fs) \<Rightarrow> with_queue q fs s)"
proof -
  have "p \<noteq> []" using write_string_nonempty p by (simp add: ack_payload_def)
  moreover have "\<not> starts_with (''ack '' @ show_nat (unat i)) ''config ''"
    by (simp add: starts_with_def)
  ultimately show ?thesis
    using assms(1) read_ack_payload [OF p]
    by (simp add: receive_server_input_def client_publish_recv client_call.simps logger_recv_def
        with_queue_def case_prod_beta)
qed

text \<open>Bytes that hold no string end the program: no handler is in reach.\<close>

lemma receive_malformed:
  assumes "client_ok s" and "message \<noteq> []" and "read_string (stream_of message) = Inl e"
  shows "receive_server_input env message s = (Inl e, s)"
  using assms by (simp add: receive_server_input_def client_publish_recv client_call.simps
      logger_recv_def)

text \<open>A configuration from the server is stored as it came, and written to the file divided by the units.\<close>

lemma store_config_written:
  assumes "ke_mkdir_ok env" and "\<not> no_write (cc_fs s) (config_path (ke_home env))"
    and "ke_dump env (map convert_before_write es) = Inr text'"
  shows "store_config env es s =
    (Inr (), s\<lparr>cc_logger := (cc_logger s)\<lparr>cl_config := \<lparr>config_entries = es\<rparr>\<rparr>,
       cc_fs := (cc_fs s)\<lparr>files := (files (cc_fs s))(config_path (ke_home env) \<mapsto> text')\<rparr>\<rparr>)"
  using assms
  by (simp add: store_config_def set_config_def Config_destroy_def Let_def write_config_ok)

lemma receive_config:
  assumes "client_ok s" and p: "write_string (''config '' @ content) = Inr p"
    and "ke_parse env content = Inr es"
    and "store_config env es s = (Inr (), s')" and "client_ok s'"
  shows "\<exists>reply. receive_server_input env p s = (Inr (), s'\<lparr>cc_outbox := cc_outbox s' @ [reply]\<rparr>) \<and>
    write_string ''config ok'' = Inr reply"
proof -
  obtain reply where reply: "write_string ''config ok'' = Inr reply"
    by (auto simp: write_string_Inr)
  have "p \<noteq> []" using write_string_nonempty p .
  moreover have "read_string (stream_of p) = Inr (''config '' @ content, stream_of [])"
    using parsesD_all [OF parses_string [OF p]] .
  moreover have "parse_ack mem (''config '' @ content) = None" for mem
    by (simp add: parse_ack_def starts_with_def)
  moreover have "starts_with (''config '' @ content) ''config ''" by (rule starts_with_append)
  ultimately have "receive_server_input env p s =
      swallow (client_publish env (NetworkSendEvent (cc_server_ip s') (cc_server_port s') reply) s')"
    using assms reply
    by (simp add: receive_server_input_def client_publish_recv client_call.simps logger_recv_def)
  with reply assms(5) show ?thesis by (simp add: client_publish_send swallow_def)
qed

lemma receive_bad_config:
  assumes "client_ok s" and p: "write_string (''config '' @ content) = Inr p"
    and "ke_parse env content = Inl Json_error"
  shows "receive_server_input env p s = (Inr (), s)"
proof -
  have "p \<noteq> []" using write_string_nonempty p .
  moreover have "read_string (stream_of p) = Inr (''config '' @ content, stream_of [])"
    using parsesD_all [OF parses_string [OF p]] .
  moreover have "parse_ack mem (''config '' @ content) = None" for mem
    by (simp add: parse_ack_def starts_with_def)
  moreover have "starts_with (''config '' @ content) ''config ''" by (rule starts_with_append)
  ultimately show ?thesis
    using assms by (simp add: receive_server_input_def client_publish_recv client_call.simps
        logger_recv_def swallow_def)
qed

section \<open>A round of the main loop\<close>

definition batch_size :: "LogQueue \<Rightarrow> nat" where
  "batch_size q = min 100 (length (lq_log_entries q) mod 2 ^ 32)"

lemma client_tick_sends:
  assumes "client_ok s" and g: "generate_log m now (cc_logger s) (cc_fs s) = (l, fs)"
    and "list_all sendable (lq_log_entries (cl_log_queue l))"
  shows "\<exists>p. log_payload (take (batch_size (cl_log_queue l)) (lq_log_entries (cl_log_queue l))) = Inr p \<and>
    client_tick env m now s =
      (Inr (), s\<lparr>cc_logger := l, cc_fs := fs,
         cc_outbox := cc_outbox s @ (if batch_size (cl_log_queue l) = 0 then [] else [p])\<rparr>)"
proof -
  let ?es = "lq_log_entries (cl_log_queue l)" and ?b = "batch_size (cl_log_queue l)"
  have batch: "logger_get_batch_log 100 l = take ?b ?es"
    by (simp add: logger_get_batch_log_def get_batch_log_prefix batch_size_def)
  have "length ?es mod 2 ^ 32 \<le> length ?es" by (rule mod_less_eq_dividend)
  then have empty: "take ?b ?es = [] \<longleftrightarrow> ?b = 0" by (auto simp: batch_size_def)
  have "list_all sendable (take ?b ?es)"
    using assms(3) by (auto simp: list_all_iff dest: in_set_takeD)
  then obtain b where "write_vector_serializeable serialize (take ?b ?es) = Inr b"
    using log_codec.vector_ser_ok by blast
  moreover obtain a where "write_string ''log'' = Inr a" by (auto simp: write_string_Inr)
  ultimately have "log_payload (take ?b ?es) = Inr (a @ b)" by (simp add: log_payload_def)
  with g batch empty assms(1) show ?thesis
    by (simp add: client_tick_def Let_def client_publish_send)
qed

section \<open>Start and restart\<close>

text \<open>
  The configuration file after the start is what \<^verbatim>\<open>dump\<close> makes of the entries it held, and the queue
  is the one of the previous run, except for the next id of an empty queue.
\<close>

lemma client_restart:
  assumes q: "persisted q fs" "queue_ok q" "lq_log_file q = ''rmt-log.txt''"
      "lq_ack_file q = ''rmt-ack.txt''"
    and c: "open_in fs (config_path (ke_home env)) = Some (stream_of text')"
      "ke_parse env text' = Inr es" "list_all fits_units es" "ke_dump env es = Inr text''"
    and w: "ke_mkdir_ok env" "\<not> no_write fs (config_path (ke_home env))"
      "config_path (ke_home env) \<notin> {''rmt-log.txt'', ''rmt-ack.txt''}"
  shows "\<exists>fs'. client_start env ip port fs =
      Some (Inr \<lparr>cc_bus = \<lparr>subscribers = [LoggerCallback, SendToServerCallback, RecvConfigCallback]\<rparr>,
                 cc_server_ip = ip, cc_server_port = port,
                 cc_logger = \<lparr>cl_config = \<lparr>config_entries = map convert_after_read es\<rparr>,
                              cl_log_queue = q\<lparr>lq_new_id := (if lq_log_entries q = [] then 1
                                                            else lq_new_id q)\<rparr>\<rparr>,
                 cc_fs = fs', cc_outbox = []\<rparr>, fs') \<and>
    persisted q fs' \<and> files fs' (config_path (ke_home env)) = Some text''"
proof -
  let ?c = "\<lparr>config_entries = map convert_after_read es\<rparr>"
  let ?fs = "LogQueue_destroy q fs"
  let ?fs' = "?fs\<lparr>files := (files ?fs)(config_path (ke_home env) \<mapsto> text'')\<rparr>"
  have start: "startup_config env fs = (Inr ?c, fs)"
    using c by (simp add: startup_config_def read_config_def Config_empty_def)
  have "map convert_before_write (map convert_after_read es) = es"
    using c(3) by (simp add: list_all_iff map_idI convert_write_read)
  then have destroy: "Config_destroy (ke_dump env) (ke_mkdir_ok env) (ke_home env) ?c ?fs = (Inr (), ?fs')"
    using w c(4) by (simp add: Config_destroy_def write_config_ok destroy_perms)
  have "persisted q ?fs'"
    using persisted_destroy [OF q(1,2)] persisted_other_file w(3) q(3,4) by simp
  then show ?thesis
    using start destroy reopen [OF q(1,2)] q(3,4)
    by (simp add: client_start_eq destroy_new_id subscribe_def EventBus_new_def Let_def)
qed

text \<open>
  A pushed configuration is used without the conversion to units, but the file is written with it:
  after a restart every threshold is what the push divided by its unit and multiplied again.
\<close>

lemma pushed_config_restart:
  assumes "json_roundtrip (ke_dump env) (ke_parse env)" and "ke_mkdir_ok env"
    and "\<not> no_write (cc_fs s) (config_path (ke_home env))"
    and "\<not> no_read (cc_fs s) (config_path (ke_home env))"
    and "ke_dump env (map convert_before_write es) = Inr text'"
  shows "case store_config env es s of (r, s') \<Rightarrow>
    config_entries (cl_config (cc_logger s')) = es \<and>
    read_config (ke_parse env) (ke_home env) (cc_fs s') Config_empty =
      Inr (0, \<lparr>config_entries = map round_down es\<rparr>)"
  using assms
  by (simp add: store_config_written read_config_def open_in_def json_roundtrip_def Config_empty_def
      round_down_def comp_def)

end
