(* ===== verification/Queue_History.thy ===== *)
theory Queue_History
  imports Client
begin

text \<open>
  What the client's queue and its two files are in terms of the history of all logs ever made. The
  acknowledged id may lag behind the queue (the server has authority over it, and acknowledgements
  may arrive late), and the log file may still hold acknowledged entries.
\<close>

section \<open>Histories\<close>

text \<open>Numbered from 1 without a gap, and fit for the file and for the network.\<close>

definition history :: "LogEntry list \<Rightarrow> bool" where
  "history hist \<longleftrightarrow>
     ids hist = [1..<Suc (length hist)] \<and> list_all storable hist \<and> list_all sendable hist \<and>
     length hist + 1 < 2 ^ 64"

lemma history_ids_drop:
  "history hist \<Longrightarrow> ids (drop j hist) = [Suc j..<Suc (length hist)]"
  by (simp add: history_def ids_take_drop del: upt_Suc)

lemma history_ids_slice:
  assumes "history hist" and "i + b \<le> length hist"
  shows "ids (take b (drop i hist)) = [i + 1..<i + 1 + b]"
  using history_ids_drop [OF assms(1), of i] assms(2)
  by (simp add: ids_take_drop(1) take_upt del: upt_Suc)

lemma history_slice:
  assumes "history hist"
  shows "list_all storable (drop i hist)" "list_all sendable (drop i hist)"
    "list_all storable (take b (drop i hist))" "list_all sendable (take b (drop i hist))"
  using assms by (auto simp: history_def list_all_iff dest: in_set_takeD in_set_dropD)

lemma unat_of_nat_u64: "n < 2 ^ 64 \<Longrightarrow> unat (of_nat n :: u64) = n"
  by (simp add: unsigned_of_nat take_bit_nat_eq_self)

lemma history_newer:
  assumes "history hist" and "a \<le> j" and "j \<le> length hist" and "e \<in> set (drop j hist)"
  shows "of_nat a < le_id e"
proof -
  have "unat (le_id e) \<in> set (ids (drop j hist))" using assms(4) by (simp add: ids_def)
  then have "j < unat (le_id e)"
    using history_ids_drop [OF assms(1), of j] by (auto simp del: upt_Suc)
  moreover have "unat (of_nat a :: u64) = a"
    using assms by (simp add: history_def unat_of_nat_u64)
  ultimately show ?thesis using assms(2) by (simp add: word_less_nat_alt)
qed

lemma history_older:
  assumes "history hist" and "j \<le> length hist" and "e \<in> set (take j hist)"
  shows "le_id e \<le> of_nat j"
proof -
  have "ids (take j hist) = [1..<Suc j]"
    using history_ids_slice [OF assms(1), of 0 j] assms(2) by simp
  moreover have "unat (le_id e) \<in> set (ids (take j hist))" using assms(3) by (simp add: ids_def)
  ultimately have "unat (le_id e) \<le> j" by (auto simp del: upt_Suc)
  moreover have "unat (of_nat j :: u64) = j"
    using assms by (simp add: history_def unat_of_nat_u64)
  ultimately show ?thesis by (simp add: word_le_nat_alt)
qed

lemma history_filter_newer:
  assumes "history hist" and "a \<le> length hist"
  shows "filter (\<lambda>e. of_nat a < le_id e) (drop c hist) = drop (max a c) hist"
proof (cases "c \<le> a")
  case True
  have "drop c hist = drop c (take a hist) @ drop a hist"
    using True assms(2) by (metis append_take_drop_id drop_append diff_is_0_eq drop0 length_take min.absorb2)
  moreover have "filter (\<lambda>e. of_nat a < le_id e) (drop c (take a hist)) = []"
    using history_older [OF assms] by (auto simp: filter_empty_conv not_less dest: in_set_dropD)
  moreover have "filter (\<lambda>e. of_nat a < le_id e) (drop a hist) = drop a hist"
    using history_newer [OF assms(1) order_refl assms(2)] by (simp add: filter_id_conv)
  ultimately show ?thesis using True by (simp add: max_def)
next
  case False
  then have "filter (\<lambda>e. of_nat a < le_id e) (drop c hist) = drop c hist"
    using history_newer [OF assms(1), of a c]
    by (cases "c \<le> length hist") (auto simp: filter_id_conv)
  with False show ?thesis by (simp add: max_def)
qed

section \<open>The queue\<close>

text \<open>
  The first \<open>j\<close> logs have left the queue; the files hold the acknowledged id \<open>a\<close> and the logs from
  number \<open>c + 1\<close> on.
\<close>

definition queue_at :: "LogEntry list \<Rightarrow> nat \<Rightarrow> nat \<Rightarrow> nat \<Rightarrow> LogQueue \<Rightarrow> fsys \<Rightarrow> bool" where
  "queue_at hist j a c q fs \<longleftrightarrow>
     history hist \<and> a \<le> j \<and> c \<le> j \<and> j \<le> length hist \<and> lq_log_entries q = drop j hist \<and>
     lq_new_id q = of_nat (length hist + 1) \<and>
     lq_ack_id q = of_nat a \<and> files fs (lq_ack_file q) = Some (show_nat a) \<and>
     files fs (lq_log_file q) = Some (concat (map serialize_str (drop c hist))) \<and>
     \<not> no_read fs (lq_log_file q) \<and> \<not> no_write fs (lq_log_file q) \<and>
     \<not> no_read fs (lq_ack_file q) \<and> \<not> no_write fs (lq_ack_file q) \<and>
     lq_ack_file q \<noteq> lq_log_file q \<and> lq_ack_file q \<noteq> lq_log_file q @ ''.tmp''"

definition queue_holds :: "LogEntry list \<Rightarrow> nat \<Rightarrow> LogQueue \<Rightarrow> fsys \<Rightarrow> bool" where
  "queue_holds hist j q fs \<longleftrightarrow> (\<exists>a c. queue_at hist j a c q fs)"

lemma queue_at_small:
  assumes "queue_at hist j a c q fs"
  shows "a < 2 ^ 64" "j < 2 ^ 64"
  using assms by (simp_all add: queue_at_def history_def)

lemma queue_at_log_event:
  assumes "queue_at hist j a c q fs" and "length hist + 2 < 2 ^ 64"
    and e: "e = LogEntry_new (lq_new_id q) name now ty v" "storable e" "sendable e"
  shows "queue_at (hist @ [e]) j a c (fst (log_event name now ty v q fs))
    (snd (log_event name now ty v q fs))"
proof -
  have "unat (le_id e) = length hist + 1"
    using assms(1,2) e(1) by (simp add: queue_at_def LogEntry_new_def unat_of_nat_u64 del: of_nat_Suc)
  then have "history (hist @ [e])"
    using assms(1,2) e(2,3) by (simp add: queue_at_def history_def)
  with assms(1) e(1) show ?thesis
    by (simp add: queue_at_def log_event_def get_new_id_def add_log_def open_app_def
        file_simps LogEntry_new_def)
qed

lemma history_drop_split:
  "j \<le> i \<Longrightarrow> i \<le> length hist \<Longrightarrow> drop j hist = drop j (take i hist) @ drop i hist"
  by (metis append_take_drop_id drop_append diff_is_0_eq drop0 length_take min.absorb2)

lemma history_pop_acked:
  assumes h: "history hist" and "i \<le> length hist" and j: "j \<le> length hist"
  shows "pop_acked (of_nat i) (drop j hist) = drop (max j i) hist"
proof (cases "j \<le> i")
  case True
  have "\<forall>e \<in> set (drop j (take i hist)). le_id e \<le> of_nat i"
    using history_older [OF h assms(2)] by (auto dest: in_set_dropD)
  moreover have "dropWhile (\<lambda>e. le_id e \<le> of_nat i) (drop i hist) = drop i hist"
    using history_newer [OF h order_refl assms(2)]
    by (metis dropWhile_eq_self_iff hd_in_set not_less)
  ultimately show ?thesis
    using history_drop_split [OF True assms(2)] True
    by (simp add: pop_acked_dropWhile dropWhile_append2 max_def)
next
  case False
  then have "dropWhile (\<lambda>e. le_id e \<le> of_nat i) (drop j hist) = drop j hist"
    using history_newer [OF h _ j, of i] by (metis dropWhile_eq_self_iff hd_in_set nle_le not_less)
  with False show ?thesis by (simp add: pop_acked_dropWhile max_def)
qed

lemma queue_at_ack_log:
  assumes "queue_at hist j a c q fs" and "i \<le> length hist"
  shows "queue_at hist (max j i) i c (fst (ack_log (of_nat i) q fs)) (snd (ack_log (of_nat i) q fs))"
proof -
  from assms(1) have h: "history hist" and j: "j \<le> length hist" and a: "lq_ack_id q = of_nat a"
    and es: "lq_log_entries q = drop j hist"
    by (simp_all add: queue_at_def)
  have small: "i < 2 ^ 64" using assms(2) h by (simp add: history_def)
  show ?thesis
  proof (cases "of_nat i = lq_ack_id q")
    case True
    then have "a = i" using a small queue_at_small(1) [OF assms(1)] by (metis unat_of_nat_u64)
    with True assms(1) show ?thesis by (auto simp: ack_log_def max_def queue_at_def)
  next
    case False
    then have "fst (ack_log (of_nat i) q fs)
        = q\<lparr>lq_ack_id := of_nat i, lq_log_entries := drop (max j i) hist\<rparr>"
      using history_pop_acked [OF h assms(2) j] by (simp add: ack_log_def Let_def es)
    with assms False small show ?thesis
      by (auto simp: queue_at_def ack_log_def Let_def write_ack_def open_trunc_def file_simps
          unat_of_nat_u64 max.coboundedI1)
  qed
qed

lemma queue_at_destroy:
  assumes "queue_at hist j a c q fs"
  shows "\<exists>c'. queue_at hist j a c' q (LogQueue_destroy q fs)"
proof -
  have a: "a \<le> j" "lq_ack_id q = of_nat a" and h: "history hist"
    and j: "j \<le> length hist" and es: "lq_log_entries q = drop j hist"
    using assms by (simp_all add: queue_at_def)
  have kept: "filter (\<lambda>e. lq_ack_id q < le_id e) (lq_log_entries q) = drop j hist"
    using history_newer [OF h a(1) j] by (simp add: filter_id_conv a(2) es)
  have "files fs (lq_log_file q) = Some (concat (map serialize_str (drop c hist)))"
    and "\<not> no_write fs (lq_log_file q)"
    using assms by (simp_all add: queue_at_def)
  from clean_old_logs_cases [OF this] have
    "queue_at hist j a c q (clean_old_logs q fs) \<or> queue_at hist j a j q (clean_old_logs q fs)"
    unfolding kept using assms by (elim disjE) (simp_all add: queue_at_def)
  then obtain c' where "queue_at hist j a c' q (clean_old_logs q fs)" by blast
  then have "queue_at hist j a c' q (LogQueue_destroy q fs)"
    using queue_at_small(1) [OF assms]
    by (auto simp: LogQueue_destroy_def write_ack_def open_trunc_def file_simps queue_at_def
        unat_of_nat_u64)
  then show ?thesis by blast
qed

text \<open>
  Opening the files again: an acknowledgement that came late brings entries back into the queue,
  and a queue with entries goes on numbering where it stopped.
\<close>

lemma queue_at_reopen:
  assumes "queue_at hist j a c q fs"
  shows "LogQueue_new mem_ack num mem (lq_log_file q) (lq_ack_file q) fs =
      Some (q\<lparr>lq_log_entries := drop (max a c) hist,
              lq_new_id := (if max a c < length hist then lq_new_id q else 1)\<rparr>, fs)"
proof -
  define m where "m = max a c"
  have a: "a \<le> j" "lq_ack_id q = of_nat a" "files fs (lq_ack_file q) = Some (show_nat a)"
    and c: "c \<le> j" "files fs (lq_log_file q) = Some (concat (map serialize_str (drop c hist)))"
    and h: "history hist" and j: "j \<le> length hist"
    and new: "lq_new_id q = of_nat (length hist + 1)"
    using assms by (simp_all add: queue_at_def)
  have an: "a \<le> length hist" using a(1) j by simp
  have "show_nat a = show_nat (unat (of_nat a :: u64))"
    using queue_at_small(1) [OF assms] by (simp add: unat_of_nat_u64)
  then have "fst (extract_u64 mem_ack (stream_of (show_nat a))) = of_nat a"
    by (metis extract_u64_show_nat)
  then have "load_ack mem_ack (lq_ack_file q) fs = (of_nat a, fs)"
    using assms a(3) by (simp add: load_ack_def open_in_def queue_at_def)
  moreover have "load_entries num mem (of_nat a)
      (stream_of (concat (map serialize_str (drop c hist)))) [] = Some (drop m hist)"
    using load_entries_text [OF history_slice(1) [OF h], of num mem "of_nat a" c "[]"]
      history_filter_newer [OF h an, of c] by (simp add: m_def)
  moreover have "le_id (last (drop m hist)) + 1 = lq_new_id q"
    if "m < length hist"
  proof -
    have "unat (le_id (last hist)) = last (ids hist)"
      using that by (subst ids_def) (metis last_map list.size(3) not_less_zero)
    also have "hist \<noteq> []" using that by auto
    then have "last (ids hist) = length hist" using h by (simp add: history_def del: upt_Suc)
    finally have "le_id (last hist) = of_nat (length hist)" by (metis of_nat_unat ucast_id)
    then show ?thesis using that by (simp add: add.commute new)
  qed
  moreover have "open_in fs (lq_log_file q) = Some (stream_of (concat (map serialize_str (drop c hist))))"
    using c(2) assms by (simp add: open_in_def queue_at_def)
  ultimately show ?thesis
    unfolding m_def [symmetric]
    using a(2) by (cases q; cases "m < length hist") (simp_all add: LogQueue_new_def not_less)
qed

lemma queue_at_reopened:
  "queue_at hist j a c q fs \<Longrightarrow> max a c < length hist \<Longrightarrow>
     queue_at hist (max a c) a c (q\<lparr>lq_log_entries := drop (max a c) hist\<rparr>) fs"
  by (simp add: queue_at_def)

section \<open>Properties\<close>


text \<open>
  Reopening the two files of a queue gives every log that is newer than the acknowledged id
  and still in the log file, in order; the next id continues the numbering exactly if there is one.
\<close>

lemma queue_reopened:
  assumes "queue_at hist j a c q fs"
  shows "LogQueue_new mem_ack num mem (lq_log_file q) (lq_ack_file q) fs =
    Some (q\<lparr>lq_log_entries := drop (max a c) hist,
            lq_new_id := (if max a c < length hist then lq_new_id q else 1)\<rparr>, fs)"
  using assms by (rule queue_at_reopen)

definition demo_hist :: "LogEntry list" where
  "demo_hist = [LogEntry_new 1 ''a'' 10 CPU 5, LogEntry_new 2 ''b'' 11 MEM 6, LogEntry_new 3 ''a'' 12 DISK 7]"

definition demo_queue :: LogQueue where
  "demo_queue = \<lparr>lq_log_file = ''l'', lq_ack_file = ''k'', lq_ack_id = 1,
     lq_log_entries = drop 2 demo_hist, lq_new_id = 4\<rparr>"

definition demo_fs :: fsys where
  "demo_fs = empty_fsys\<lparr>files := [''l'' \<mapsto> concat (map serialize_str demo_hist), ''k'' \<mapsto> ''1'']\<rparr>"

lemma demo_queue_at: "queue_at demo_hist 2 1 0 demo_queue demo_fs"
proof -
  have "history demo_hist"
    by (simp add: history_def demo_hist_def LogEntry_new_def storable_def sendable_def upt_rec)
  moreover have "show_nat 1 = ''1''" by (simp add: show_nat.simps digit_chars)
  ultimately show ?thesis
    by (simp add: queue_at_def demo_queue_def demo_fs_def empty_fsys_def demo_hist_def)
qed

lemma queue_reopened_witness:
  "LogQueue_new 9 9 (LogEntry_new 9 [] 9 NET 9) ''l'' ''k'' demo_fs =
     Some (demo_queue\<lparr>lq_log_entries := drop 1 demo_hist\<rparr>, demo_fs)"
  using queue_reopened [OF demo_queue_at, of 9 9 "LogEntry_new 9 [] 9 NET 9"]
  by (simp add: demo_queue_def demo_hist_def)

text \<open>
  C12. An acknowledgement removes exactly the logs up to its id, however late it arrives, and goes
  into the ack file; the log file keeps them.
\<close>

theorem ack_removes_prefix:
  assumes "queue_at hist j a c q fs" and "i \<le> length hist"
  shows "lq_log_entries (fst (ack_log (of_nat i) q fs)) = drop (max j i) hist \<and>
    files (snd (ack_log (of_nat i) q fs)) (lq_ack_file q) = Some (show_nat i) \<and>
    files (snd (ack_log (of_nat i) q fs)) (lq_log_file q) = files fs (lq_log_file q)"
proof -
  have "lq_log_file (fst (ack_log (of_nat i) q fs)) = lq_log_file q"
    and "lq_ack_file (fst (ack_log (of_nat i) q fs)) = lq_ack_file q"
    by (simp_all add: ack_log_def Let_def)
  with queue_at_ack_log [OF assms] assms(1) show ?thesis by (simp add: queue_at_def)
qed

lemma ack_removes_prefix_witness:
  "lq_log_entries (fst (ack_log 3 demo_queue demo_fs)) = []"
  using ack_removes_prefix [OF demo_queue_at, of 3] by (simp add: demo_hist_def)

text \<open>
  C13. The destructor, with or without the clean-up of a log file above ten megabytes, keeps on disk
  every log that is not acknowledged: what the next run reads is the queue, up to logs acknowledged
  late.
\<close>

theorem destroy_then_reopen:
  assumes "queue_at hist j a c q fs" and "j < length hist"
  shows "\<exists>i \<le> j. LogQueue_new mem_ack num mem (lq_log_file q) (lq_ack_file q) (LogQueue_destroy q fs) =
    Some (q\<lparr>lq_log_entries := drop i hist\<rparr>, LogQueue_destroy q fs)"
proof -
  from queue_at_destroy [OF assms(1)] obtain c' where q: "queue_at hist j a c' q (LogQueue_destroy q fs)"
    by blast
  then have "max a c' \<le> j" by (simp add: queue_at_def)
  then show ?thesis
    using queue_at_reopen [OF q, of mem_ack num mem] assms(2)
    by (intro exI [of _ "max a c'"]) simp
qed

lemma destroy_then_reopen_witness:
  "\<exists>i \<le> 2. LogQueue_new 0 0 (LogEntry_new 9 [] 9 NET 9) ''l'' ''k'' (LogQueue_destroy demo_queue demo_fs) =
    Some (demo_queue\<lparr>lq_log_entries := drop i demo_hist\<rparr>, LogQueue_destroy demo_queue demo_fs)"
  using destroy_then_reopen [OF demo_queue_at, of 0 0 "LogEntry_new 9 [] 9 NET 9"]
  by (simp add: demo_queue_def demo_hist_def)

end
