(* ===== verification/Util.thy ===== *)
theory Util
  imports Std_Stream
begin

text \<open>
  \<^verbatim>\<open>src/common/util.hpp/.cpp\<close>: the decimal parser of the command lines and the reader of the last
  line of a log file. The clock and the progress bar are in \<open>Progress\<close>.
\<close>

section \<open>Decimal strings\<close>

definition INT_MAX :: int where "INT_MAX = 2 ^ 31 - 1"

text \<open>
  \<^verbatim>\<open>int\<close> arithmetic that leaves the range is undefined in C++. \<open>-1\<close> is the error result.
\<close>

fun str_to_int_loop :: "int \<Rightarrow> string \<Rightarrow> int result" where
  "str_to_int_loop ret [] = Inr ret"
| "str_to_int_loop ret (c # str) =
     (if is_digit c then
        (let ret' = ret * 10 + int (digit_val c)
         in if INT_MAX < ret' then Inl (Undefined ''signed overflow'') else str_to_int_loop ret' str)
      else Inr (- 1))"

definition str_to_int :: "string \<Rightarrow> int result" where
  "str_to_int str = str_to_int_loop 0 str"

lemma digit_val_le: "is_digit c \<Longrightarrow> digit_val c \<le> 9"
  by (auto simp: is_digit_def digit_val_def)

lemma foldl_digits:
  "foldl (\<lambda>a c. a * 10 + digit_val c) k ds = k * 10 ^ length ds + nat_of_digits ds"
proof (induction ds arbitrary: k)
  case Nil
  then show ?case by simp
next
  case (Cons d ds)
  have "nat_of_digits (d # ds) = digit_val d * 10 ^ length ds + nat_of_digits ds"
    using Cons [of "digit_val d"] by (simp add: nat_of_digits_def)
  then show ?case using Cons [of "k * 10 + digit_val d"] by (simp add: algebra_simps)
qed

lemma nat_of_digits_Cons: "nat_of_digits (d # ds) = digit_val d * 10 ^ length ds + nat_of_digits ds"
  using foldl_digits [of "digit_val d" ds] by (simp add: nat_of_digits_def)

lemma str_to_int_loop_digits:
  "list_all is_digit ds \<Longrightarrow> 0 \<le> k \<Longrightarrow> k \<le> INT_MAX \<Longrightarrow>
     str_to_int_loop k ds =
       (if k * 10 ^ length ds + int (nat_of_digits ds) \<le> INT_MAX
        then Inr (k * 10 ^ length ds + int (nat_of_digits ds))
        else Inl (Undefined ''signed overflow''))"
proof (induction ds arbitrary: k)
  case Nil
  then show ?case by simp
next
  case (Cons d ds)
  let ?k' = "k * 10 + int (digit_val d)"
  have eq: "?k' * 10 ^ length ds + int (nat_of_digits ds)
      = k * 10 ^ length (d # ds) + int (nat_of_digits (d # ds))"
    by (simp add: nat_of_digits_Cons algebra_simps)
  show ?case
  proof (cases "?k' \<le> INT_MAX")
    case True
    with Cons show ?thesis
      by (simp add: Let_def not_less eq [simplified])
  next
    case False
    then have "INT_MAX < ?k'" by simp
    also have "?k' = ?k' * 1" by simp
    also have "\<dots> \<le> ?k' * 10 ^ length ds"
      using Cons.prems(2) by (intro mult_left_mono) simp_all
    also have "\<dots> \<le> ?k' * 10 ^ length ds + int (nat_of_digits ds)" by simp
    finally have "\<not> k * 10 ^ length (d # ds) + int (nat_of_digits (d # ds)) \<le> INT_MAX"
      by (simp only: eq not_le)
    with Cons.prems False show ?thesis by (simp add: Let_def)
  qed
qed

lemma str_to_int_digits:
  "list_all is_digit s \<Longrightarrow>
     str_to_int s = (if int (nat_of_digits s) \<le> INT_MAX then Inr (int (nat_of_digits s))
                     else Inl (Undefined ''signed overflow''))"
  using str_to_int_loop_digits [of s 0] by (simp add: str_to_int_def INT_MAX_def)

lemma str_to_int_show_nat:
  "int n \<le> INT_MAX \<Longrightarrow> str_to_int (show_nat n) = Inr (int n)"
  by (simp add: str_to_int_digits show_nat_digits)

lemma str_to_int_loop_range:
  "str_to_int_loop k s = Inr r \<Longrightarrow> 0 \<le> k \<Longrightarrow> k \<le> INT_MAX \<Longrightarrow> - 1 \<le> r \<and> r \<le> INT_MAX"
  by (induction s arbitrary: k) (auto simp: Let_def INT_MAX_def split: if_splits)

lemma str_to_int_range: "str_to_int s = Inr r \<Longrightarrow> - 1 \<le> r \<and> r \<le> INT_MAX"
  using str_to_int_loop_range [of 0 s r] by (simp add: str_to_int_def INT_MAX_def)

lemma str_to_int_loop_error:
  "str_to_int_loop k s = Inr r \<Longrightarrow> 0 \<le> k \<Longrightarrow> (r = - 1 \<longleftrightarrow> \<not> list_all is_digit s)"
proof (induction s arbitrary: k)
  case Nil
  then show ?case by simp
next
  case (Cons c s)
  then show ?case by (auto simp: Let_def split: if_splits)
qed

section \<open>The last line of a file\<close>

text \<open>
  The file is read backwards. \<open>skip_newlines\<close> is the first loop: it returns the position it stops
  at. Positions stay below the length of the contents.
\<close>

fun skip_newlines :: "string \<Rightarrow> nat \<Rightarrow> nat" where
  "skip_newlines file 0 = 0"
| "skip_newlines file (Suc pos) =
     (let ch = file ! pos
      in if ch \<noteq> CHR 0x0A \<and> ch \<noteq> CHR 0x0D then pos else skip_newlines file pos)"

fun collect_reversed :: "string \<Rightarrow> nat \<Rightarrow> string \<Rightarrow> string" where
  "collect_reversed file pos rev' =
     (let ch = file ! pos
      in if ch = CHR 0x0A then rev'
         else let rev'' = (if ch \<noteq> CHR 0x0D then rev' @ [ch] else rev')
              in case pos of 0 \<Rightarrow> rev'' | Suc p \<Rightarrow> collect_reversed file p rev'')"

declare collect_reversed.simps [simp del]

definition get_last_line_of_file :: "fsys \<Rightarrow> string \<Rightarrow> string" where
  "get_last_line_of_file fs filename =
     (case open_in fs filename of
        None \<Rightarrow> []
      | Some file \<Rightarrow>
          let pos = length (inbuf file)
          in if pos = 0 then []
             else rev (collect_reversed (inbuf file) (skip_newlines (inbuf file) pos) []))"

definition no_cr :: "string \<Rightarrow> string" where
  "no_cr = filter (\<lambda>c. c \<noteq> CHR 0x0D)"

lemma skip_newlines_tail:
  "list_all (\<lambda>c. c = CHR 0x0A \<or> c = CHR 0x0D) tl' \<Longrightarrow> c \<noteq> CHR 0x0A \<Longrightarrow> c \<noteq> CHR 0x0D \<Longrightarrow>
     skip_newlines (xs @ c # tl' @ r) (Suc (length xs + length tl')) = length xs"
proof (induction tl' arbitrary: r rule: rev_induct)
  case Nil
  then show ?case by simp
next
  case (snoc t tl')
  have "(xs @ c # (tl' @ [t]) @ r) ! (Suc (length xs + length tl')) = t"
    by (simp add: nth_append)
  with snoc show ?case by (simp add: Let_def)
qed

lemma collect_reversed_step:
  assumes "file ! pos = c" and "c \<noteq> CHR 0x0A"
  shows "collect_reversed file pos acc =
     (case pos of 0 \<Rightarrow> acc @ no_cr [c] | Suc p \<Rightarrow> collect_reversed file p (acc @ no_cr [c]))"
  using assms by (subst collect_reversed.simps) (simp add: Let_def no_cr_def split: nat.split)

lemma collect_reversed_stop: "file ! pos = CHR 0x0A \<Longrightarrow> collect_reversed file pos acc = acc"
  by (subst collect_reversed.simps) (simp add: Let_def)

lemma collect_reversed_line:
  assumes "pre = [] \<or> last pre = CHR 0x0A"
  shows "line \<noteq> [] \<Longrightarrow> CHR 0x0A \<notin> set line \<Longrightarrow>
     collect_reversed (pre @ line @ r) (length pre + length line - 1) acc = acc @ rev (no_cr line)"
proof (induction line arbitrary: r acc rule: rev_induct)
  case Nil
  then show ?case by simp
next
  case (snoc c line)
  have c: "(pre @ (line @ [c]) @ r) ! (length pre + length line) = c"
    by (simp add: nth_append)
  have nl: "c \<noteq> CHR 0x0A" using snoc.prems by auto
  note step = collect_reversed_step [OF c nl, of acc]
  show ?case
  proof (cases "line = []")
    case True
    show ?thesis
    proof (cases pre rule: rev_cases)
      case Nil
      with True step show ?thesis by (simp add: no_cr_def)
    next
      case (snoc pre' p)
      with assms have "(pre @ (line @ [c]) @ r) ! length pre' = CHR 0x0A"
        by (simp add: nth_append)
      from collect_reversed_stop [OF this] step True snoc show ?thesis
        by (simp add: no_cr_def)
    qed
  next
    case False
    then have "length pre + length line = Suc (length pre + length line - 1)"
      by (cases line) auto
    with step have "collect_reversed (pre @ (line @ [c]) @ r) (length pre + length line) acc
        = collect_reversed (pre @ line @ c # r) (length pre + length line - 1) (acc @ no_cr [c])"
      by (metis (no_types, lifting) append.assoc append_Cons append_Nil nat.simps(5))
    with False snoc.prems snoc.IH [of "c # r" "acc @ no_cr [c]"] show ?thesis
      by (simp add: no_cr_def)
  qed
qed

lemma get_last_line:
  assumes "open_in fs f = Some (stream_of (pre @ line @ tl'))"
    and "line \<noteq> []" and "CHR 0x0A \<notin> set line" and "last line \<noteq> CHR 0x0D"
    and "pre = [] \<or> last pre = CHR 0x0A"
    and "list_all (\<lambda>c. c = CHR 0x0A \<or> c = CHR 0x0D) tl'"
  shows "get_last_line_of_file fs f = no_cr line"
proof -
  from assms(2) obtain l c where l: "line = l @ [c]" by (cases line rule: rev_cases) auto
  with assms(3,4) have "c \<noteq> CHR 0x0A" "c \<noteq> CHR 0x0D" by auto
  from skip_newlines_tail [OF assms(6) this, of "pre @ l" "[]"]
  have "skip_newlines (pre @ line @ tl') (length (pre @ line @ tl')) = length pre + length line - 1"
    by (simp add: l add.assoc del: skip_newlines.simps)
  then show ?thesis
    using assms(1) collect_reversed_line [OF assms(5,2,3), of tl' "[]"] assms(2)
    by (simp add: get_last_line_of_file_def Let_def)
qed

lemma get_last_line_empty:
  "open_in fs f = None \<or> open_in fs f = Some (stream_of []) \<Longrightarrow> get_last_line_of_file fs f = []"
  by (auto simp: get_last_line_of_file_def)

section \<open>Properties\<close>

text \<open>
  The decimal parser: a string of digits gives its value as long as that is an \<^verbatim>\<open>int\<close> and
  overflows beyond, any result is at least \<open>-1\<close>, and \<open>-1\<close> is exactly the answer to a string with
  another character. The empty string counts as 0.
\<close>

lemma str_to_int_spec:
  "(list_all is_digit s \<longrightarrow>
      str_to_int s = (if int (nat_of_digits s) \<le> INT_MAX then Inr (int (nat_of_digits s))
                      else Inl (Undefined ''signed overflow''))) \<and>
   (\<forall>r. str_to_int s = Inr r \<longrightarrow> - 1 \<le> r \<and> r \<le> INT_MAX \<and> (r = - 1 \<longleftrightarrow> \<not> list_all is_digit s))"
proof (intro conjI impI allI)
  fix r assume r: "str_to_int s = Inr r"
  show "r = - 1 \<longleftrightarrow> \<not> list_all is_digit s"
    using str_to_int_loop_error [of 0 s r] r by (simp add: str_to_int_def)
qed (simp_all only: str_to_int_digits str_to_int_range)

lemma str_to_int_spec_witness: "str_to_int ''8080'' = Inr 8080"
proof -
  have "list_all is_digit ''8080''" "nat_of_digits ''8080'' = 8080"
    by (simp_all add: is_digit_def nat_of_digits_def digit_val_def)
  then show ?thesis
    using str_to_int_spec [of "''8080''"] by (simp add: INT_MAX_def)
qed

text \<open>
  The reader of the last line finds it behind any number of earlier lines and before any run
  of line breaks, without its carriage returns.
\<close>

lemma last_line_found:
  assumes "open_in fs f = Some (stream_of (pre @ line @ breaks))"
    and "line \<noteq> []" and "CHR 0x0A \<notin> set line" and "last line \<noteq> CHR 0x0D"
    and "pre = [] \<or> last pre = CHR 0x0A"
    and "list_all (\<lambda>c. c = CHR 0x0A \<or> c = CHR 0x0D) breaks"
  shows "get_last_line_of_file fs f = no_cr line"
  using assms by (rule get_last_line)

lemma last_line_found_witness:
  "get_last_line_of_file
     (empty_fsys\<lparr>files := [''f'' \<mapsto> [CHR ''a'', CHR 0x0A, CHR ''b'', CHR ''c'', CHR 0x0D, CHR 0x0A]]\<rparr>)
     ''f'' = ''bc''"
  using last_line_found [of "empty_fsys\<lparr>files := [''f'' \<mapsto> [CHR ''a'', CHR 0x0A, CHR ''b'', CHR ''c'', CHR 0x0D, CHR 0x0A]]\<rparr>"
      "''f''" "[CHR ''a'', CHR 0x0A]" "''bc''" "[CHR 0x0D, CHR 0x0A]"]
  by (simp add: open_in_def empty_fsys_def no_cr_def)

end
