(* ===== verification/Messages.thy ===== *)
theory Messages
  imports Serializable
begin

text \<open>
  The socket half of \<^verbatim>\<open>src/common/serializable.cpp\<close>: \<^verbatim>\<open>send_exact\<close>, \<^verbatim>\<open>recv_exact\<close> and the
  length-prefixed messages. The system calls are parameters over a state \<open>'k\<close> of the kernel:
  \<open>send k data\<close> returns the count and the new state, \<open>recv k n\<close> the count, the bytes it stored and
  the new state. A call that throws still leaves the bytes it moved.
\<close>

section \<open>Sending\<close>

type_synonym 'k send_call = "'k \<Rightarrow> string \<Rightarrow> int \<times> 'k"
type_synonym 'k recv_call = "'k \<Rightarrow> nat \<Rightarrow> int \<times> string \<times> 'k"

abbreviation send_failed :: exn where "send_failed \<equiv> Runtime_error ''send failed''"
abbreviation recv_failed :: exn where "recv_failed \<equiv> Runtime_error ''recv failed''"

function send_loop :: "'k send_call \<Rightarrow> string \<Rightarrow> nat \<Rightarrow> 'k \<Rightarrow> unit result \<times> 'k" where
  "send_loop send data total_sent k =
     (if total_sent < length data then
        (case send k (drop total_sent data) of
           (sent, k') \<Rightarrow>
             if sent \<le> 0 then (Inl send_failed, k')
             else send_loop send data (total_sent + nat sent) k')
      else (Inr (), k))"
  by pat_completeness auto
termination
  by (relation "measure (\<lambda>(send, data, total_sent, k). length data - total_sent)") auto

declare send_loop.simps [simp del]

definition send_exact :: "'k send_call \<Rightarrow> string \<Rightarrow> 'k \<Rightarrow> unit result \<times> 'k" where
  "send_exact send data k = send_loop send data 0 k"

definition send_message :: "'k send_call \<Rightarrow> string \<Rightarrow> 'k \<Rightarrow> unit result \<times> 'k" where
  "send_message send payload k =
     (let size = of_nat (length payload); net_size = swap_endian32 size
      in case send_exact send (mem_bytes 4 net_size) k of
           (Inl e, k') \<Rightarrow> (Inl e, k')
         | (Inr _, k') \<Rightarrow> send_exact send payload k')"

section \<open>Receiving\<close>

text \<open>\<open>recv\<close> stores its bytes at the position reached in the buffer.\<close>

definition store_at :: "string \<Rightarrow> nat \<Rightarrow> string \<Rightarrow> string" where
  "store_at buffer pos data = take pos buffer @ data @ drop (pos + length data) buffer"

function recv_loop :: "'k recv_call \<Rightarrow> string \<Rightarrow> nat \<Rightarrow> nat \<Rightarrow> 'k \<Rightarrow> string result \<times> 'k" where
  "recv_loop recv buffer sz total_received k =
     (if total_received < sz then
        (case recv k (sz - total_received) of
           (received, data, k') \<Rightarrow>
             if received \<le> 0 then (Inl recv_failed, k')
             else recv_loop recv (store_at buffer total_received data) sz
                    (total_received + nat received) k')
      else (Inr buffer, k))"
  by pat_completeness auto
termination
  by (relation "measure (\<lambda>(recv, buffer, sz, total_received, k). sz - total_received)") auto

declare recv_loop.simps [simp del]

definition recv_exact :: "'k recv_call \<Rightarrow> string \<Rightarrow> nat \<Rightarrow> 'k \<Rightarrow> string result \<times> 'k" where
  "recv_exact recv buffer sz k = recv_loop recv buffer sz 0 k"

definition recv_message :: "'k recv_call \<Rightarrow> 'k \<Rightarrow> string result \<times> 'k" where
  "recv_message recv k =
     (case recv_exact recv (replicate 4 (CHR 0x00)) 4 k of
        (Inl e, k') \<Rightarrow> (Inl e, k')
      | (Inr net_size, k') \<Rightarrow>
          let size = swap_endian32 (load_bytes net_size)
          in recv_exact recv (replicate (unat size) (CHR 0x00)) (unat size) k')"

section \<open>What the system calls promise\<close>

text \<open>
  \<open>sent k\<close> is all the kernel has accepted for the peer: \<^verbatim>\<open>send\<close> accepts a prefix of its data of the
  length it returns, and nothing when it fails.
\<close>

definition send_contract :: "('k \<Rightarrow> string) \<Rightarrow> 'k send_call \<Rightarrow> bool" where
  "send_contract sent send \<longleftrightarrow>
     (\<forall>k data n k'. send k data = (n, k') \<longrightarrow>
        n \<le> int (length data) \<and> sent k' = sent k @ take (nat n) data)"

text \<open>
  \<open>pending k\<close> is what the peer has sent and the program has not read: \<^verbatim>\<open>recv\<close> hands out a nonempty
  piece of it, in order, and takes nothing when it fails.
\<close>

definition recv_contract :: "('k \<Rightarrow> string) \<Rightarrow> 'k recv_call \<Rightarrow> bool" where
  "recv_contract pending recv \<longleftrightarrow>
     (\<forall>k sz n data k'. recv k sz = (n, data, k') \<longrightarrow>
        (0 < n \<longrightarrow> n \<le> int sz \<and> length data = nat n \<and> pending k = data @ pending k') \<and>
        (n \<le> 0 \<longrightarrow> pending k' = pending k))"

text \<open>A connection that stays up: \<^verbatim>\<open>recv\<close> succeeds as long as data is pending.\<close>

definition recv_live :: "('k \<Rightarrow> string) \<Rightarrow> 'k recv_call \<Rightarrow> bool" where
  "recv_live pending recv \<longleftrightarrow>
     (\<forall>k sz. pending k \<noteq> [] \<longrightarrow> 0 < sz \<longrightarrow> 0 < fst (recv k sz))"

definition frame :: "string \<Rightarrow> string" where
  "frame payload = write_uint32 (of_nat (length payload)) @ payload"

text \<open>Whatever happens, what went out is a prefix of the data; all of it exactly on success.\<close>

lemma send_loop_sent:
  "send_contract sent send \<Longrightarrow> send_loop send data tot k = (r, k') \<Longrightarrow>
     \<exists>m. sent k' = sent k @ take m (drop tot data) \<and>
         (r = Inr () \<longrightarrow> sent k' = sent k @ drop tot data) \<and> (r = Inr () \<or> r = Inl send_failed)"
proof (induction send data tot k arbitrary: r k' rule: send_loop.induct)
  case (1 send data tot k)
  show ?case
  proof (cases "tot < length data")
    case False
    with "1.prems"(2) show ?thesis
      by (simp add: send_loop.simps [of send data tot k])
  next
    case True
    obtain n k1 where s: "send k (drop tot data) = (n, k1)" by (cases "send k (drop tot data)")
    have step: "sent k1 = sent k @ take (nat n) (drop tot data)"
      using "1.prems"(1) s unfolding send_contract_def by blast
    show ?thesis
    proof (cases "n \<le> 0")
      case n: True
      with "1.prems"(2) True s have "r = Inl send_failed" "k' = k1"
        by (simp_all add: send_loop.simps [of send data tot k])
      with step show ?thesis by (intro exI [of _ "nat n"]) simp
    next
      case n: False
      with "1.prems"(2) True s have "send_loop send data (tot + nat n) k1 = (r, k')"
        by (simp add: send_loop.simps [of send data tot k])
      with "1.IH" [OF True s [symmetric] n "1.prems"(1)] obtain m where
        m: "sent k' = sent k1 @ take m (drop (tot + nat n) data)"
           "r = Inr () \<longrightarrow> sent k' = sent k1 @ drop (tot + nat n) data"
           "r = Inr () \<or> r = Inl send_failed"
        by blast
      have "take (nat n) (drop tot data) @ drop (tot + nat n) data = drop tot data"
        by (metis add.commute append_take_drop_id drop_drop)
      moreover have "take (nat n) (drop tot data) @ take m (drop (tot + nat n) data)
          = take (nat n + m) (drop tot data)"
        by (simp only: take_add drop_drop add.commute [of tot])
      ultimately show ?thesis
        using m step by (intro exI [of _ "nat n + m"]) simp
    qed
  qed
qed

lemma send_exact_sent:
  assumes "send_contract sent send" and "send_exact send data k = (r, k')"
  shows "\<exists>m. sent k' = sent k @ take m data"
    and "r = Inr () \<Longrightarrow> sent k' = sent k @ data"
  using send_loop_sent [OF assms(1), of data 0 k r k'] assms(2) by (auto simp: send_exact_def)

lemma store_at_progress:
  assumes "length buffer = sz" and "take pos buffer = got" and "length got = pos"
    and "pos + length data \<le> sz"
  shows "length (store_at buffer pos data) = sz"
    and "take (pos + length data) (store_at buffer pos data) = got @ data"
  using assms by (auto simp: store_at_def)

lemma recv_loop_got:
  "recv_contract pending recv \<Longrightarrow> recv_live pending recv \<Longrightarrow>
     length buffer = sz \<Longrightarrow> take tot buffer = got \<Longrightarrow> length got = tot \<Longrightarrow>
     pending k = want @ rest \<Longrightarrow> length want = sz - tot \<Longrightarrow> tot \<le> sz \<Longrightarrow>
     \<exists>k'. recv_loop recv buffer sz tot k = (Inr (got @ want), k') \<and> pending k' = rest"
proof (induction recv buffer sz tot k arbitrary: got want rule: recv_loop.induct)
  case (1 recv buffer sz tot k)
  show ?case
  proof (cases "tot < sz")
    case False
    with "1.prems" show ?thesis by (simp add: recv_loop.simps [of recv got sz sz k])
  next
    case True
    obtain n data k1 where s: "recv k (sz - tot) = (n, data, k1)"
      by (cases "recv k (sz - tot)") auto
    have "pending k \<noteq> []" using "1.prems" True by auto
    then have n: "0 < n"
      using "1.prems"(2) True s unfolding recv_live_def by (metis fst_conv zero_less_diff)
    then have d: "length data = nat n" "n \<le> int (sz - tot)" "pending k = data @ pending k1"
      using "1.prems"(1) s unfolding recv_contract_def by blast+
    then have le: "length data \<le> length want" using "1.prems"(7) by simp
    define want' where "want' = drop (length data) want"
    have w: "want = data @ want'" and p1: "pending k1 = want' @ rest"
      using d(3) "1.prems"(6) le unfolding want'_def
      by (metis append_eq_append_conv_if append_take_drop_id)+
    have le2: "tot + length data \<le> sz" using le "1.prems"(7,8) by simp
    note store = store_at_progress [OF "1.prems"(3,4,5) le2]
    have "\<exists>k'. recv_loop recv (store_at buffer tot data) sz (tot + nat n) k1
        = (Inr ((got @ data) @ want'), k') \<and> pending k' = rest"
    proof (rule "1.IH" [OF True s [symmetric] refl])
      show "\<not> n \<le> 0" using n by simp
    qed (use "1.prems" store d le2 p1 w in auto)
    with True s n w show ?thesis by (simp add: recv_loop.simps [of recv buffer sz tot k])
  qed
qed

lemma recv_exact_got:
  assumes "recv_contract pending recv" and "recv_live pending recv"
    and "pending k = want @ rest" and "length want = n" and "length buffer = n"
  shows "\<exists>k'. recv_exact recv buffer n k = (Inr want, k') \<and> pending k' = rest"
  using recv_loop_got [OF assms(1,2,5), of 0 "[]" k want rest] assms(3,4)
  by (simp add: recv_exact_def)

section \<open>Messages\<close>

lemma send_message_frame:
  assumes "send_contract sent send" and "send_message send payload k = (r, k')"
  shows "r = Inr () \<Longrightarrow> sent k' = sent k @ frame payload"
    and "\<exists>m. sent k' = sent k @ take m (frame payload)"
proof -
  let ?h = "write_uint32 (of_nat (length payload))"
  obtain r1 k1 where h: "send_exact send ?h k = (r1, k1)" by (cases "send_exact send ?h k")
  note header = send_exact_sent [OF assms(1) h]
  have "(r = Inr () \<longrightarrow> sent k' = sent k @ frame payload) \<and>
      (\<exists>m. sent k' = sent k @ take m (frame payload))"
  proof (cases r1)
    case (Inl e)
    with assms(2) h have "r = Inl e" "k' = k1"
      by (simp_all add: send_message_def write_uint32_def Let_def)
    moreover obtain m where "sent k1 = sent k @ take m ?h" using header(1) by blast
    moreover have "take m ?h = take (min m 4) (frame payload)"
      by (simp add: frame_def min_def)
    ultimately show ?thesis by auto
  next
    case (Inr u)
    with assms(2) h have p: "send_exact send payload k1 = (r, k')"
      by (simp add: send_message_def write_uint32_def Let_def)
    obtain m where "sent k' = sent k1 @ take m payload"
      using send_exact_sent(1) [OF assms(1) p] by blast
    moreover have "sent k1 = sent k @ ?h" using header(2) Inr by simp
    moreover have "?h @ take m payload = take (4 + m) (frame payload)"
      by (simp add: frame_def)
    ultimately have "sent k' = sent k @ take (4 + m) (frame payload)" by simp
    moreover have "r = Inr () \<longrightarrow> sent k' = sent k @ frame payload"
      using send_exact_sent(2) [OF assms(1) p] \<open>sent k1 = sent k @ ?h\<close>
      by (simp add: frame_def)
    ultimately show ?thesis by blast
  qed
  then show "r = Inr () \<Longrightarrow> sent k' = sent k @ frame payload"
    and "\<exists>m. sent k' = sent k @ take m (frame payload)" by blast+
qed

lemma recv_message_frame:
  assumes "recv_contract pending recv" and "recv_live pending recv"
    and "pending k = frame payload @ rest" and len: "length payload < 2 ^ 32"
  shows "\<exists>k'. recv_message recv k = (Inr payload, k') \<and> pending k' = rest"
proof -
  let ?h = "write_uint32 (of_nat (length payload))"
  have "pending k = ?h @ (payload @ rest)" using assms(3) by (simp add: frame_def)
  then obtain k1 where h: "recv_exact recv (replicate 4 (CHR 0x00)) 4 k = (Inr ?h, k1)"
    and p: "pending k1 = payload @ rest"
    using recv_exact_got [OF assms(1,2), of k ?h "payload @ rest" 4 "replicate 4 (CHR 0x00)"]
    by auto
  have "unat (swap_endian32 (load_bytes ?h)) = length payload"
    by (simp add: write_uint32_def unat_of_nat_u32 [OF len] del: of_nat_mult)
  moreover obtain k2 where
    "recv_exact recv (replicate (length payload) (CHR 0x00)) (length payload) k1 = (Inr payload, k2)"
    "pending k2 = rest"
    using recv_exact_got [OF assms(1,2) p refl, of "replicate (length payload) (CHR 0x00)"] by auto
  ultimately show ?thesis by (simp add: recv_message_def h Let_def)
qed

text \<open>Reading a number of messages one after the other.\<close>

fun recv_messages :: "'k recv_call \<Rightarrow> nat \<Rightarrow> 'k \<Rightarrow> string list result \<times> 'k" where
  "recv_messages recv 0 k = (Inr [], k)"
| "recv_messages recv (Suc n) k =
     (case recv_message recv k of
        (Inl e, k') \<Rightarrow> (Inl e, k')
      | (Inr m, k') \<Rightarrow> (case recv_messages recv n k' of
                         (Inl e, k'') \<Rightarrow> (Inl e, k'')
                       | (Inr ms, k'') \<Rightarrow> (Inr (m # ms), k'')))"

lemma recv_messages_frames:
  assumes "recv_contract pending recv" and "recv_live pending recv"
  shows "pending k = concat (map frame ms) @ rest \<Longrightarrow> \<forall>m \<in> set ms. length m < 2 ^ 32 \<Longrightarrow>
     \<exists>k'. recv_messages recv (length ms) k = (Inr ms, k') \<and> pending k' = rest"
proof (induction ms arbitrary: k)
  case Nil
  then show ?case by simp
next
  case (Cons m ms)
  then obtain k1 where m: "recv_message recv k = (Inr m, k1)"
    and p: "pending k1 = concat (map frame ms) @ rest"
    using recv_message_frame [OF assms, of k m "concat (map frame ms) @ rest"] by auto
  with Cons.IH [OF p] Cons.prems(2) show ?case by auto
qed

section \<open>A pipe\<close>

text \<open>
  A connection for the witnesses: the bytes in flight, delivered in pieces of at most \<open>cap\<close> bytes.
\<close>

record pipe =
  cap :: nat
  flight :: string

definition pipe_send :: "pipe send_call" where
  "pipe_send k data =
     (let n = min (cap k) (length data) in (int n, k\<lparr>flight := flight k @ take n data\<rparr>))"

definition pipe_recv :: "pipe recv_call" where
  "pipe_recv k n =
     (let m = min (Suc (cap k)) (min n (length (flight k)))
      in (int m, take m (flight k), k\<lparr>flight := drop m (flight k)\<rparr>))"

lemma pipe_contracts:
  "send_contract flight pipe_send" "recv_contract flight pipe_recv" "recv_live flight pipe_recv"
  by (auto simp: send_contract_def recv_contract_def recv_live_def pipe_send_def pipe_recv_def
      Let_def min_def split: if_splits)

end
