(* ===== verification/Client_Handler.thy ===== *)
theory Client_Handler
  imports Wire Util Event_Bus Messages
begin

text \<open>
  \<^verbatim>\<open>src/server/client_handler.hpp/.cpp\<close>: what the server does for one client. It appends the logs
  it receives to the client's log file as long as their ids continue the file, and answers with
  the last id it holds.
\<close>

record ClientInfo =
  ci_client_id :: int
  ci_client_socket :: int
  ci_client_ip :: string
  ci_client_port :: u16

definition ClientInfo_new :: "int \<Rightarrow> int \<Rightarrow> string \<Rightarrow> u16 \<Rightarrow> ClientInfo" where
  "ClientInfo_new n_client_id n_client_socket n_client_ip n_client_port =
     \<lparr>ci_client_id = n_client_id, ci_client_socket = n_client_socket,
      ci_client_ip = n_client_ip, ci_client_port = n_client_port\<rparr>"

section \<open>Receiving logs\<close>

definition client_log_file :: "ClientInfo \<Rightarrow> string" where
  "client_log_file info = ''client-log-'' @ ci_client_ip info @ ''.txt''"

definition last_acked :: "indeterminate \<Rightarrow> string \<Rightarrow> fsys \<Rightarrow> u64" where
  "last_acked env log_file fs =
     (let last_line = get_last_line_of_file fs log_file
      in if last_line \<noteq> [] then
           (case deserialize_str (in_num env) (LogEntry_default (in_entry env)) (stream_of last_line) of
              (_, log_entry, _) \<Rightarrow> le_id log_entry)
         else 0)"

text \<open>The loop over the received entries: the last id it accepts and the text it writes.\<close>

fun accept_entries :: "u64 \<Rightarrow> LogEntry list \<Rightarrow> u64 \<times> string" where
  "accept_entries last_acked_id [] = (last_acked_id, [])"
| "accept_entries last_acked_id (log_entry # log_entries) =
     (if le_id log_entry = last_acked_id + 1
      then (case accept_entries (last_acked_id + 1) log_entries of
              (acked, out) \<Rightarrow> (acked, serialize_str log_entry @ out))
      else accept_entries last_acked_id log_entries)"

text \<open>
  The result is the event its last statement publishes; \<open>None\<close> when the log file cannot be opened.
\<close>

definition handle_recv_log ::
  "indeterminate \<Rightarrow> ClientInfo \<Rightarrow> istream \<Rightarrow> fsys \<Rightarrow> Event option result \<times> fsys" where
  "handle_recv_log env info iss fs =
     (let log_file = client_log_file info;
          last_acked_id = last_acked env log_file fs
      in case read_vector_serializeable (in_count env) deserialize iss of
           Inl e \<Rightarrow> (Inl e, fs)
         | Inr (log_entries, _) \<Rightarrow>
             (case open_app fs log_file of
                None \<Rightarrow> (Inr None, fs)
              | Some fs1 \<Rightarrow>
                  (case accept_entries last_acked_id log_entries of
                     (last_acked_id', out) \<Rightarrow>
                       let fs2 = write_file fs1 log_file out
                       in (bindR (ack_payload last_acked_id') (\<lambda>payload.
                             Inr (Some (NetworkSendEvent (ci_client_ip info) (ci_client_port info)
                                          payload))),
                           fs2))))"

section \<open>The receiving thread\<close>

text \<open>
  \<^verbatim>\<open>recv_input_from_client\<close> against the results of its calls of \<^verbatim>\<open>recv_message\<close>: \<open>handle\<close> is the
  publication of the received message, which may throw as well. The thread ends when the failures
  since the last handled message exceed ten (first component \<open>True\<close>); an undefined step is not
  caught. \<open>False\<close>: the given results are used up and the thread still runs.
\<close>

definition max_tries :: nat where "max_tries = 10"

fun recv_input_from_client ::
  "(string \<Rightarrow> 's \<Rightarrow> unit result \<times> 's) \<Rightarrow> string result list \<Rightarrow> nat \<Rightarrow> 's \<Rightarrow> bool result \<times> 's" where
  "recv_input_from_client handle [] count_fail s = (Inr False, s)"
| "recv_input_from_client handle (Inr message # rs) count_fail s =
     (if message = [] then recv_input_from_client handle rs count_fail s
      else case handle message s of
             (Inr _, s') \<Rightarrow> recv_input_from_client handle rs 0 s'
           | (Inl e, s') \<Rightarrow>
               if \<not> is_std_exception e then (Inl e, s')
               else if max_tries < Suc count_fail then (Inr True, s')
               else recv_input_from_client handle rs (Suc count_fail) s')"
| "recv_input_from_client handle (Inl e # rs) count_fail s =
     (if \<not> is_std_exception e then (Inl e, s)
      else if max_tries < Suc count_fail then (Inr True, s)
      else recv_input_from_client handle rs (Suc count_fail) s)"

lemma recv_input_failures:
  "list_all (\<lambda>r. \<exists>e. r = Inl e \<and> is_std_exception e) rs \<Longrightarrow> c \<le> max_tries \<Longrightarrow>
     recv_input_from_client handle rs c s = (Inr (max_tries < c + length rs), s)"
  by (induction rs arbitrary: c) (auto simp: max_tries_def)

section \<open>What is accepted\<close>

text \<open>
  A batch \<open>es\<close> whose ids run from \<open>a + 1\<close> on is, for a server that holds the ids up to \<open>k\<close> with
  \<open>a \<le> k\<close>, the part it has and the part that is new.
\<close>

lemma accept_entries_skip:
  "list_all (\<lambda>e. unat (le_id e) \<le> unat k) es \<Longrightarrow> unat k + 1 < 2 ^ 64 \<Longrightarrow>
     accept_entries k (es @ fs) = accept_entries k fs"
proof (induction es)
  case Nil
  then show ?case by simp
next
  case (Cons e es)
  have "unat (k + 1) = unat k + 1" using Cons.prems(2) by (simp add: unat_word_ariths)
  with Cons show ?case by auto
qed

lemma accept_entries_run:
  "ids es = [unat k + 1..<unat k + 1 + length es] \<Longrightarrow>
     unat k + length es < 2 ^ 64 \<Longrightarrow>
     accept_entries k es = (k + of_nat (length es), concat (map serialize_str es))"
proof (induction es arbitrary: k)
  case Nil
  then show ?case by simp
next
  case (Cons e es)
  have k1: "unat (k + 1) = unat k + 1" using Cons.prems(2) by (simp add: unat_word_ariths)
  have "unat (le_id e) = unat k + 1"
    and rest: "ids es = [unat k + 2..<unat k + 2 + length es]"
    using Cons.prems(1) upt_conv_Cons [of "unat k + 1" "unat k + 1 + length (e # es)"]
    by (auto simp del: upt_Suc)
  then have "le_id e = k + 1" using k1 by (simp add: word_unat_eq_iff)
  with Cons.IH [of "k + 1"] Cons.prems(2) k1 rest show ?case
    by (simp add: algebra_simps)
qed

lemma accept_entries_batch:
  assumes es: "ids es = [a + 1..<a + 1 + length es]"
    and "a \<le> unat k" and "a + length es < 2 ^ 64" and "unat k + 1 < 2 ^ 64"
  shows "accept_entries k es =
    (of_nat (max (unat k) (a + length es)), concat (map serialize_str (drop (unat k - a) es)))"
proof -
  let ?m = "unat k - a"
  have old: "list_all (\<lambda>e. unat (le_id e) \<le> unat k) (take ?m es)"
    unfolding list_all_length
  proof (intro allI impI)
    fix i assume i: "i < length (take ?m es)"
    then have "unat (le_id (es ! i)) = a + 1 + i"
      using arg_cong [OF es, of "\<lambda>xs. xs ! i"] by (simp add: ids_def del: upt_Suc)
    with i assms(2) show "unat (le_id (take ?m es ! i)) \<le> unat k" by auto
  qed
  have "ids (drop ?m es) = drop ?m [a + 1..<a + 1 + length es]"
    by (simp only: ids_take_drop es)
  also have "\<dots> = [unat k + 1..<a + 1 + length es]" using assms(2) by (simp del: upt_Suc)
  finally have new: "ids (drop ?m es) = [unat k + 1..<a + 1 + length es]" .
  have "accept_entries k es = accept_entries k (drop ?m es)"
    using accept_entries_skip [OF old assms(4), of "drop ?m es"] by simp
  also have "\<dots> = (k + of_nat (length (drop ?m es)), concat (map serialize_str (drop ?m es)))"
  proof (cases "?m \<le> length es")
    case True
    then show ?thesis
      using new assms(2,3) by (intro accept_entries_run) (auto simp: algebra_simps)
  next
    case False
    then show ?thesis by simp
  qed
  also have "k + of_nat (length (drop ?m es)) = of_nat (max (unat k) (a + length es))"
  proof (cases "a + length es \<le> unat k")
    case True
    then show ?thesis by (simp add: max_def)
  next
    case False
    then have "unat k + length (drop ?m es) = a + length es" using assms(2) by simp
    then have "of_nat (unat k) + of_nat (length (drop ?m es)) = (of_nat (a + length es) :: u64)"
      by (metis of_nat_add)
    with False show ?thesis by (simp add: max_def)
  qed
  finally show ?thesis .
qed

section \<open>The log file of a client\<close>

text \<open>The file holds \<open>es\<close>: nothing yet, or the text of the entries.\<close>

definition holds_logs :: "string \<Rightarrow> fsys \<Rightarrow> LogEntry list \<Rightarrow> bool" where
  "holds_logs f fs es \<longleftrightarrow>
     \<not> no_read fs f \<and> list_all storable es \<and>
     (files fs f = Some (concat (map serialize_str es)) \<or> files fs f = None \<and> es = [])"

lemma from_chars_id_line:
  assumes "bar \<notin> set xs" and "newline \<notin> set (xs @ bar # r)"
  shows "le_id (fst (snd (deserialize_str num this (stream_of (xs @ bar # r)))))
    = from_chars xs (le_id this)"
  using assms by (simp add: deserialize_str_def getline_last getline_delim Let_def
      case_prod_beta del: set_append)

lemma no_cr_entry_line:
  "no_cr (entry_line e) = show_nat (unat (le_id e)) @ bar #
     no_cr (le_process_name e @ bar # show_nat (unat (le_timestamp_ms e)) @ bar #
       show_nat (unat (u32_of_LogType (le_log_type e))) @ bar # show_nat (unat (le_value e)))"
proof -
  have "no_cr (show_nat n) = show_nat n" for n
    using not_in_show_nat [of "CHR 0x0D" n] by (simp add: no_cr_def filter_id_conv) metis
  then show ?thesis by (simp add: entry_line_def no_cr_def)
qed

lemma last_acked_holds:
  assumes "holds_logs f fs es"
  shows "last_acked env f fs = (if es = [] then 0 else le_id (last es))"
proof (cases es rule: rev_cases)
  case Nil
  with assms have "open_in fs f = None \<or> open_in fs f = Some (stream_of [])"
    by (auto simp: holds_logs_def open_in_def)
  then show ?thesis using Nil by (simp add: last_acked_def get_last_line_empty)
next
  case (snoc es' e)
  let ?pre = "concat (map serialize_str es')"
  have st: "storable e" using assms snoc by (simp add: holds_logs_def)
  then have nl: "newline \<notin> set (entry_line e)"
    by (simp add: newline_notin_entry_line storable_def)
  have pre: "?pre = [] \<or> last ?pre = newline"
    by (cases es' rule: rev_cases) (simp_all add: serialize_str_line)
  have digit: "is_digit (last (entry_line e))"
  proof -
    have "last (entry_line e) = last (show_nat (unat (le_value e)))"
      by (simp add: entry_line_def)
    moreover have "last (show_nat (unat (le_value e))) \<in> set (show_nat (unat (le_value e)))"
      by (rule last_in_set) simp
    ultimately show ?thesis
      using show_nat_digits [of "unat (le_value e)"] by (auto simp: list_all_iff)
  qed
  have "open_in fs f = Some (stream_of (?pre @ entry_line e @ [newline]))"
    using assms snoc by (auto simp: holds_logs_def open_in_def serialize_str_line)
  moreover have "last (entry_line e) \<noteq> CHR 0x0D" using digit separators_not_digit(3) by metis
  ultimately have line: "get_last_line_of_file fs f = no_cr (entry_line e)"
    using get_last_line [OF _ entry_line_nonempty nl _ pre, of fs f "[newline]"] by simp
  have "newline \<notin> set (no_cr (entry_line e))" using nl by (simp add: no_cr_def)
  then show ?thesis
    using snoc from_chars_id_line [OF not_in_show_nat [of bar "unat (le_id e)"]]
    by (simp add: last_acked_def line no_cr_entry_line Let_def case_prod_beta)
qed

text \<open>Whatever arrives, what is accepted continues the ids, in order and without a gap.\<close>

lemma accept_entries_any:
  "unat k + length es < 2 ^ 64 \<Longrightarrow>
     \<exists>acc. accept_entries k es = (k + of_nat (length acc), concat (map serialize_str acc)) \<and>
           ids acc = [unat k + 1..<unat k + 1 + length acc] \<and> set acc \<subseteq> set es \<and>
           length acc \<le> length es"
proof (induction es arbitrary: k)
  case Nil
  show ?case by (rule exI [of _ "[]"]) simp
next
  case (Cons e es)
  show ?case
  proof (cases "le_id e = k + 1")
    case True
    have k1: "unat (k + 1) = unat k + 1" using Cons.prems by (simp add: unat_word_ariths)
    then obtain acc where acc:
      "accept_entries (k + 1) es = (k + 1 + of_nat (length acc), concat (map serialize_str acc))"
      "ids acc = [unat k + 2..<unat k + 2 + length acc]" "set acc \<subseteq> set es"
      "length acc \<le> length es"
      using Cons.IH [of "k + 1"] Cons.prems by auto
    have "ids (e # acc) = [unat k + 1..<unat k + 1 + length (e # acc)]"
      using acc(2) True k1 by (simp add: upt_conv_Cons del: upt_Suc)
    with acc True show ?thesis
      by (intro exI [of _ "e # acc"]) (auto simp: algebra_simps simp del: ids_simps)
  next
    case False
    obtain acc where
      "accept_entries k es = (k + of_nat (length acc), concat (map serialize_str acc))"
      "ids acc = [unat k + 1..<unat k + 1 + length acc]" "set acc \<subseteq> set es"
      "length acc \<le> length es"
      using Cons.IH [of k] Cons.prems by auto
    with False show ?thesis by (intro exI [of _ acc]) auto
  qed
qed

section \<open>Handling a batch\<close>

lemma holds_logs_write:
  assumes "holds_logs f fs es" and "\<not> no_write fs f" and "list_all storable new"
  obtains fs1 where "open_app fs f = Some fs1"
    and "holds_logs f (write_file fs1 f (concat (map serialize_str new))) (es @ new)"
    and "\<not> no_write (write_file fs1 f (concat (map serialize_str new))) f"
    and "\<And>g. g \<noteq> f \<Longrightarrow> files (write_file fs1 f (concat (map serialize_str new))) g = files fs g"
    and "no_read (write_file fs1 f (concat (map serialize_str new))) = no_read fs"
    and "no_write (write_file fs1 f (concat (map serialize_str new))) = no_write fs"
  using assms
  by (cases "files fs f") (auto simp: holds_logs_def open_app_def file_simps)

lemma last_acked_ids:
  assumes "holds_logs f fs es" and "ids es = [1..<Suc (length es)]"
  shows "unat (last_acked env f fs) = length es"
proof (cases "es = []")
  case True
  with last_acked_holds [OF assms(1)] show ?thesis by simp
next
  case False
  then have "unat (le_id (last es)) = last (ids es)" by (simp add: ids_def last_map)
  also have "\<dots> = length es" using assms(2) False by (simp del: upt_Suc)
  finally show ?thesis using False last_acked_holds [OF assms(1)] by simp
qed

text \<open>
  The server's side of the exchange. \<open>held\<close> are the entries in the file, numbered from 1 without a
  gap; a batch that starts at most one past them leaves the file with the longer of the two.
\<close>

definition server_holds :: "ClientInfo \<Rightarrow> fsys \<Rightarrow> LogEntry list \<Rightarrow> bool" where
  "server_holds info fs held \<longleftrightarrow>
     holds_logs (client_log_file info) fs held \<and> ids held = [1..<Suc (length held)] \<and>
     \<not> no_write fs (client_log_file info)"

lemma handle_recv_log_text:
  assumes "server_holds info fs held"
    and "read_vector_serializeable (in_count env) deserialize iss = Inr (batch, iss')"
    and "accept_entries (of_nat (length held)) batch = (k, concat (map serialize_str new))"
    and "list_all storable new"
    and "ids (held @ new) = [1..<Suc (length (held @ new))]"
  shows "\<exists>p fs'. handle_recv_log env info iss fs =
      (Inr (Some (NetworkSendEvent (ci_client_ip info) (ci_client_port info) p)), fs') \<and>
      ack_payload k = Inr p \<and> server_holds info fs' (held @ new) \<and>
      (\<forall>g. g \<noteq> client_log_file info \<longrightarrow> files fs' g = files fs g) \<and>
      no_read fs' = no_read fs \<and> no_write fs' = no_write fs"
proof -
  from assms(1) have h: "holds_logs (client_log_file info) fs held"
    "ids held = [1..<Suc (length held)]" "\<not> no_write fs (client_log_file info)"
    by (simp_all add: server_holds_def)
  have "last_acked env (client_log_file info) fs = of_nat (length held)"
    using last_acked_ids [OF h(1,2), of env] by (metis of_nat_unat ucast_id)
  with assms(3) have acc: "accept_entries (last_acked env (client_log_file info) fs) batch
      = (k, concat (map serialize_str new))" by simp
  obtain p where p: "ack_payload k = Inr p" using ack_payload_Inr by blast
  from holds_logs_write [OF h(1,3) assms(4)] obtain fs1 where
    "open_app fs (client_log_file info) = Some fs1" and
    w: "holds_logs (client_log_file info)
      (write_file fs1 (client_log_file info) (concat (map serialize_str new))) (held @ new)"
    "\<not> no_write (write_file fs1 (client_log_file info) (concat (map serialize_str new)))
       (client_log_file info)"
    "\<And>g. g \<noteq> client_log_file info \<Longrightarrow>
       files (write_file fs1 (client_log_file info) (concat (map serialize_str new))) g = files fs g"
    "no_read (write_file fs1 (client_log_file info) (concat (map serialize_str new))) = no_read fs"
    "no_write (write_file fs1 (client_log_file info) (concat (map serialize_str new))) = no_write fs"
    by blast
  with assms(2) acc p show ?thesis
    using assms(5) by (simp add: handle_recv_log_def Let_def server_holds_def del: upt_Suc)
qed

lemma handle_recv_log_batch:
  assumes "server_holds info fs held"
    and "read_vector_serializeable (in_count env) deserialize iss = Inr (batch, iss')"
    and "list_all storable batch"
    and batch: "ids batch = [a + 1..<a + 1 + length batch]" and "a \<le> length held"
    and "a + length batch < 2 ^ 64" and "length held + 1 < 2 ^ 64"
  shows "\<exists>p fs'. handle_recv_log env info iss fs =
      (Inr (Some (NetworkSendEvent (ci_client_ip info) (ci_client_port info) p)), fs') \<and>
      ack_payload (of_nat (max (length held) (a + length batch))) = Inr p \<and>
      server_holds info fs' (held @ drop (length held - a) batch) \<and>
      (\<forall>g. g \<noteq> client_log_file info \<longrightarrow> files fs' g = files fs g) \<and>
      no_read fs' = no_read fs \<and> no_write fs' = no_write fs"
proof (rule handle_recv_log_text [OF assms(1,2)])
  have u: "unat (of_nat (length held) :: u64) = length held"
    using assms(7) by (simp add: unsigned_of_nat take_bit_nat_eq_self)
  show "accept_entries (of_nat (length held)) batch =
      (of_nat (max (length held) (a + length batch)),
       concat (map serialize_str (drop (length held - a) batch)))"
    using accept_entries_batch [OF batch, of "of_nat (length held)"] assms(5-7) u by simp
  show "list_all storable (drop (length held - a) batch)"
    using assms(3) by (auto simp: list_all_iff dest: in_set_dropD)
  have held: "ids held = [1..<Suc (length held)]" using assms(1) by (simp add: server_holds_def)
  have "ids (drop (length held - a) batch) = [Suc (length held)..<a + 1 + length batch]"
    using assms(5) by (simp add: ids_take_drop batch del: upt_Suc)
  moreover have "[1..<Suc (length held)] @ [Suc (length held)..<a + 1 + length batch]
      = [1..<Suc (length (held @ drop (length held - a) batch))]"
    if "length held - a \<le> length batch"
  proof -
    have "Suc (length (held @ drop (length held - a) batch)) = a + 1 + length batch"
      using that assms(5) by simp
    moreover have "[1..<Suc (length held)] @ [Suc (length held)..<a + 1 + length batch]
        = [1..<a + 1 + length batch]"
      using that assms(5) upt_add_eq_append [of 1 "Suc (length held)" "a + length batch - length held"]
      by (simp del: upt_Suc)
    ultimately show ?thesis by (simp only:)
  qed
  ultimately show "ids (held @ drop (length held - a) batch)
      = [1..<Suc (length (held @ drop (length held - a) batch))]"
    using held by (cases "length held - a \<le> length batch") (simp_all del: upt_Suc)
qed

lemma handle_recv_log_any:
  assumes "server_holds info fs held"
    and "read_vector_serializeable (in_count env) deserialize iss = Inr (batch, iss')"
    and "list_all storable batch" and "length held + length batch < 2 ^ 64"
  shows "\<exists>new p fs'. handle_recv_log env info iss fs =
      (Inr (Some (NetworkSendEvent (ci_client_ip info) (ci_client_port info) p)), fs') \<and>
      ack_payload (of_nat (length (held @ new))) = Inr p \<and>
      server_holds info fs' (held @ new) \<and> set new \<subseteq> set batch"
proof -
  have u: "unat (of_nat (length held) :: u64) = length held"
    using assms(4) by (simp add: unsigned_of_nat take_bit_nat_eq_self)
  from accept_entries_any [of "of_nat (length held)" batch] assms(4) obtain new where
    acc: "accept_entries (of_nat (length held)) batch =
      (of_nat (length (held @ new)), concat (map serialize_str new))"
    and i: "ids new = [Suc (length held)..<Suc (length held) + length new]"
    and sub: "set new \<subseteq> set batch"
    by (auto simp: u)
  have "list_all storable new" using assms(3) sub by (auto simp: list_all_iff)
  moreover have "ids (held @ new) = [1..<Suc (length (held @ new))]"
    using assms(1) i upt_add_eq_append [of 1 "Suc (length held)" "length new"]
    by (simp add: server_holds_def del: upt_Suc)
  ultimately show ?thesis
    using handle_recv_log_text [OF assms(1,2) acc] sub by blast
qed

text \<open>
  The subscriber of the constructor: a message from another address is not looked at, else the
  word it starts with decides, here with the rest of the message.
\<close>

definition handler_response :: "ClientInfo \<Rightarrow> string \<Rightarrow> u16 \<Rightarrow> string \<Rightarrow> (string \<times> istream) option result" where
  [simp]: "handler_response info ip port payload =
     (if ip \<noteq> ci_client_ip info then Inr None
      else if port \<noteq> ci_client_port info then Inr None
      else bindR (read_string (stream_of payload)) (\<lambda>r. Inr (Some r)))"

text \<open>
  The callback on a received message, without its output on the error stream: the event it publishes
  last, if any. A message of any word but \<^verbatim>\<open>log\<close> has no further effect.
\<close>

definition handler_callback ::
  "indeterminate \<Rightarrow> ClientInfo \<Rightarrow> string \<Rightarrow> u16 \<Rightarrow> string \<Rightarrow> fsys \<Rightarrow> Event option result \<times> fsys" where
  [simp]: "handler_callback env info ip port payload fs =
     (case handler_response info ip port payload of
        Inl e \<Rightarrow> (Inl e, fs)
      | Inr None \<Rightarrow> (Inr None, fs)
      | Inr (Some (response, iss)) \<Rightarrow>
          if response = ''log'' then handle_recv_log env info iss fs
          else if response = ''config ok'' then (Inr None, fs)
          else (Inr None, fs))"

end
