(* ===== verification/Client_Manager.thy ===== *)
theory Client_Manager
  imports Client_Handler Config
begin

text \<open>
  \<^verbatim>\<open>src/server/client_manager.hpp/.cpp\<close>: the table of clients, the commands of the operator and
  the delivery of outgoing messages, as subscribers of the server's event bus. A thread started to
  send a message is an element of \<open>sv_outbox\<close>; the JSON parser is a parameter.
\<close>

section \<open>State\<close>

datatype server_callback = HandlerCallback ClientInfo | UserInputCallback | SendOutputCallback

text \<open>The hash map of handlers lists its entries in iteration order; a handler is its client info.\<close>

record Server =
  sv_bus :: "server_callback EventBus"
  sv_client_handlers :: "(int \<times> ClientInfo) list"
  sv_next_client_id :: int
  sv_is_running :: bool
  sv_fs :: fsys
  sv_outbox :: "(int \<times> string) list"

record server_env =
  se_indet :: indeterminate
  se_parse :: "string \<Rightarrow> ConfigEntry list result"

abbreviation no_client :: ClientInfo where
  "no_client \<equiv> ClientInfo_new 0 0 [] 0"

section \<open>Clients\<close>

text \<open>\<^verbatim>\<open>unordered_map::emplace\<close> keeps the element that is there.\<close>

definition add_new_client :: "ClientInfo \<Rightarrow> Server \<Rightarrow> Server" where
  "add_new_client handler s =
     (case map_of (sv_client_handlers s) (ci_client_id handler) of
        Some _ \<Rightarrow> s
      | None \<Rightarrow> s\<lparr>sv_client_handlers := sv_client_handlers s @ [(ci_client_id handler, handler)]\<rparr>)"

text \<open>The constructor of a handler subscribes to the bus; its thread delivers the client's messages.\<close>

definition ClientHandler_new ::
  "int \<Rightarrow> int \<Rightarrow> string \<Rightarrow> u16 \<Rightarrow> server_callback EventBus \<Rightarrow> ClientInfo \<times> server_callback EventBus" where
  [simp]: "ClientHandler_new n_client_id n_client_socket n_client_ip n_client_port bus =
     (let info = ClientInfo_new n_client_id n_client_socket n_client_ip n_client_port
      in (info, subscribe (HandlerCallback info) bus))"

text \<open>
  One round of \<^verbatim>\<open>accept_new_client\<close> for the connection that \<^verbatim>\<open>accept\<close> and \<^verbatim>\<open>inet_ntop\<close> report,
  with the constructor of the handler.
\<close>

definition accept_new_client :: "int \<Rightarrow> string \<Rightarrow> u16 \<Rightarrow> Server \<Rightarrow> Server" where
  "accept_new_client client_socket client_address_ip sin_port s =
     (let (info, bus) = ClientHandler_new (sv_next_client_id s) client_socket client_address_ip sin_port (sv_bus s);
          s1 = s\<lparr>sv_next_client_id := sv_next_client_id s + 1\<rparr>;
          s2 = s1\<lparr>sv_bus := bus\<rparr>
      in add_new_client info s2)"

fun find_ip_port :: "string \<Rightarrow> u16 \<Rightarrow> (int \<times> ClientInfo) list \<Rightarrow> ClientInfo" where
  "find_ip_port client_ip client_port [] = no_client"
| "find_ip_port client_ip client_port ((i, client) # cs) =
     (if ci_client_ip client \<noteq> client_ip then find_ip_port client_ip client_port cs
      else if ci_client_port client \<noteq> client_port then find_ip_port client_ip client_port cs
      else client)"

definition get_client_info_from_ip_and_port :: "string \<Rightarrow> u16 \<Rightarrow> Server \<Rightarrow> ClientInfo" where
  "get_client_info_from_ip_and_port client_ip client_port s =
     find_ip_port client_ip client_port (sv_client_handlers s)"

text \<open>\<^verbatim>\<open><client-id>:<message>\<close>; the first component is \<open>no_client\<close> when there is no such client.\<close>

definition find_client_from_input :: "string \<Rightarrow> Server \<Rightarrow> (ClientInfo \<times> string) result" where
  "find_client_from_input input s =
     (case find_char input (CHR '':'') of
        None \<Rightarrow> Inr (no_client, [])
      | Some pos \<Rightarrow>
          bindR (str_to_int (take pos input)) (\<lambda>target_id.
            let message = drop (pos + 1) input
            in case map_of (sv_client_handlers s) target_id of
                 None \<Rightarrow> Inr (no_client, [])
               | Some info \<Rightarrow> Inr (info, message)))"

text \<open>\<^verbatim>\<open>send_output_to_client\<close>: the message that goes to the socket of a client, if any.\<close>

definition send_output_to_client :: "int \<Rightarrow> string \<Rightarrow> Server \<Rightarrow> (int \<times> string) option" where
  "send_output_to_client client_id command s =
     (case map_of (sv_client_handlers s) client_id of
        None \<Rightarrow> None
      | Some info \<Rightarrow> Some (ci_client_socket info, command))"

section \<open>The subscribers\<close>

text \<open>
  The command \<^verbatim>\<open>config <file>\<close>: the event to publish, if the file opens and parses. An exception
  inside the \<^verbatim>\<open>try\<close> block is reported and swallowed.
\<close>

definition config_message :: "server_env \<Rightarrow> string \<Rightarrow> string result" where
  "config_message env content =
     bindR (se_parse env content) (\<lambda>_. write_string (''config '' @ content))"

text \<open>
  A subscriber that handles an input or a received message publishes sends only, and the subscriber
  that handles a send publishes nothing: the nested calls end.
\<close>

function server_publish :: "server_env \<Rightarrow> Event \<Rightarrow> Server \<Rightarrow> unit result \<times> Server"
  and server_call :: "server_env \<Rightarrow> server_callback \<Rightarrow> Event \<Rightarrow> Server \<Rightarrow> unit result \<times> Server"
where
  "server_publish env ev s = publish sv_bus (\<lambda>cb ev s. server_call env cb ev s) ev s"
| "server_call env cb ev s =
     (case cb of
        HandlerCallback info \<Rightarrow>
          (case ev of
             NetworkRecvEvent ip port payload \<Rightarrow>
               (case handler_callback (se_indet env) info ip port payload (sv_fs s) of
                  (Inl e, fs') \<Rightarrow> (Inl e, s\<lparr>sv_fs := fs'\<rparr>)
                | (Inr None, fs') \<Rightarrow> (Inr (), s\<lparr>sv_fs := fs'\<rparr>)
                | (Inr (Some ack), fs') \<Rightarrow>
                    (case ack of
                       NetworkSendEvent ip' port' p \<Rightarrow>
                         server_publish env (NetworkSendEvent ip' port' p) (s\<lparr>sv_fs := fs'\<rparr>)
                     | _ \<Rightarrow> (Inr (), s\<lparr>sv_fs := fs'\<rparr>)))
           | _ \<Rightarrow> (Inr (), s))
      | UserInputCallback \<Rightarrow>
          (case ev of
             InputEvent payload \<Rightarrow>
               if payload = ''exit'' then (Inr (), s\<lparr>sv_is_running := False\<rparr>)
               else (case find_client_from_input payload s of
                       Inl e \<Rightarrow> (Inl e, s)
                     | Inr (client_info, message) \<Rightarrow>
                         if ci_client_id client_info \<le> 0 then (Inr (), s)
                         else if starts_with message ''config '' then
                           (case open_in (sv_fs s) (drop (length ''config '') message) of
                              None \<Rightarrow> (Inr (), s)
                            | Some config_file_in \<Rightarrow>
                                swallow
                                  (case config_message env (inbuf config_file_in) of
                                     Inl e \<Rightarrow> (Inl e, s)
                                   | Inr p \<Rightarrow>
                                       server_publish env
                                         (NetworkSendEvent (ci_client_ip client_info)
                                            (ci_client_port client_info) p) s))
                         else (Inr (), s))
           | _ \<Rightarrow> (Inr (), s))
      | SendOutputCallback \<Rightarrow>
          (case ev of
             NetworkSendEvent ip port payload \<Rightarrow>
               let client_info = get_client_info_from_ip_and_port ip port s
               in if ci_client_id client_info = 0 then (Inr (), s)
                  else (Inr (), s\<lparr>sv_outbox := sv_outbox s @ [(ci_client_socket client_info, payload)]\<rparr>)
           | _ \<Rightarrow> (Inr (), s)))"
  by pat_completeness auto
termination
  by (relation "measure (\<lambda>x. case x of
        Inl (env, ev, s) \<Rightarrow> 2 * event_rank ev + 1
      | Inr (env, cb, ev, s) \<Rightarrow> 2 * event_rank ev)") auto

declare server_publish.simps [simp del] server_call.simps [simp del]

text \<open>\<^verbatim>\<open>ClientManager::run\<close> up to its waiting loop.\<close>

definition server_start :: "fsys \<Rightarrow> Server" where
  "server_start fs =
     \<lparr>sv_bus = subscribe SendOutputCallback (subscribe UserInputCallback EventBus_new),
      sv_client_handlers = [], sv_next_client_id = 1, sv_is_running = True, sv_fs = fs,
      sv_outbox = []\<rparr>"

section \<open>The table of clients\<close>

text \<open>
  Every accepted connection has a number of its own, its handler is in the table under that number
  and among the subscribers.
\<close>

definition server_ok :: "Server \<Rightarrow> bool" where
  "server_ok s \<longleftrightarrow>
     subscribers (sv_bus s) =
       UserInputCallback # SendOutputCallback # map (HandlerCallback \<circ> snd) (sv_client_handlers s) \<and>
     map fst (sv_client_handlers s) = map int [1..<nat (sv_next_client_id s)] \<and>
     1 \<le> sv_next_client_id s \<and>
     list_all (\<lambda>(i, c). ci_client_id c = i) (sv_client_handlers s)"

lemma server_ok_start: "server_ok (server_start fs)"
  by (simp add: server_ok_def server_start_def subscribe_def EventBus_new_def)

lemma fresh_client_id:
  assumes "server_ok s"
  shows "map_of (sv_client_handlers s) (sv_next_client_id s) = None"
proof -
  have "fst ` set (sv_client_handlers s) = int ` {1..<nat (sv_next_client_id s)}"
    using assms by (metis server_ok_def list.set_map set_upt)
  then show ?thesis by (auto simp: map_of_eq_None_iff)
qed

lemma accept_new_client_fields:
  assumes "server_ok s"
  shows "accept_new_client sock ip port s =
    (let info = ClientInfo_new (sv_next_client_id s) sock ip port
     in s\<lparr>sv_next_client_id := sv_next_client_id s + 1,
          sv_bus := subscribe (HandlerCallback info) (sv_bus s),
          sv_client_handlers := sv_client_handlers s @ [(sv_next_client_id s, info)]\<rparr>)"
  using fresh_client_id [OF assms]
  by (simp add: accept_new_client_def add_new_client_def Let_def ClientInfo_new_def)

lemma server_ok_accept:
  assumes "server_ok s"
  shows "server_ok (accept_new_client sock ip port s)"
proof -
  have "1 \<le> sv_next_client_id s" using assms by (simp add: server_ok_def)
  then have "nat (sv_next_client_id s + 1) = Suc (nat (sv_next_client_id s))"
    and "1 \<le> nat (sv_next_client_id s)" by linarith+
  then have "map int [1..<nat (sv_next_client_id s + 1)]
      = map int [1..<nat (sv_next_client_id s)] @ [sv_next_client_id s]"
    using assms by (simp add: server_ok_def)
  then show ?thesis
    using assms unfolding accept_new_client_fields [OF assms]
    by (simp add: server_ok_def Let_def subscribe_def ClientInfo_new_def)
qed

text \<open>The subscribers leave the table and the bus alone.\<close>

definition same_clients :: "Server \<Rightarrow> Server \<Rightarrow> bool" where
  "same_clients s t \<longleftrightarrow> sv_bus t = sv_bus s \<and> sv_client_handlers t = sv_client_handlers s \<and>
     sv_next_client_id t = sv_next_client_id s"

lemma same_clients_refl: "same_clients s s"
  by (simp add: same_clients_def)

lemma same_clients_trans: "same_clients a b \<Longrightarrow> same_clients b c \<Longrightarrow> same_clients a c"
  by (simp add: same_clients_def)

lemma same_clients_update [simp]:
  "same_clients s (s\<lparr>sv_fs := fs\<rparr>)" "same_clients s (s\<lparr>sv_is_running := b\<rparr>)"
  "same_clients s (s\<lparr>sv_outbox := out\<rparr>)" "same_clients s s"
  by (simp_all add: same_clients_def)

lemma same_clients_fs [simp]: "same_clients (s\<lparr>sv_fs := fs\<rparr>) t \<longleftrightarrow> same_clients s t"
  by (simp add: same_clients_def)

lemma server_calls_same_clients:
  "same_clients s (snd (server_publish env ev s))"
  "same_clients s (snd (server_call env cb ev s))"
proof (induction env ev s and env cb ev s rule: server_publish_server_call.induct)
  case (1 env ev s)
  show ?case
    unfolding server_publish.simps [of env ev s] publish_def Let_def
    by (rule run_callbacks_rel [where R = same_clients])
       (use 1 in \<open>auto intro: same_clients_refl same_clients_trans\<close>)
next
  case (2 env cb ev s)
  show ?case
  proof (cases ev)
    case (InputEvent payload)
    show ?thesis
    proof (cases cb)
      case UserInputCallback
      show ?thesis
        using 2(2) [OF UserInputCallback InputEvent]
        by (auto simp: server_call.simps [of env UserInputCallback "InputEvent payload" s]
            UserInputCallback InputEvent
            split: sum.splits option.splits)
    qed (simp_all add: server_call.simps InputEvent)
  next
    case (NetworkSendEvent ip port payload)
    then show ?thesis
      by (auto simp: server_call.simps [of env cb "NetworkSendEvent ip port payload" s] Let_def
          split: server_callback.split)
  next
    case (NetworkRecvEvent ip port payload)
    show ?thesis
    proof (cases cb)
      case (HandlerCallback info)
      show ?thesis
        using 2(1) [OF HandlerCallback NetworkRecvEvent]
        by (auto simp: HandlerCallback NetworkRecvEvent
            server_call.simps [of env "HandlerCallback info" "NetworkRecvEvent ip port payload" s]
            split: sum.splits prod.splits option.splits Event.splits)
    qed (simp_all add: server_call.simps NetworkRecvEvent)
  qed
qed

lemma same_clients_ok: "same_clients s t \<Longrightarrow> server_ok s \<Longrightarrow> server_ok t"
  by (simp add: same_clients_def server_ok_def)

interpretation server_bus: callbacks "server_call env" server_ok for env
  by unfold_locales (metis server_calls_same_clients(2) same_clients_ok)

section \<open>What the published events do\<close>

lemma server_call_ignored [simp]:
  "server_call env (HandlerCallback info) (InputEvent p) s = (Inr (), s)"
  "server_call env (HandlerCallback info) (NetworkSendEvent ip port p) s = (Inr (), s)"
  "server_call env UserInputCallback (NetworkSendEvent ip port p) s = (Inr (), s)"
  "server_call env UserInputCallback (NetworkRecvEvent ip port p) s = (Inr (), s)"
  "server_call env SendOutputCallback (InputEvent p) s = (Inr (), s)"
  "server_call env SendOutputCallback (NetworkRecvEvent ip port p) s = (Inr (), s)"
  by (simp_all add: server_call.simps)

lemma server_call_other_client [simp]:
  "(ip, port) \<noteq> (ci_client_ip info, ci_client_port info) \<Longrightarrow>
     server_call env (HandlerCallback info) (NetworkRecvEvent ip port p) s = (Inr (), s)"
  by (auto simp: server_call.simps)

definition send_to :: "string \<Rightarrow> u16 \<Rightarrow> string \<Rightarrow> Server \<Rightarrow> Server" where
  "send_to ip port payload s =
     (let c = get_client_info_from_ip_and_port ip port s
      in if ci_client_id c = 0 then s
         else s\<lparr>sv_outbox := sv_outbox s @ [(ci_client_socket c, payload)]\<rparr>)"

lemma server_call_send [simp]:
  "server_call env SendOutputCallback (NetworkSendEvent ip port p) s = (Inr (), send_to ip port p s)"
  by (simp add: server_call.simps send_to_def Let_def)

lemma publish_send:
  assumes "server_ok s"
  shows "server_publish env (NetworkSendEvent ip port p) s = (Inr (), send_to ip port p s)"
proof -
  let ?hs = "map (HandlerCallback \<circ> snd) (sv_client_handlers s)"
  have "\<forall>c t. c \<in> set [UserInputCallback] \<union> set ?hs \<longrightarrow>
      server_call env c (NetworkSendEvent ip port p) t = (Inr (), t)" by auto
  from run_callbacks_single [where call = "server_call env"
      and ev = "NetworkSendEvent ip port p" and cb = SendOutputCallback, OF this]
  have "run_callbacks (server_call env) (NetworkSendEvent ip port p)
      ([UserInputCallback] @ SendOutputCallback # ?hs) s = (Inr (), send_to ip port p s)"
    by (simp only: server_call_send)
  then show ?thesis
    using assms by (simp add: server_publish.simps publish_def server_ok_def)
qed

text \<open>A message from a client reaches the handler of its address, and no other.\<close>

definition distinct_addresses :: "Server \<Rightarrow> bool" where
  "distinct_addresses s \<longleftrightarrow>
     distinct (map (\<lambda>(i, c). (ci_client_ip c, ci_client_port c)) (sv_client_handlers s))"

lemma publish_recv:
  assumes "server_ok s" and "distinct_addresses s" and "(i, info) \<in> set (sv_client_handlers s)"
  shows "server_publish env (NetworkRecvEvent (ci_client_ip info) (ci_client_port info) p) s =
    server_call env (HandlerCallback info)
      (NetworkRecvEvent (ci_client_ip info) (ci_client_port info) p) s"
proof -
  from assms(3) obtain xs ys where split: "sv_client_handlers s = xs @ (i, info) # ys"
    by (meson split_list)
  have other: "ci_client_ip info = ci_client_ip c \<Longrightarrow> ci_client_port info \<noteq> ci_client_port c"
    if "(j, c) \<in> set xs \<union> set ys" for j c
    using assms(2) that unfolding distinct_addresses_def split by force
  have "server_call env (HandlerCallback c)
      (NetworkRecvEvent (ci_client_ip info) (ci_client_port info) p) t = (Inr (), t)"
    if "c \<in> snd ` set xs \<union> snd ` set ys" for c t
    by (rule server_call_other_client) (use that other in \<open>auto, blast+\<close>)
  then have "\<forall>c t. c \<in> set (UserInputCallback # SendOutputCallback # map (HandlerCallback \<circ> snd) xs)
        \<union> set (map (HandlerCallback \<circ> snd) ys) \<longrightarrow>
      server_call env c (NetworkRecvEvent (ci_client_ip info) (ci_client_port info) p) t
        = (Inr (), t)"
    by (auto simp: image_iff)
  from run_callbacks_single [where call = "server_call env" and cb = "HandlerCallback info"
      and ev = "NetworkRecvEvent (ci_client_ip info) (ci_client_port info) p", OF this]
  have "run_callbacks (server_call env)
      (NetworkRecvEvent (ci_client_ip info) (ci_client_port info) p)
      ((UserInputCallback # SendOutputCallback # map (HandlerCallback \<circ> snd) xs) @
        HandlerCallback info # map (HandlerCallback \<circ> snd) ys) s
    = server_call env (HandlerCallback info)
        (NetworkRecvEvent (ci_client_ip info) (ci_client_port info) p) s"
    by simp
  then show ?thesis
    using assms(1) by (simp add: server_publish.simps publish_def server_ok_def split)
qed

lemma server_update [simp]:
  "server_ok (s\<lparr>sv_outbox := out\<rparr>) = server_ok s" "server_ok (s\<lparr>sv_fs := fs\<rparr>) = server_ok s"
  "distinct_addresses (s\<lparr>sv_outbox := out\<rparr>) = distinct_addresses s"
  "distinct_addresses (s\<lparr>sv_fs := fs\<rparr>) = distinct_addresses s"
  by (simp_all add: server_ok_def distinct_addresses_def)

lemma find_ip_port_distinct:
  "(i, info) \<in> set cs \<Longrightarrow>
     distinct (map (\<lambda>(i, c). (ci_client_ip c, ci_client_port c)) cs) \<Longrightarrow>
     find_ip_port (ci_client_ip info) (ci_client_port info) cs = info"
proof (induction cs)
  case Nil
  then show ?case by simp
next
  case (Cons x cs)
  then show ?case by (cases x) (force simp: image_iff)
qed

lemma send_to_client:
  assumes "server_ok s" and "distinct_addresses s" and "(i, info) \<in> set (sv_client_handlers s)"
  shows "send_to (ci_client_ip info) (ci_client_port info) p s =
    s\<lparr>sv_outbox := sv_outbox s @ [(ci_client_socket info, p)]\<rparr>"
proof -
  have "i \<in> set (map fst (sv_client_handlers s))" using assms(3) by force
  moreover have "set (map fst (sv_client_handlers s)) = int ` {1..<nat (sv_next_client_id s)}"
    using assms(1) by (metis server_ok_def list.set_map set_upt)
  ultimately have "0 < i" by auto
  moreover have "ci_client_id info = i" using assms(1,3) by (auto simp: server_ok_def list_all_iff)
  ultimately show ?thesis
    using find_ip_port_distinct [OF assms(3)] assms(2)
    by (simp add: send_to_def get_client_info_from_ip_and_port_def distinct_addresses_def)
qed

section \<open>Log messages\<close>

lemma publish_log_batch:
  assumes ok: "server_ok s" "distinct_addresses s" "(i, info) \<in> set (sv_client_handlers s)"
    and held: "server_holds info (sv_fs s) held"
    and p: "log_payload batch = Inr p" "list_all sendable batch" "length batch < 2 ^ 32"
    and batch: "list_all storable batch" "ids batch = [a + 1..<a + 1 + length batch]"
    and bounds: "a \<le> length held" "a + length batch < 2 ^ 64" "length held + 1 < 2 ^ 64"
  shows "\<exists>ack fs'. server_publish env
      (NetworkRecvEvent (ci_client_ip info) (ci_client_port info) p) s =
        (Inr (), s\<lparr>sv_fs := fs', sv_outbox := sv_outbox s @ [(ci_client_socket info, ack)]\<rparr>) \<and>
      ack_payload (of_nat (max (length held) (a + length batch))) = Inr ack \<and>
      server_holds info fs' (held @ drop (length held - a) batch)"
proof -
  from read_log_payload [OF p] obtain iss iss' where r: "read_string (stream_of p) = Inr (''log'', iss)"
    and v: "read_vector_serializeable (in_count (se_indet env)) deserialize iss = Inr (batch, iss')"
    by blast
  from handle_recv_log_batch [OF held v batch bounds] obtain ack fs' where
    h: "handle_recv_log (se_indet env) info iss (sv_fs s) =
      (Inr (Some (NetworkSendEvent (ci_client_ip info) (ci_client_port info) ack)), fs')"
    and rest: "ack_payload (of_nat (max (length held) (a + length batch))) = Inr ack"
      "server_holds info fs' (held @ drop (length held - a) batch)"
    by blast
  let ?s = "s\<lparr>sv_fs := fs'\<rparr>"
  have "server_ok ?s" using same_clients_ok [OF _ ok(1)] by simp
  moreover have "distinct_addresses ?s" using ok(2) by (simp add: distinct_addresses_def)
  ultimately have "server_publish env
      (NetworkSendEvent (ci_client_ip info) (ci_client_port info) ack) ?s =
      (Inr (), ?s\<lparr>sv_outbox := sv_outbox s @ [(ci_client_socket info, ack)]\<rparr>)"
    using publish_send send_to_client [of ?s i info ack] ok(3) by simp
  then have "server_publish env (NetworkRecvEvent (ci_client_ip info) (ci_client_port info) p) s =
      (Inr (), ?s\<lparr>sv_outbox := sv_outbox s @ [(ci_client_socket info, ack)]\<rparr>)"
    unfolding publish_recv [OF ok] by (simp add: server_call.simps r h)
  with rest show ?thesis by auto
qed

section \<open>Commands of the operator\<close>

lemma publish_input:
  assumes "server_ok s"
  shows "server_publish env (InputEvent payload) s =
    server_call env UserInputCallback (InputEvent payload) s"
proof -
  let ?hs = "map (HandlerCallback \<circ> snd) (sv_client_handlers s)"
  have "\<forall>c t. c \<in> set [] \<union> set (SendOutputCallback # ?hs) \<longrightarrow>
      server_call env c (InputEvent payload) t = (Inr (), t)" by auto
  from run_callbacks_single [where call = "server_call env" and ev = "InputEvent payload"
      and cb = UserInputCallback, OF this]
  show ?thesis
    using assms by (simp add: server_publish.simps publish_def server_ok_def)
qed

lemma server_ok_map_of:
  assumes "server_ok s"
  shows "map_of (sv_client_handlers s) k = Some info \<longleftrightarrow> (k, info) \<in> set (sv_client_handlers s)"
proof -
  have "distinct (map fst (sv_client_handlers s))"
    using assms by (simp add: server_ok_def distinct_map)
  then show ?thesis by simp
qed

lemma find_client_from_input_command:
  assumes "int k \<le> INT_MAX"
  shows "find_client_from_input (show_nat k @ CHR '':'' # message) s =
    Inr (case map_of (sv_client_handlers s) (int k) of None \<Rightarrow> (no_client, []) | Some i \<Rightarrow> (i, message))"
proof -
  have "CHR '':'' \<notin> set (show_nat k)"
    using show_nat_digits [of k] by (auto simp: list_all_iff is_digit_def)
  then show ?thesis
    using assms by (simp add: find_client_from_input_def str_to_int_show_nat split: option.split)
qed

lemma no_exit: "show_nat k @ CHR '':'' # message \<noteq> ''exit''"
proof
  assume "show_nat k @ CHR '':'' # message = ''exit''"
  then have "CHR '':'' \<in> set ''exit''" by (metis in_set_conv_decomp)
  then show False by simp
qed

lemma operator_config:
  assumes "server_ok s" and "distinct_addresses s" and "(int k, info) \<in> set (sv_client_handlers s)"
    and "int k \<le> INT_MAX"
    and "open_in (sv_fs s) file = Some (stream_of content)"
    and "config_message env content = Inr p"
  shows "server_publish env (InputEvent (show_nat k @ '':config '' @ file)) s =
    (Inr (), s\<lparr>sv_outbox := sv_outbox s @ [(ci_client_socket info, p)]\<rparr>)"
proof -
  have "show_nat k @ '':config '' @ file \<noteq> ''exit''"
    using no_exit [of k "''config '' @ file"] by simp
  moreover have "find_client_from_input (show_nat k @ '':config '' @ file) s =
      Inr (info, ''config '' @ file)"
    using find_client_from_input_command [OF assms(4), of "''config '' @ file" s]
      iffD2 [OF server_ok_map_of [OF assms(1)] assms(3)] by simp
  moreover have "0 < ci_client_id info"
  proof -
    have "int k \<in> set (map fst (sv_client_handlers s))" using assms(3) by force
    moreover have "set (map fst (sv_client_handlers s)) = int ` {1..<nat (sv_next_client_id s)}"
      using assms(1) by (metis server_ok_def list.set_map set_upt)
    ultimately have "0 < int k" by auto
    then show ?thesis using assms(1,3) by (auto simp: server_ok_def list_all_iff)
  qed
  moreover have "starts_with (''config '' @ file) ''config ''" by (rule starts_with_append)
  ultimately have "server_call env UserInputCallback
      (InputEvent (show_nat k @ '':config '' @ file)) s =
      swallow (server_publish env (NetworkSendEvent (ci_client_ip info) (ci_client_port info) p) s)"
    using assms(5,6) by (simp add: server_call.simps)
  then show ?thesis
    using publish_input [OF assms(1)] publish_send [OF assms(1)] send_to_client [OF assms(1-3)]
    by (simp add: swallow_def)
qed

text \<open>A command for a client that is not connected, or that is no command, does nothing.\<close>

lemma operator_unknown:
  assumes "server_ok s" and "int k \<le> INT_MAX" and "int k \<notin> fst ` set (sv_client_handlers s)"
  shows "server_publish env (InputEvent (show_nat k @ CHR '':'' # message)) s = (Inr (), s)"
proof -
  have "map_of (sv_client_handlers s) (int k) = None" using assms(3) by (simp add: map_of_eq_None_iff)
  then show ?thesis
    unfolding publish_input [OF assms(1)]
    using no_exit [of k message] find_client_from_input_command [OF assms(2), of message s]
    by (simp add: server_call.simps ClientInfo_new_def)
qed

lemma operator_exit:
  "server_ok s \<Longrightarrow> server_publish env (InputEvent ''exit'') s = (Inr (), s\<lparr>sv_is_running := False\<rparr>)"
  by (simp add: publish_input server_call.simps)

end
