(* ===== verification/Log_Transfer.thy ===== *)
theory Log_Transfer
  imports Main
begin

text \<open>
  The contract of the log transfer, without payloads, files or queues: positions in one growing
  history. The client holds the history from \<open>tr_from\<close> on and sends slices of it; the server
  holds a prefix of length \<open>tr_stored\<close> and acknowledges with that length. Messages stay in the
  network, so they may be delivered late, again, in any order, or be lost.
\<close>

record transfer =
  tr_total :: nat
  tr_from :: nat
  tr_stored :: nat
  tr_up :: "(nat \<times> nat) set"
  tr_down :: "nat set"

definition transfer_start :: transfer where
  "transfer_start = \<lparr>tr_total = 0, tr_from = 0, tr_stored = 0, tr_up = {}, tr_down = {}\<rparr>"

inductive transfer_step :: "transfer \<Rightarrow> transfer \<Rightarrow> bool" where
  produce: "transfer_step t (t\<lparr>tr_total := tr_total t + n\<rparr>)"
| send: "tr_from t + b \<le> tr_total t \<Longrightarrow>
    transfer_step t (t\<lparr>tr_up := insert (tr_from t, b) (tr_up t)\<rparr>)"
| store: "(i, b) \<in> tr_up t \<Longrightarrow>
    transfer_step t (t\<lparr>tr_stored := max (tr_stored t) (i + b),
      tr_down := insert (max (tr_stored t) (i + b)) (tr_down t)\<rparr>)"
| acked: "a \<in> tr_down t \<Longrightarrow> transfer_step t (t\<lparr>tr_from := max (tr_from t) a\<rparr>)"
| reload: "j \<le> tr_from t \<Longrightarrow> transfer_step t (t\<lparr>tr_from := j\<rparr>)"
| lose: "U \<subseteq> tr_up t \<Longrightarrow> D \<subseteq> tr_down t \<Longrightarrow> transfer_step t (t\<lparr>tr_up := U, tr_down := D\<rparr>)"

inductive_cases transfer_stepE: "transfer_step t t'"

definition transfer_ok :: "transfer \<Rightarrow> bool" where
  "transfer_ok t \<longleftrightarrow>
     tr_from t \<le> tr_stored t \<and> tr_stored t \<le> tr_total t \<and>
     (\<forall>(i, b) \<in> tr_up t. i \<le> tr_stored t \<and> i + b \<le> tr_total t) \<and>
     (\<forall>a \<in> tr_down t. a \<le> tr_stored t)"

lemma transfer_ok_start: "transfer_ok transfer_start"
  by (simp add: transfer_ok_def transfer_start_def)

lemma transfer_ok_step:
  "transfer_step t t' \<Longrightarrow> transfer_ok t \<Longrightarrow> transfer_ok t'"
  by (erule transfer_stepE) (fastforce simp: transfer_ok_def)+

lemma transfer_ok_steps:
  "transfer_step\<^sup>*\<^sup>* t t' \<Longrightarrow> transfer_ok t \<Longrightarrow> transfer_ok t'"
  by (induction rule: rtranclp_induct) (auto intro: transfer_ok_step)

text \<open>What the server holds only grows.\<close>

lemma transfer_stored_mono:
  "transfer_step\<^sup>*\<^sup>* t t' \<Longrightarrow> tr_stored t \<le> tr_stored t' \<and> tr_total t \<le> tr_total t'"
  by (induction rule: rtranclp_induct) (auto elim!: transfer_stepE)

end
