(* ===== verification/Delivery.thy ===== *)
theory Delivery
  imports Queue_History Client_Manager Log_Transfer
begin

text \<open>
  The client, the server and the network between them as one transition system, and the proof that
  it implements the contract of \<open>Log_Transfer\<close>: \<^verbatim>\<open>client_main\<close>'s loop, its receiving thread and the
  server's receiving thread with everything they call.
\<close>

section \<open>The system\<close>

text \<open>
  \<open>nw_info\<close> is the connection the server has for this client; \<open>nw_up\<close> and \<open>nw_down\<close> are the
  payloads ever handed to a sending thread and not known to be lost; \<open>nw_hist\<close> (which no code
  holds) lists every log the client ever made.
\<close>

record network =
  nw_client :: Client
  nw_server :: Server
  nw_info :: ClientInfo
  nw_up :: "string set"
  nw_down :: "string set"
  nw_hist :: "LogEntry list"

abbreviation client_queue :: "Client \<Rightarrow> LogQueue" where
  "client_queue c \<equiv> cl_log_queue (cc_logger c)"

abbreviation client_config :: "Client \<Rightarrow> ConfigEntry list" where
  "client_config c \<equiv> config_entries (cl_config (cc_logger c))"

text \<open>The messages a step has left in an outbox go to the network.\<close>

definition from_client :: "Client \<Rightarrow> network \<Rightarrow> network" where
  "from_client c n = n\<lparr>nw_client := c\<lparr>cc_outbox := []\<rparr>, nw_up := nw_up n \<union> set (cc_outbox c)\<rparr>"

definition from_server :: "Server \<Rightarrow> network \<Rightarrow> network" where
  "from_server s n = n\<lparr>nw_server := s\<lparr>sv_outbox := []\<rparr>,
     nw_down := nw_down n \<union> {p. (ci_client_socket (nw_info n), p) \<in> set (sv_outbox s)}\<rparr>"

definition new_logs :: "(string \<rightharpoonup> ProcessStat) \<Rightarrow> u64 \<Rightarrow> Client \<Rightarrow> LogEntry list" where
  "new_logs m now c = number (lq_new_id (client_queue c)) now (findings m (client_config c))"

text \<open>Program names that the text form of a log can hold.\<close>

definition loggable :: "ConfigEntry list \<Rightarrow> bool" where
  "loggable es \<longleftrightarrow> list_all (\<lambda>e. bar \<notin> set (ce_process_name e) \<and> newline \<notin> set (ce_process_name e) \<and>
     length (ce_process_name e) < 2 ^ 32) es"

text \<open>
  The steps. A client whose queue is empty when it restarts starts to number from 1 again; that
  step is left out here and looked at on its own below.
\<close>

inductive net_step :: "client_env \<Rightarrow> server_env \<Rightarrow> network \<Rightarrow> network \<Rightarrow> bool"
  for kenv :: client_env and senv :: server_env
where
  tick: "client_tick kenv m now (nw_client n) = (Inr (), c) \<Longrightarrow>
    length (nw_hist n) + length (new_logs m now (nw_client n)) + 1 < 2 ^ 64 \<Longrightarrow>
    net_step kenv senv n (from_client c (n\<lparr>nw_hist := nw_hist n @ new_logs m now (nw_client n)\<rparr>))"
| up: "p \<in> nw_up n \<Longrightarrow>
    server_publish senv (NetworkRecvEvent (ci_client_ip (nw_info n)) (ci_client_port (nw_info n)) p)
      (nw_server n) = (Inr (), s) \<Longrightarrow>
    net_step kenv senv n (from_server s n)"
| down: "p \<in> nw_down n \<Longrightarrow> receive_server_input kenv p (nw_client n) = (Inr (), c) \<Longrightarrow>
    net_step kenv senv n (from_client c n)"
| configure: "write_string (''config '' @ content) = Inr p \<Longrightarrow> ke_parse kenv content = Inr es \<Longrightarrow>
    loggable es \<Longrightarrow> store_config kenv es (nw_client n) = (Inr (), c') \<Longrightarrow>
    receive_server_input kenv p (nw_client n) = (Inr (), c) \<Longrightarrow>
    net_step kenv senv n (from_client c n)"
| lose: "U \<subseteq> nw_up n \<Longrightarrow> D \<subseteq> nw_down n \<Longrightarrow> net_step kenv senv n (n\<lparr>nw_up := U, nw_down := D\<rparr>)"
| client_restart: "client_start kenv ip port (cc_fs (nw_client n)) = Some (Inr c, fs) \<Longrightarrow>
    lq_log_entries (client_queue c) \<noteq> [] \<Longrightarrow> loggable (client_config c) \<Longrightarrow>
    net_step kenv senv n (n\<lparr>nw_client := c\<rparr>)"
| reconnect: "(ci_client_ip (nw_info n), port) \<notin>
      (\<lambda>(i, c). (ci_client_ip c, ci_client_port c)) ` set (sv_client_handlers (nw_server n)) \<Longrightarrow>
    net_step kenv senv n
      (n\<lparr>nw_server := accept_new_client sock (ci_client_ip (nw_info n)) port (nw_server n),
         nw_info := ClientInfo_new (sv_next_client_id (nw_server n)) sock (ci_client_ip (nw_info n)) port\<rparr>)"
| server_restart: "net_step kenv senv n
      (n\<lparr>nw_server := accept_new_client sock (ci_client_ip (nw_info n)) port
           (server_start (sv_fs (nw_server n))),
         nw_info := ClientInfo_new 1 sock (ci_client_ip (nw_info n)) port\<rparr>)"

inductive_cases net_stepE: "net_step kenv senv n n'"

section \<open>The relation to the contract\<close>

definition client_holds :: "client_env \<Rightarrow> LogEntry list \<Rightarrow> nat \<Rightarrow> Client \<Rightarrow> bool" where
  "client_holds kenv hist j c \<longleftrightarrow>
     client_ok c \<and> cc_outbox c = [] \<and> loggable (client_config c) \<and>
     lq_log_file (client_queue c) = ''rmt-log.txt'' \<and> lq_ack_file (client_queue c) = ''rmt-ack.txt'' \<and>
     config_path (ke_home kenv) \<notin> {''rmt-log.txt'', ''rmt-ack.txt''} \<and>
     queue_holds hist j (client_queue c) (cc_fs c)"

definition server_knows :: "ClientInfo \<Rightarrow> LogEntry list \<Rightarrow> Server \<Rightarrow> bool" where
  "server_knows info held s \<longleftrightarrow>
     server_ok s \<and> distinct_addresses s \<and> (\<exists>i. (i, info) \<in> set (sv_client_handlers s)) \<and>
     sv_outbox s = [] \<and> server_holds info (sv_fs s) held"

definition net_rel :: "client_env \<Rightarrow> network \<Rightarrow> transfer \<Rightarrow> bool" where
  "net_rel kenv n t \<longleftrightarrow>
     client_holds kenv (nw_hist n) (tr_from t) (nw_client n) \<and>
     server_knows (nw_info n) (take (tr_stored t) (nw_hist n)) (nw_server n) \<and>
     tr_total t = length (nw_hist n) \<and>
     (\<forall>p \<in> nw_up n. write_string ''config ok'' = Inr p \<or>
        (\<exists>(i, b) \<in> tr_up t. log_payload (take b (drop i (nw_hist n))) = Inr p \<and> b \<le> 100)) \<and>
     (\<forall>p \<in> nw_down n. \<exists>a \<in> tr_down t. ack_payload (of_nat a) = Inr p)"

text \<open>Both programs just started, with nothing logged.\<close>

definition net_start :: "client_env \<Rightarrow> network \<Rightarrow> bool" where
  "net_start kenv n \<longleftrightarrow>
     client_holds kenv [] 0 (nw_client n) \<and> server_knows (nw_info n) [] (nw_server n) \<and>
     nw_up n = {} \<and> nw_down n = {} \<and> nw_hist n = []"

lemma net_rel_start: "net_start kenv n \<Longrightarrow> net_rel kenv n transfer_start"
  by (simp add: net_start_def net_rel_def transfer_start_def)

section \<open>The client's steps\<close>

lemma new_logs_length:
  "length (new_logs m now c) \<le> 4 * length (client_config c)"
proof -
  have "length (entry_findings m e) \<le> 4" for e
    unfolding entry_findings_def Let_def length_map
    by (rule order_trans [OF length_filter_le]) simp
  then have "length (findings m es) \<le> 4 * length es" for es
    by (induction es) (auto simp: findings_def add_mono)
  then show ?thesis by (simp add: new_logs_def)
qed

lemma queue_holds_log_events:
  "queue_holds hist j (fst st) (snd st) \<Longrightarrow>
     list_all (\<lambda>(name, ty, v). bar \<notin> set name \<and> newline \<notin> set name \<and> length name < 2 ^ 32 \<and>
       proper_type ty) fs \<Longrightarrow>
     length hist + length fs + 1 < 2 ^ 64 \<Longrightarrow>
     queue_holds (hist @ number (lq_new_id (fst st)) now fs) j
       (fst (log_events now fs st)) (snd (log_events now fs st))"
proof (induction now fs st arbitrary: hist rule: log_events.induct)
  case (1 now st)
  then show ?case by simp
next
  case (2 now name ty v fs st)
  let ?e = "LogEntry_new (lq_new_id (fst st)) name now ty v"
  from "2.prems"(1) obtain a c where "queue_at hist j a c (fst st) (snd st)"
    by (auto simp: queue_holds_def)
  then have "queue_at (hist @ [?e]) j a c (fst (log_event name now ty v (fst st) (snd st)))
      (snd (log_event name now ty v (fst st) (snd st)))"
    using "2.prems"(2,3)
    by (intro queue_at_log_event) (simp_all add: storable_def sendable_def LogEntry_new_def)
  then have "queue_holds (hist @ [?e]) j (fst (log_event name now ty v (fst st) (snd st)))
      (snd (log_event name now ty v (fst st) (snd st)))"
    by (auto simp: queue_holds_def)
  from "2.IH" [OF this] "2.prems"(2,3) show ?case
    by (simp add: log_event_fields)
qed

lemma loggable_findings:
  assumes "loggable es"
  shows "list_all (\<lambda>(name, ty, v). bar \<notin> set name \<and> newline \<notin> set name \<and> length name < 2 ^ 32 \<and>
    proper_type ty) (findings m es)"
  unfolding list_all_iff
proof
  fix f assume "f \<in> set (findings m es)"
  from findings_names [OF this] assms show "case f of (name, ty, v) \<Rightarrow>
      bar \<notin> set name \<and> newline \<notin> set name \<and> length name < 2 ^ 32 \<and> proper_type ty"
    by (auto simp: loggable_def list_all_iff)
qed

lemma generate_log_holds:
  assumes "client_holds kenv hist j c" and "generate_log m now (cc_logger c) (cc_fs c) = (l, fs)"
    and "length hist + length (new_logs m now c) + 1 < 2 ^ 64"
  shows "client_holds kenv (hist @ new_logs m now c) j (c\<lparr>cc_logger := l, cc_fs := fs\<rparr>)"
proof -
  let ?st = "log_events now (findings m (client_config c)) (client_queue c, cc_fs c)"
  have l: "l = (cc_logger c)\<lparr>cl_log_queue := fst ?st\<rparr>" and fs: "fs = snd ?st"
    using assms(2) by (auto simp: generate_log_def generate_log_loop_findings case_prod_beta)
  have "queue_holds (hist @ new_logs m now c) j (fst ?st) (snd ?st)"
    using queue_holds_log_events [of hist j "(client_queue c, cc_fs c)" "findings m (client_config c)" now]
      assms(1,3) loggable_findings [of "client_config c" m]
    by (simp add: client_holds_def new_logs_def)
  with assms(1) show ?thesis
    by (simp add: client_holds_def l fs log_events_fields)
qed

lemma client_tick_holds:
  assumes "client_holds kenv hist j c" and "client_tick kenv m now c = (Inr (), c')"
    and "length hist + length (new_logs m now c) + 1 < 2 ^ 64"
  shows "client_holds kenv (hist @ new_logs m now c) j (c'\<lparr>cc_outbox := []\<rparr>)"
    and "\<exists>b \<le> 100. j + b \<le> length (hist @ new_logs m now c) \<and>
      (\<forall>p \<in> set (cc_outbox c'). log_payload (take b (drop j (hist @ new_logs m now c))) = Inr p)"
proof -
  obtain l fs where g: "generate_log m now (cc_logger c) (cc_fs c) = (l, fs)"
    by (cases "generate_log m now (cc_logger c) (cc_fs c)")
  note h = generate_log_holds [OF assms(1) g assms(3)]
  let ?hist = "hist @ new_logs m now c" and ?q = "cl_log_queue l"
  from h have es: "lq_log_entries ?q = drop j ?hist" and hist: "history ?hist" and j: "j \<le> length ?hist"
    by (auto simp: client_holds_def queue_holds_def queue_at_def)
  have "client_ok c" using assms(1) by (simp add: client_holds_def)
  from client_tick_sends [OF this g, of kenv] history_slice(2) [OF hist, of j] obtain p where
    p: "log_payload (take (batch_size ?q) (drop j ?hist)) = Inr p"
    and c': "c' = c\<lparr>cc_logger := l, cc_fs := fs,
        cc_outbox := cc_outbox c @ (if batch_size ?q = 0 then [] else [p])\<rparr>"
    using assms(2) by (auto simp: es)
  from h show "client_holds kenv ?hist j (c'\<lparr>cc_outbox := []\<rparr>)"
    by (simp add: client_holds_def c')
  have "batch_size ?q \<le> length (drop j ?hist)"
    using mod_less_eq_dividend [of "length (drop j ?hist)" "2 ^ 32"]
    by (simp only: batch_size_def es min.coboundedI2)
  then have "j + batch_size ?q \<le> length ?hist" using j by simp
  moreover have "batch_size ?q \<le> 100" by (simp add: batch_size_def)
  ultimately show "\<exists>b \<le> 100. j + b \<le> length ?hist \<and>
      (\<forall>p \<in> set (cc_outbox c'). log_payload (take b (drop j ?hist)) = Inr p)"
    using p assms(1) by (intro exI [of _ "batch_size ?q"]) (simp add: c' client_holds_def)
qed

lemma client_ack_holds:
  assumes "client_holds kenv hist j c" and "i \<le> length hist" and p: "ack_payload (of_nat i) = Inr p"
    and r: "receive_server_input kenv p c = (Inr (), c')"
  shows "client_holds kenv hist (max j i) (c'\<lparr>cc_outbox := []\<rparr>)" and "cc_outbox c' = []"
proof -
  obtain q fs where q: "ack_log (of_nat i) (client_queue c) (cc_fs c) = (q, fs)"
    by (cases "ack_log (of_nat i) (client_queue c) (cc_fs c)")
  have ok: "client_ok c" using assms(1) by (simp add: client_holds_def)
  have c': "c' = with_queue q fs c" using receive_ack [OF ok p, of kenv] r q by simp
  from assms(1) obtain a b where "queue_at hist j a b (client_queue c) (cc_fs c)"
    by (auto simp: client_holds_def queue_holds_def)
  from queue_at_ack_log [OF this assms(2)] have "queue_holds hist (max j i) q fs"
    using q by (auto simp: queue_holds_def)
  moreover have "lq_log_file q = lq_log_file (client_queue c) \<and> lq_ack_file q = lq_ack_file (client_queue c)"
    using q by (auto simp: ack_log_def Let_def split: if_splits)
  ultimately show "client_holds kenv hist (max j i) (c'\<lparr>cc_outbox := []\<rparr>)" and "cc_outbox c' = []"
    using assms(1) by (simp_all add: client_holds_def c' with_queue_def client_ok_def)
qed

text \<open>Writing the configuration leaves the queue and its files alone.\<close>

lemma queue_holds_config_file:
  assumes "queue_holds hist j q fs" and "g \<notin> {lq_log_file q, lq_ack_file q}"
  shows "queue_holds hist j q (fs\<lparr>files := (files fs)(g \<mapsto> s)\<rparr>)"
  using assms by (auto simp: queue_holds_def queue_at_def)

lemma queue_holds_write_config:
  assumes "queue_holds hist j q fs" and "config_path home \<notin> {lq_log_file q, lq_ack_file q}"
  shows "queue_holds hist j q (snd (write_config dump mkdir_ok home cfg fs))"
    and "queue_holds hist j q (snd (Config_destroy dump mkdir_ok home cfg fs))"
  using write_config_files [of dump mkdir_ok home cfg fs] queue_holds_config_file [OF assms] assms(1)
  by (auto simp: snd_Config_destroy)

lemma store_config_holds:
  assumes "client_holds kenv hist j c" and "loggable es" and "store_config kenv es c = (Inr (), c')"
  shows "client_holds kenv hist j c'"
proof -
  let ?cfg = "\<lparr>config_entries = es\<rparr>"
  let ?fs1 = "snd (write_config (ke_dump kenv) (ke_mkdir_ok kenv) (ke_home kenv) ?cfg (cc_fs c))"
  let ?fs2 = "snd (Config_destroy (ke_dump kenv) (ke_mkdir_ok kenv) (ke_home kenv) ?cfg ?fs1)"
  have "c' = c\<lparr>cc_logger := (cc_logger c)\<lparr>cl_config := ?cfg\<rparr>, cc_fs := ?fs2\<rparr>"
    using assms(3)
    by (auto simp: store_config_def set_config_def Let_def split: prod.splits sum.splits)
  moreover have "queue_holds hist j (client_queue c) ?fs2"
    using assms(1) by (intro queue_holds_write_config) (auto simp: client_holds_def)
  ultimately show ?thesis
    using assms(1,2) by (simp add: client_holds_def)
qed

lemma client_configure_holds:
  assumes "client_holds kenv hist j c" and "loggable es"
    and p: "write_string (''config '' @ content) = Inr p" and "ke_parse kenv content = Inr es"
    and s: "store_config kenv es c = (Inr (), c1)" and r: "receive_server_input kenv p c = (Inr (), c')"
  shows "client_holds kenv hist j (c'\<lparr>cc_outbox := []\<rparr>)"
    and "\<forall>p \<in> set (cc_outbox c'). write_string ''config ok'' = Inr p"
proof -
  note h = store_config_holds [OF assms(1,2) s]
  have "client_ok c" and "client_ok c1" using assms(1) h by (simp_all add: client_holds_def)
  from receive_config [OF this(1) p assms(4) s this(2)] obtain reply where
    "c' = c1\<lparr>cc_outbox := cc_outbox c1 @ [reply]\<rparr>" and "write_string ''config ok'' = Inr reply"
    using r by auto
  with h show "client_holds kenv hist j (c'\<lparr>cc_outbox := []\<rparr>)"
    and "\<forall>p \<in> set (cc_outbox c'). write_string ''config ok'' = Inr p"
    by (simp_all add: client_holds_def)
qed

lemma startup_config_holds:
  assumes "queue_holds hist j q fs" and "config_path (ke_home kenv) \<notin> {lq_log_file q, lq_ack_file q}"
  shows "queue_holds hist j q (snd (startup_config kenv fs))"
  using queue_holds_write_config(2) [OF assms, of "ke_dump kenv" "ke_mkdir_ok kenv" default_config]
    assms(1)
  by (auto simp: startup_config_def split: sum.splits prod.splits)

lemma client_restart_holds:
  assumes "client_holds kenv hist j c" and start: "client_start kenv ip port (cc_fs c) = Some (Inr c', fs')"
    and ne: "lq_log_entries (client_queue c') \<noteq> []" and "loggable (client_config c')"
  shows "\<exists>j' \<le> j. client_holds kenv hist j' c'"
proof -
  let ?q = "client_queue c"
  have path: "config_path (ke_home kenv) \<notin> {lq_log_file ?q, lq_ack_file ?q}"
    and names: "lq_log_file ?q = ''rmt-log.txt''" "lq_ack_file ?q = ''rmt-ack.txt''"
    using assms(1) by (simp_all add: client_holds_def)
  obtain cfg fs1 where cfg: "startup_config kenv (cc_fs c) = (Inr cfg, fs1)"
    using start by (auto simp: client_start_eq split: prod.splits sum.splits)
  have "queue_holds hist j ?q fs1"
    using startup_config_holds [of hist j ?q "cc_fs c" kenv] assms(1) path cfg
    by (simp add: client_holds_def)
  then obtain a b where q: "queue_at hist j a b ?q fs1" by (auto simp: queue_holds_def)
  define q' where "q' = ?q\<lparr>lq_log_entries := drop (max a b) hist,
    lq_new_id := (if max a b < length hist then lq_new_id ?q else 1)\<rparr>"
  have new: "LogQueue_new (ke_mem_ack kenv) (in_num (ke_indet kenv)) (in_entry (ke_indet kenv))
      ''rmt-log.txt'' ''rmt-ack.txt'' fs1 = Some (q', fs1)"
    using queue_at_reopen [OF q] names by (simp add: q'_def)
  have c': "cc_logger c' = \<lparr>cl_config = cfg, cl_log_queue = q'\<rparr>" "cc_outbox c' = []"
    "cc_fs c' = snd (Config_destroy (ke_dump kenv) (ke_mkdir_ok kenv) (ke_home kenv) cfg
       (LogQueue_destroy q' fs1))" "client_ok c'"
    using start
    by (auto simp: client_start_eq cfg new Let_def client_ok_def subscribe_def EventBus_new_def
        split: prod.splits sum.splits)
  then have lt: "max a b < length hist" using ne by (simp add: q'_def not_le flip: not_less)
  with queue_at_reopened [OF q] have "queue_at hist (max a b) a b q' fs1" by (simp add: q'_def)
  from queue_at_destroy [OF this] have "queue_holds hist (max a b) q' (LogQueue_destroy q' fs1)"
    by (auto simp: queue_holds_def)
  then have "queue_holds hist (max a b) q' (cc_fs c')"
    unfolding c'(3) using path by (intro queue_holds_write_config) (simp_all add: q'_def)
  moreover have "max a b \<le> j" using q by (simp add: queue_at_def)
  ultimately show ?thesis
    using assms(1,4) c' by (intro exI [of _ "max a b"]) (simp add: client_holds_def q'_def)
qed

section \<open>The server's steps\<close>

lemma take_append_slice:
  assumes "i \<le> k" and "k \<le> length xs" and "i + b \<le> length xs"
  shows "take k xs @ drop (k - i) (take b (drop i xs)) = take (max k (i + b)) xs"
proof (cases "i + b \<le> k")
  case True
  then show ?thesis using assms by (simp add: max_def)
next
  case False
  have "drop (k - i) (take b (drop i xs)) = take (i + b - k) (drop k xs)"
    using assms(1) by (simp add: drop_take add.commute)
  moreover have "take k xs @ take (i + b - k) (drop k xs) = take (k + (i + b - k)) xs"
    by (rule take_add [symmetric])
  ultimately show ?thesis using False by (simp add: max_def)
qed

lemma server_batch:
  assumes knows: "server_knows info (take k hist) s" and hist: "history hist"
    and ik: "i \<le> k" "k \<le> length hist" "i + b \<le> length hist" "b \<le> 100"
    and p: "log_payload (take b (drop i hist)) = Inr p"
  shows "\<exists>ack fs'. server_publish senv (NetworkRecvEvent (ci_client_ip info) (ci_client_port info) p) s =
      (Inr (), s\<lparr>sv_fs := fs', sv_outbox := [(ci_client_socket info, ack)]\<rparr>) \<and>
    ack_payload (of_nat (max k (i + b))) = Inr ack \<and>
    server_knows info (take (max k (i + b)) hist) (s\<lparr>sv_fs := fs'\<rparr>)"
proof -
  let ?batch = "take b (drop i hist)"
  obtain h where h: "(h, info) \<in> set (sv_client_handlers s)" using knows by (auto simp: server_knows_def)
  have len: "length (take k hist) = k" "length ?batch = b" using ik by simp_all
  note batch = history_slice(3,4) [OF hist, of b i] history_ids_slice [OF hist ik(3)]
  have big: "length hist + 1 < 2 ^ 64" using hist by (simp add: history_def)
  have s: "server_ok s" "distinct_addresses s" "server_holds info (sv_fs s) (take k hist)" "sv_outbox s = []"
    using knows by (simp_all add: server_knows_def)
  from publish_log_batch [OF s(1,2) h s(3) p batch(2) _ batch(1), of i senv] obtain ack fs' where
    "server_publish senv (NetworkRecvEvent (ci_client_ip info) (ci_client_port info) p) s =
      (Inr (), s\<lparr>sv_fs := fs', sv_outbox := sv_outbox s @ [(ci_client_socket info, ack)]\<rparr>)"
    and ack: "ack_payload (of_nat (max k (i + b))) = Inr ack"
    and held: "server_holds info fs' (take k hist @ drop (k - i) ?batch)"
    using ik big batch(3) unfolding len by auto
  moreover have "server_knows info (take (max k (i + b)) hist) (s\<lparr>sv_fs := fs'\<rparr>)"
    using knows held same_clients_ok [of s "s\<lparr>sv_fs := fs'\<rparr>"] take_append_slice [OF ik(1-3)]
    by (simp add: server_knows_def distinct_addresses_def)
  ultimately show ?thesis using s(4) by auto
qed

text \<open>The answer to a configuration changes nothing at the server.\<close>

lemma server_config_ok:
  assumes "server_knows info held s" and p: "write_string ''config ok'' = Inr p"
  shows "server_publish senv (NetworkRecvEvent (ci_client_ip info) (ci_client_port info) p) s = (Inr (), s)"
proof -
  from assms(1) obtain h where h: "(h, info) \<in> set (sv_client_handlers s)"
    and s: "server_ok s" "distinct_addresses s"
    by (auto simp: server_knows_def)
  have "read_string (stream_of p) = Inr (''config ok'', stream_of [])"
    using parsesD_all [OF parses_string [OF p]] .
  then show ?thesis
    unfolding publish_recv [OF s h] by (simp add: server_call.simps)
qed

lemma server_holds_ip:
  "ci_client_ip info' = ci_client_ip info \<Longrightarrow> server_holds info' fs held = server_holds info fs held"
  by (simp add: server_holds_def client_log_file_def)

lemma server_accept_knows:
  assumes "server_ok s" and "distinct_addresses s" and "sv_outbox s = []"
    and "server_holds info (sv_fs s) held"
    and "(ci_client_ip info, port) \<notin>
      (\<lambda>(i, c). (ci_client_ip c, ci_client_port c)) ` set (sv_client_handlers s)"
  shows "server_knows (ClientInfo_new (sv_next_client_id s) sock (ci_client_ip info) port) held
    (accept_new_client sock (ci_client_ip info) port s)"
proof -
  let ?info = "ClientInfo_new (sv_next_client_id s) sock (ci_client_ip info) port"
  have "server_holds ?info (sv_fs s) held"
    using assms(4) server_holds_ip [of ?info info] by (simp add: ClientInfo_new_def)
  moreover have "server_ok (accept_new_client sock (ci_client_ip info) port s)"
    using assms(1) by (rule server_ok_accept)
  ultimately show ?thesis
    using assms(2,3,5) unfolding server_knows_def accept_new_client_fields [OF assms(1)]
    by (auto simp: distinct_addresses_def Let_def ClientInfo_new_def)
qed

section \<open>The system implements the contract\<close>

lemma net_up_grow:
  assumes "transfer_ok t" and "tr_total t = length hist"
    and "\<exists>(i, b) \<in> tr_up t. log_payload (take b (drop i hist)) = Inr p \<and> b \<le> 100"
  shows "\<exists>(i, b) \<in> tr_up t. log_payload (take b (drop i (hist @ new))) = Inr p \<and> b \<le> 100"
proof -
  from assms(3) obtain i b where ib: "(i, b) \<in> tr_up t" "log_payload (take b (drop i hist)) = Inr p" "b \<le> 100"
    by blast
  then have "i + b \<le> length hist" using assms(1,2) by (auto simp: transfer_ok_def)
  with ib show ?thesis by (intro bexI [of _ "(i, b)"]) auto
qed

lemma simulate_tick:
  assumes rel: "net_rel kenv n t" and ok: "transfer_ok t"
    and tick: "client_tick kenv m now (nw_client n) = (Inr (), c)"
    and bound: "length (nw_hist n) + length (new_logs m now (nw_client n)) + 1 < 2 ^ 64"
  shows "\<exists>t'. transfer_step\<^sup>*\<^sup>* t t' \<and>
    net_rel kenv (from_client c (n\<lparr>nw_hist := nw_hist n @ new_logs m now (nw_client n)\<rparr>)) t'"
proof -
  let ?new = "new_logs m now (nw_client n)"
  have total: "tr_total t = length (nw_hist n)" using rel by (simp add: net_rel_def)
  have "client_holds kenv (nw_hist n) (tr_from t) (nw_client n)" using rel by (simp add: net_rel_def)
  note holds = client_tick_holds [OF this tick bound]
  from holds(2) obtain b where b: "b \<le> 100" "tr_from t + b \<le> length (nw_hist n @ ?new)"
    "\<forall>p \<in> set (cc_outbox c). log_payload (take b (drop (tr_from t) (nw_hist n @ ?new))) = Inr p" by blast
  let ?t1 = "t\<lparr>tr_total := tr_total t + length ?new\<rparr>"
  let ?t2 = "?t1\<lparr>tr_up := insert (tr_from ?t1, b) (tr_up ?t1)\<rparr>"
  have "transfer_step t ?t1" by (rule produce)
  moreover have "transfer_step ?t1 ?t2" using b(2) total by (intro send) simp
  ultimately have steps: "transfer_step\<^sup>*\<^sup>* t ?t2" by simp
  have "take (tr_stored t) (nw_hist n @ ?new) = take (tr_stored t) (nw_hist n)"
    using ok total by (simp add: transfer_ok_def)
  moreover have "write_string ''config ok'' = Inr p \<or> (\<exists>(i, b) \<in> tr_up ?t2.
      log_payload (take b (drop i (nw_hist n @ ?new))) = Inr p \<and> b \<le> 100)"
    if "p \<in> nw_up n \<union> set (cc_outbox c)" for p
  proof (cases "p \<in> set (cc_outbox c)")
    case True
    then show ?thesis
      using b by (intro disjI2 bexI [of _ "(tr_from t, b)"]) simp_all
  next
    case False
    then have "write_string ''config ok'' = Inr p \<or>
        (\<exists>(i, b) \<in> tr_up t. log_payload (take b (drop i (nw_hist n))) = Inr p \<and> b \<le> 100)"
      using rel that unfolding net_rel_def by blast
    then show ?thesis using net_up_grow [OF ok total, of p ?new] by auto
  qed
  ultimately have "net_rel kenv (from_client c (n\<lparr>nw_hist := nw_hist n @ ?new\<rparr>)) ?t2"
    using rel holds(1) total
    by (simp add: net_rel_def from_client_def del: take_append drop_append)
  with steps show ?thesis by blast
qed

lemma simulate_up:
  assumes rel: "net_rel kenv n t" and ok: "transfer_ok t" and p: "p \<in> nw_up n"
    and pub: "server_publish senv
      (NetworkRecvEvent (ci_client_ip (nw_info n)) (ci_client_port (nw_info n)) p) (nw_server n) = (Inr (), s)"
  shows "\<exists>t'. transfer_step\<^sup>*\<^sup>* t t' \<and> net_rel kenv (from_server s n) t'"
proof -
  have knows: "server_knows (nw_info n) (take (tr_stored t) (nw_hist n)) (nw_server n)"
    using rel by (simp add: net_rel_def)
  have hist: "history (nw_hist n)"
    using rel by (auto simp: net_rel_def client_holds_def queue_holds_def queue_at_def)
  have total: "tr_total t = length (nw_hist n)" using rel by (simp add: net_rel_def)
  consider "write_string ''config ok'' = Inr p"
    | i b where "(i, b) \<in> tr_up t" "log_payload (take b (drop i (nw_hist n))) = Inr p" "b \<le> 100"
    using rel p by (fastforce simp: net_rel_def)
  then show ?thesis
  proof cases
    case 1
    have "s = nw_server n" using server_config_ok [OF knows 1, of senv] pub by simp
    then have "net_rel kenv (from_server s n) t"
      using rel by (simp add: net_rel_def from_server_def server_knows_def)
    then show ?thesis by blast
  next
    case (2 i b)
    let ?k = "max (tr_stored t) (i + b)"
    let ?t = "t\<lparr>tr_stored := ?k, tr_down := insert ?k (tr_down t)\<rparr>"
    have "i \<le> tr_stored t" "tr_stored t \<le> length (nw_hist n)" "i + b \<le> length (nw_hist n)"
      using ok 2(1) total by (auto simp: transfer_ok_def)
    from server_batch [OF knows hist this 2(3,2), of senv] obtain ack fs' where
      "s = (nw_server n)\<lparr>sv_fs := fs', sv_outbox := [(ci_client_socket (nw_info n), ack)]\<rparr>"
      and "ack_payload (of_nat ?k) = Inr ack"
      and "server_knows (nw_info n) (take ?k (nw_hist n)) ((nw_server n)\<lparr>sv_fs := fs'\<rparr>)"
      using pub by auto
    then have "net_rel kenv (from_server s n) ?t"
      using rel by (auto simp: net_rel_def from_server_def server_knows_def server_ok_def distinct_addresses_def)
    then show ?thesis using store [OF 2(1)] by blast
  qed
qed

lemma simulate_down:
  assumes rel: "net_rel kenv n t" and ok: "transfer_ok t" and p: "p \<in> nw_down n"
    and recv: "receive_server_input kenv p (nw_client n) = (Inr (), c)"
  shows "\<exists>t'. transfer_step\<^sup>*\<^sup>* t t' \<and> net_rel kenv (from_client c n) t'"
proof -
  from rel p obtain a where a: "a \<in> tr_down t" "ack_payload (of_nat a) = Inr p"
    by (auto simp: net_rel_def)
  then have "a \<le> length (nw_hist n)" using ok rel by (auto simp: transfer_ok_def net_rel_def)
  moreover have "client_holds kenv (nw_hist n) (tr_from t) (nw_client n)" using rel by (simp add: net_rel_def)
  ultimately have "net_rel kenv (from_client c n) (t\<lparr>tr_from := max (tr_from t) a\<rparr>)"
    using client_ack_holds [OF _ _ a(2) recv, of "nw_hist n" "tr_from t"] rel
    by (simp add: net_rel_def from_client_def)
  then show ?thesis using acked [OF a(1)] by blast
qed

lemma simulation:
  assumes "net_step kenv senv n n'" and rel: "net_rel kenv n t" and ok: "transfer_ok t"
  shows "\<exists>t'. transfer_step\<^sup>*\<^sup>* t t' \<and> net_rel kenv n' t'"
  using assms(1)
proof (cases rule: net_step.cases)
  case (tick m now c)
  then show ?thesis using simulate_tick [OF rel ok] by blast
next
  case (up p s)
  then show ?thesis using simulate_up [OF rel ok] by blast
next
  case (down p c)
  then show ?thesis using simulate_down [OF rel ok] by blast
next
  case (configure content p es c' c)
  have "client_holds kenv (nw_hist n) (tr_from t) (nw_client n)" using rel by (simp add: net_rel_def)
  from client_configure_holds [OF this configure(4,2,3,5,6)] have "net_rel kenv n' t"
    using rel configure(1) by (auto simp: net_rel_def from_client_def)
  then show ?thesis by blast
next
  case (lose U D)
  have "net_rel kenv n' t" using rel lose by (auto simp: net_rel_def)
  then show ?thesis by blast
next
  case (client_restart ip port c fs)
  have "client_holds kenv (nw_hist n) (tr_from t) (nw_client n)" using rel by (simp add: net_rel_def)
  from client_restart_holds [OF this client_restart(2-4)] obtain j where
    "j \<le> tr_from t" and "client_holds kenv (nw_hist n) j c" by blast
  then have "net_rel kenv n' (t\<lparr>tr_from := j\<rparr>)" using rel client_restart(1) by (simp add: net_rel_def)
  then show ?thesis using reload [OF \<open>j \<le> tr_from t\<close>] by blast
next
  case (reconnect port sock)
  have "net_rel kenv n' t"
    using rel server_accept_knows [OF _ _ _ _ reconnect(2), of "take (tr_stored t) (nw_hist n)" sock]
    by (simp add: net_rel_def server_knows_def reconnect(1))
  then show ?thesis by blast
next
  case (server_restart sock port)
  let ?s = "server_start (sv_fs (nw_server n))"
  have "server_holds (nw_info n) (sv_fs ?s) (take (tr_stored t) (nw_hist n))"
    using rel by (simp add: net_rel_def server_knows_def server_start_def)
  then have "server_knows (ClientInfo_new (sv_next_client_id ?s) sock (ci_client_ip (nw_info n)) port)
      (take (tr_stored t) (nw_hist n)) (accept_new_client sock (ci_client_ip (nw_info n)) port ?s)"
    by (intro server_accept_knows server_ok_start)
       (simp_all add: server_start_def distinct_addresses_def)
  then have "net_rel kenv n' t"
    using rel server_restart by (simp add: net_rel_def server_start_def)
  then show ?thesis by blast
qed

lemma simulations:
  assumes "(net_step kenv senv)\<^sup>*\<^sup>* n n'" and "net_rel kenv n t" and "transfer_ok t"
  shows "\<exists>t'. transfer_step\<^sup>*\<^sup>* t t' \<and> net_rel kenv n' t' \<and> transfer_ok t'"
  using assms(1)
proof (induction rule: rtranclp_induct)
  case base
  then show ?case using assms(2,3) by blast
next
  case (step n1 n2)
  then obtain t1 where "transfer_step\<^sup>*\<^sup>* t t1" "net_rel kenv n1 t1" "transfer_ok t1" by blast
  with simulation [OF step(2)] show ?case
    by (meson rtranclp_trans transfer_ok_steps)
qed

text \<open>What every reachable state looks like.\<close>

lemma net_rel_split:
  assumes "net_rel kenv n t" and "transfer_ok t"
  shows "\<exists>j k. j \<le> k \<and> k \<le> length (nw_hist n) \<and>
    server_holds (nw_info n) (sv_fs (nw_server n)) (take k (nw_hist n)) \<and>
    lq_log_entries (client_queue (nw_client n)) = drop j (nw_hist n)"
  using assms
  by (intro exI [of _ "tr_from t"] exI [of _ "tr_stored t"])
     (auto simp: net_rel_def transfer_ok_def server_knows_def client_holds_def queue_holds_def queue_at_def)

lemma net_hist_mono:
  "net_step kenv senv n n' \<Longrightarrow> \<exists>new. nw_hist n' = nw_hist n @ new"
  by (cases rule: net_step.cases) (auto simp: from_client_def from_server_def)

section \<open>Rounds without loss\<close>

text \<open>Everything one side has put out is delivered to the other side, in order.\<close>

fun deliver_up :: "server_env \<Rightarrow> ClientInfo \<Rightarrow> string list \<Rightarrow> Server \<Rightarrow> unit result \<times> Server" where
  "deliver_up senv info [] s = (Inr (), s)"
| "deliver_up senv info (p # ps) s =
     (case server_publish senv (NetworkRecvEvent (ci_client_ip info) (ci_client_port info) p) s of
        (Inl e, s') \<Rightarrow> (Inl e, s')
      | (Inr _, s') \<Rightarrow> deliver_up senv info ps s')"

fun deliver_down :: "client_env \<Rightarrow> string list \<Rightarrow> Client \<Rightarrow> unit result \<times> Client" where
  "deliver_down kenv [] c = (Inr (), c)"
| "deliver_down kenv (p # ps) c =
     (case receive_server_input kenv p c of
        (Inl e, c') \<Rightarrow> (Inl e, c')
      | (Inr _, c') \<Rightarrow> deliver_down kenv ps c')"

text \<open>One round of the client's main loop, its batch delivered and the answer delivered back.\<close>

definition exchange ::
  "client_env \<Rightarrow> server_env \<Rightarrow> ClientInfo \<Rightarrow> (string \<rightharpoonup> ProcessStat) \<Rightarrow> u64 \<Rightarrow> Client \<times> Server \<Rightarrow>
     (Client \<times> Server) result" where
  "exchange kenv senv info m now st =
     (case st of (c, s) \<Rightarrow>
        (case client_tick kenv m now c of
           (Inl e, _) \<Rightarrow> Inl e
         | (Inr _, c1) \<Rightarrow>
             (case deliver_up senv info (cc_outbox c1) s of
                (Inl e, _) \<Rightarrow> Inl e
              | (Inr _, s1) \<Rightarrow>
                  (case deliver_down kenv (map snd (sv_outbox s1)) (c1\<lparr>cc_outbox := []\<rparr>) of
                     (Inl e, _) \<Rightarrow> Inl e
                   | (Inr _, c2) \<Rightarrow> Inr (c2, s1\<lparr>sv_outbox := []\<rparr>)))))"

lemma exchange_round:
  assumes c: "client_holds kenv hist j c" and s: "server_knows info (take k hist) s"
    and jk: "j \<le> k" "k \<le> length hist"
    and bound: "length hist + length (new_logs m now c) + 1 < 2 ^ 64"
    and pending: "length (hist @ new_logs m now c) - j < 2 ^ 32" "j < length (hist @ new_logs m now c)"
  defines "hist' \<equiv> hist @ new_logs m now c"
  defines "k' \<equiv> max k (min (j + 100) (length hist'))"
  shows "\<exists>c' s'. exchange kenv senv info m now (c, s) = Inr (c', s') \<and>
    client_holds kenv hist' k' c' \<and> server_knows info (take k' hist') s'"
proof -
  obtain l fs where g: "generate_log m now (cc_logger c) (cc_fs c) = (l, fs)"
    by (cases "generate_log m now (cc_logger c) (cc_fs c)")
  let ?c1 = "c\<lparr>cc_logger := l, cc_fs := fs\<rparr>" and ?q = "cl_log_queue l"
  have h1: "client_holds kenv hist' j ?c1"
    using generate_log_holds [OF c g bound] by (simp add: hist'_def)
  then have es: "lq_log_entries ?q = drop j hist'" and hist: "history hist'"
    by (auto simp: client_holds_def queue_holds_def queue_at_def)
  let ?b = "batch_size ?q"
  have b: "?b = min 100 (length hist' - j)"
    using pending(1) by (simp only: batch_size_def es length_drop hist'_def mod_less)
  then have b_pos: "?b \<noteq> 0" and jb: "j + ?b = min (j + 100) (length hist')"
    using pending(2) unfolding hist'_def by auto
  have ok: "client_ok c" "cc_outbox c = []" using c by (simp_all add: client_holds_def)
  from client_tick_sends [OF ok(1) g, of kenv] history_slice(2) [OF hist, of j] obtain p where
    p: "log_payload (take ?b (drop j hist')) = Inr p"
    and tick: "client_tick kenv m now c = (Inr (), ?c1\<lparr>cc_outbox := [p]\<rparr>)"
    using b_pos ok(2) by (auto simp: es)
  have "take k hist' = take k hist" using jk by (simp add: hist'_def)
  then have s': "server_knows info (take k hist') s" using s by simp
  have le: "k \<le> length hist'" "j + ?b \<le> length hist'" "?b \<le> 100"
    using jk jb b by (simp_all add: hist'_def)
  from server_batch [OF s' hist jk(1) le p, of senv] obtain ack fs' where
    up: "server_publish senv (NetworkRecvEvent (ci_client_ip info) (ci_client_port info) p) s =
      (Inr (), s\<lparr>sv_fs := fs', sv_outbox := [(ci_client_socket info, ack)]\<rparr>)"
    and ack: "ack_payload (of_nat k') = Inr ack"
    and knows: "server_knows info (take k' hist') (s\<lparr>sv_fs := fs'\<rparr>)"
    unfolding jb k'_def by blast
  have k': "k' \<le> length hist'" "j \<le> k'" using jk le(1) by (simp_all add: k'_def)
  have c1: "c\<lparr>cc_logger := l, cc_fs := fs, cc_outbox := []\<rparr> = ?c1" using ok(2) by simp
  have s1: "s\<lparr>sv_fs := fs', sv_outbox := []\<rparr> = s\<lparr>sv_fs := fs'\<rparr>"
    using s by (simp add: server_knows_def)
  obtain c2 where down: "receive_server_input kenv ack ?c1 = (Inr (), c2)"
    using receive_ack [OF _ ack, of ?c1 kenv] h1 by (auto simp: client_holds_def)
  note acked = client_ack_holds [OF h1 k'(1) ack down]
  have "c2\<lparr>cc_outbox := []\<rparr> = c2" using acked(2) by simp
  then have "client_holds kenv hist' k' c2" using acked(1) k'(2) by (simp add: max_def)
  moreover have "exchange kenv senv info m now (c, s) = Inr (c2, s\<lparr>sv_fs := fs'\<rparr>)"
    using tick up down by (simp add: exchange_def c1 s1)
  ultimately show ?thesis using knows by blast
qed

text \<open>Rounds in which nothing exceeds its threshold.\<close>

fun quiet_rounds ::
  "client_env \<Rightarrow> server_env \<Rightarrow> ClientInfo \<Rightarrow> nat \<Rightarrow> Client \<times> Server \<Rightarrow> (Client \<times> Server) result" where
  "quiet_rounds kenv senv info 0 st = Inr st"
| "quiet_rounds kenv senv info (Suc r) st =
     bindR (exchange kenv senv info Map.empty 0 st) (quiet_rounds kenv senv info r)"

lemma new_logs_quiet: "new_logs Map.empty now c = []"
proof -
  have "entry_findings Map.empty e = []" for e
    by (simp add: entry_findings_def Let_def stat_of_def ProcessStat_default_def DiskStat_default_def
        NetworkStat_default_def disk_total_def network_total_def)
  then have "findings Map.empty es = []" for es
    by (induction es) (simp_all add: findings_def)
  then show ?thesis by (simp add: new_logs_def)
qed

lemma client_holds_all:
  assumes "client_holds kenv hist j c" and "hist = []"
  shows "j = 0"
  using assms by (auto simp: client_holds_def queue_holds_def queue_at_def)

lemma exchange_idle:
  assumes c: "client_holds kenv hist (length hist) c" and s: "server_knows info hist s"
  shows "\<exists>c'. exchange kenv senv info Map.empty now (c, s) = Inr (c', s) \<and>
    client_holds kenv hist (length hist) c'"
proof -
  obtain l fs where g: "generate_log Map.empty now (cc_logger c) (cc_fs c) = (l, fs)"
    by (cases "generate_log Map.empty now (cc_logger c) (cc_fs c)")
  let ?c1 = "c\<lparr>cc_logger := l, cc_fs := fs\<rparr>" and ?q = "cl_log_queue l"
  have "length hist + 1 < 2 ^ 64"
    using c by (auto simp: client_holds_def queue_holds_def queue_at_def history_def)
  then have h1: "client_holds kenv hist (length hist) ?c1"
    using generate_log_holds [OF c g] by (simp add: new_logs_quiet)
  then have es: "lq_log_entries ?q = []"
    by (auto simp: client_holds_def queue_holds_def queue_at_def)
  then have "batch_size ?q = 0" by (simp add: batch_size_def)
  moreover have ok: "client_ok c" "cc_outbox c = []" using c by (simp_all add: client_holds_def)
  ultimately have "client_tick kenv Map.empty now c = (Inr (), ?c1\<lparr>cc_outbox := []\<rparr>)"
    using client_tick_sends [OF ok(1) g, of kenv] es by auto
  moreover have "?c1\<lparr>cc_outbox := []\<rparr> = ?c1" and "s\<lparr>sv_outbox := []\<rparr> = s"
    using ok(2) s by (simp_all add: server_knows_def)
  ultimately have "exchange kenv senv info Map.empty now (c, s) = Inr (?c1, s)"
    using s ok(2) by (simp add: exchange_def server_knows_def)
  with h1 show ?thesis by blast
qed

text \<open>One round empties a hundred entries of the queue; enough rounds empty it.\<close>

lemma quiet_rounds_drain:
  "client_holds kenv hist j c \<Longrightarrow> server_knows info (take k hist) s \<Longrightarrow> j \<le> k \<Longrightarrow> k \<le> length hist \<Longrightarrow>
     length hist - j < 2 ^ 32 \<Longrightarrow> length hist \<le> j + 100 * r \<Longrightarrow>
     j < length hist \<or> k = length hist \<Longrightarrow>
     \<exists>c' s'. quiet_rounds kenv senv info r (c, s) = Inr (c', s') \<and>
       client_holds kenv hist (length hist) c' \<and> server_knows info hist s'"
proof (induction r arbitrary: j k c s)
  case 0
  then have "j = length hist" and "k = length hist" by simp_all
  with 0 show ?case by simp
next
  case (Suc r)
  have bound: "length hist + 1 < 2 ^ 64"
    using Suc.prems(1) by (auto simp: client_holds_def queue_holds_def queue_at_def history_def)
  show ?case
  proof (cases "j < length hist")
    case True
    let ?k = "max k (min (j + 100) (length hist))"
    from exchange_round [OF Suc.prems(1-4), of Map.empty 0 senv] obtain c1 s1 where
      e: "exchange kenv senv info Map.empty 0 (c, s) = Inr (c1, s1)"
      and h: "client_holds kenv hist ?k c1" "server_knows info (take ?k hist) s1"
      using True bound Suc.prems(5) by (auto simp: new_logs_quiet)
    have "?k \<le> length hist" using Suc.prems(4) by simp
    moreover have "length hist - ?k < 2 ^ 32" using Suc.prems(3,5) by simp
    moreover have "length hist \<le> ?k + 100 * r" using Suc.prems(6) by auto
    moreover have "?k < length hist \<or> ?k = length hist" using Suc.prems(4) by auto
    ultimately show ?thesis using Suc.IH [OF h order_refl] e by simp
  next
    case False
    then have j: "j = length hist" "k = length hist" using Suc.prems(3,4) by simp_all
    from exchange_idle [of kenv hist c info s senv 0] Suc.prems(1,2) obtain c1 where
      e: "exchange kenv senv info Map.empty 0 (c, s) = Inr (c1, s)"
      and h: "client_holds kenv hist (length hist) c1" by (auto simp: j)
    with Suc.IH [OF h, of "length hist" s] Suc.prems(2) show ?thesis by (simp add: j)
  qed
qed

lemma network_drains:
  assumes "net_start kenv n0" and "(net_step kenv senv)\<^sup>*\<^sup>* n0 n"
    and "length (lq_log_entries (client_queue (nw_client n))) \<le> 100 * r"
    and "length (lq_log_entries (client_queue (nw_client n))) < 2 ^ 32"
  shows "\<exists>c s. quiet_rounds kenv senv (nw_info n) r (nw_client n, nw_server n) = Inr (c, s) \<and>
    lq_log_entries (client_queue c) = [] \<and> server_holds (nw_info n) (sv_fs s) (nw_hist n)"
proof -
  let ?hist = "nw_hist n"
  from simulations [OF assms(2) net_rel_start [OF assms(1)] transfer_ok_start] obtain t where
    t: "net_rel kenv n t" "transfer_ok t" by blast
  have c: "client_holds kenv ?hist (tr_from t) (nw_client n)"
    and s: "server_knows (nw_info n) (take (tr_stored t) ?hist) (nw_server n)"
    and le: "tr_from t \<le> tr_stored t" "tr_stored t \<le> length ?hist"
    using t by (simp_all add: net_rel_def transfer_ok_def)
  have "lq_log_entries (client_queue (nw_client n)) = drop (tr_from t) ?hist"
    using c by (auto simp: client_holds_def queue_holds_def queue_at_def)
  then have "length ?hist - tr_from t < 2 ^ 32" and "length ?hist \<le> tr_from t + 100 * r"
    using assms(3,4) by simp_all
  moreover have "tr_from t < length ?hist \<or> tr_stored t = length ?hist" using le by auto
  ultimately obtain c' s' where "quiet_rounds kenv senv (nw_info n) r (nw_client n, nw_server n) = Inr (c', s')"
    and "client_holds kenv ?hist (length ?hist) c'" and "server_knows (nw_info n) ?hist s'"
    using quiet_rounds_drain [OF c s le] by blast
  then show ?thesis
    by (auto simp: client_holds_def queue_holds_def queue_at_def server_knows_def)
qed

section \<open>The first start\<close>

lemma loggable_default: "loggable (config_entries default_config)"
  by (simp add: loggable_def default_config_def ConfigEntry_new_def convert_after_read_def)

text \<open>Without a configuration file the client starts with the default configuration and writes it.\<close>

lemma default_start:
  assumes "files fs (config_path (ke_home kenv)) = None" and "\<not> no_write fs (config_path (ke_home kenv))"
    and "ke_mkdir_ok kenv"
    and "ke_dump kenv (map convert_before_write (config_entries default_config)) = Inr text'"
    and new: "LogQueue_new (ke_mem_ack kenv) (in_num (ke_indet kenv)) (in_entry (ke_indet kenv))
      ''rmt-log.txt'' ''rmt-ack.txt'' (fs\<lparr>files := (files fs)(config_path (ke_home kenv) \<mapsto> text')\<rparr>) = Some (q, fs2)"
    and "no_write fs2 = no_write fs"
  shows "\<exists>c fs3. client_start kenv ip port fs = Some (Inr c, fs3) \<and> client_ok c \<and> cc_outbox c = [] \<and>
    cc_logger c = \<lparr>cl_config = default_config, cl_log_queue = q\<rparr> \<and>
    cc_fs c = (LogQueue_destroy q fs2)
      \<lparr>files := (files (LogQueue_destroy q fs2))(config_path (ke_home kenv) \<mapsto> text')\<rparr>"
proof -
  have "startup_config kenv fs =
      (Inr default_config, fs\<lparr>files := (files fs)(config_path (ke_home kenv) \<mapsto> text')\<rparr>)"
    using assms(1-4)
    by (simp add: startup_config_def read_config_def open_in_def Config_destroy_def write_config_ok)
  moreover have "Config_destroy (ke_dump kenv) (ke_mkdir_ok kenv) (ke_home kenv) default_config
      (LogQueue_destroy q fs2) = (Inr (), (LogQueue_destroy q fs2)
        \<lparr>files := (files (LogQueue_destroy q fs2))(config_path (ke_home kenv) \<mapsto> text')\<rparr>)"
    using assms(2-4,6) by (simp add: Config_destroy_def write_config_ok destroy_perms)
  ultimately show ?thesis
    using new by (simp add: client_start_eq Let_def client_ok_def subscribe_def EventBus_new_def)
qed

text \<open>Without any file: an empty history.\<close>

lemma first_start:
  assumes "files fs ''rmt-log.txt'' = None" and "files fs ''rmt-ack.txt'' = None"
    and "files fs (config_path (ke_home kenv)) = None"
    and "no_read fs = (\<lambda>_. False)" and "no_write fs = (\<lambda>_. False)" and "ke_mkdir_ok kenv"
    and "ke_dump kenv (map convert_before_write (config_entries default_config)) = Inr text'"
    and "config_path (ke_home kenv) \<notin> {''rmt-log.txt'', ''rmt-ack.txt''}"
  shows "\<exists>c fs'. client_start kenv ip port fs = Some (Inr c, fs') \<and> client_holds kenv [] 0 c \<and>
    cl_config (cc_logger c) = default_config"
proof -
  let ?path = "config_path (ke_home kenv)"
  let ?fs1 = "fs\<lparr>files := (files fs)(?path \<mapsto> text')\<rparr>"
  let ?fs2 = "fs\<lparr>files := (files fs)(?path \<mapsto> text', ''rmt-ack.txt'' \<mapsto> ''0'', ''rmt-log.txt'' \<mapsto> [])\<rparr>"
  let ?q = "\<lparr>lq_log_file = ''rmt-log.txt'', lq_ack_file = ''rmt-ack.txt'', lq_ack_id = 0,
    lq_log_entries = [], lq_new_id = 1\<rparr>"
  have new: "LogQueue_new (ke_mem_ack kenv) (in_num (ke_indet kenv)) (in_entry (ke_indet kenv))
      ''rmt-log.txt'' ''rmt-ack.txt'' ?fs1 = Some (?q, ?fs2)"
    using assms(1,2,4,5,8)
    by (auto simp: LogQueue_new_def load_ack_def open_in_def open_trunc_def file_simps)
  have zero: "show_nat 0 = ''0''" by (simp add: show_nat.simps digit_chars)
  have q: "queue_at [] 0 0 0 ?q ?fs2"
    using assms(4,5) zero by (simp add: queue_at_def history_def)
  from queue_at_destroy [OF q] have "queue_holds [] 0 ?q (LogQueue_destroy ?q ?fs2)"
    by (auto simp: queue_holds_def)
  then have "queue_holds [] 0 ?q ((LogQueue_destroy ?q ?fs2)
      \<lparr>files := (files (LogQueue_destroy ?q ?fs2))(?path \<mapsto> text')\<rparr>)"
    using assms(8) by (intro queue_holds_config_file) simp_all
  moreover obtain c fs3 where "client_start kenv ip port fs = Some (Inr c, fs3)"
    "client_ok c" "cc_outbox c = []" "cc_logger c = \<lparr>cl_config = default_config, cl_log_queue = ?q\<rparr>"
    "cc_fs c = (LogQueue_destroy ?q ?fs2)\<lparr>files := (files (LogQueue_destroy ?q ?fs2))(?path \<mapsto> text')\<rparr>"
    using default_start [OF assms(3) _ assms(6,7) new, of ip port] assms(5) by auto
  ultimately show ?thesis
    using assms(8) loggable_default by (simp add: client_holds_def)
qed

lemma first_accept:
  assumes "files fs (client_log_file (ClientInfo_new 1 sock ip port)) = None"
    and "no_read fs = (\<lambda>_. False)" and "no_write fs = (\<lambda>_. False)"
  shows "server_knows (ClientInfo_new 1 sock ip port) []
    (accept_new_client sock ip port (server_start fs))"
proof -
  let ?s = "server_start fs" and ?info = "ClientInfo_new 1 sock ip port"
  have "server_holds ?info (sv_fs ?s) []"
    using assms by (simp add: server_holds_def holds_logs_def server_start_def)
  then have "server_knows (ClientInfo_new (sv_next_client_id ?s) sock (ci_client_ip ?info) port) []
      (accept_new_client sock (ci_client_ip ?info) port ?s)"
    by (intro server_accept_knows server_ok_start)
       (simp_all add: server_start_def distinct_addresses_def)
  then show ?thesis by (simp add: server_start_def ClientInfo_new_def)
qed

end
