(* ===== verification/Restart_Empty.thy ===== *)
theory Restart_Empty
  imports Delivery
begin

text \<open>
  A client that restarts with an empty queue: \<^verbatim>\<open>LogQueue\<close>'s constructor sets \<^verbatim>\<open>new_id\<close> from the
  newest entry in the queue, and to 1 when there is none, although the ack file says how many ids
  are taken. The server takes the new logs for old ones; once it holds a hundred, every round
  leaves both sides where they were.
\<close>

definition renumbered :: "LogEntry list \<Rightarrow> LogEntry list \<Rightarrow> ClientInfo \<Rightarrow> Client \<times> Server \<Rightarrow> bool" where
  "renumbered held es info st \<longleftrightarrow>
     (case st of (c, s) \<Rightarrow>
        client_ok c \<and> cc_outbox c = [] \<and> loggable (client_config c) \<and>
        lq_ack_id (client_queue c) = of_nat (length held) \<and>
        lq_log_entries (client_queue c) = es \<and> history es \<and>
        lq_new_id (client_queue c) = of_nat (length es + 1) \<and>
        server_knows info held s \<and> length held + 1 < 2 ^ 64)"

lemma history_number:
  "history hist \<Longrightarrow>
     list_all (\<lambda>(name, ty, v). bar \<notin> set name \<and> newline \<notin> set name \<and> length name < 2 ^ 32 \<and>
       proper_type ty) fs \<Longrightarrow>
     length hist + length fs + 1 < 2 ^ 64 \<Longrightarrow>
     history (hist @ number (of_nat (length hist + 1)) now fs)"
proof (induction fs arbitrary: hist)
  case Nil
  then show ?case by simp
next
  case (Cons f fs)
  obtain name ty v where f: "f = (name, ty, v)" by (cases f)
  let ?e = "LogEntry_new (of_nat (length hist + 1)) name now ty v"
  have "unat (le_id ?e) = length hist + 1"
    using Cons.prems(3) by (simp add: LogEntry_new_def unat_of_nat_u64 del: of_nat_Suc of_nat_add)
  then have "history (hist @ [?e])"
    using Cons.prems by (simp add: history_def f storable_def sendable_def LogEntry_new_def)
  moreover have "(of_nat (length hist + 1) + 1 :: u64) = of_nat (length (hist @ [?e]) + 1)" by simp
  ultimately show ?case using Cons.IH [of "hist @ [?e]"] Cons.prems f by (simp add: algebra_simps)
qed

lemma renumbered_round:
  assumes r: "renumbered held es info (c, s)" and "100 \<le> length held"
    and bound: "length es + length (new_logs m now c) + 1 < 2 ^ 64"
  shows "\<exists>c' s'. exchange kenv senv info m now (c, s) = Inr (c', s') \<and>
    renumbered held (es @ new_logs m now c) info (c', s') \<and> client_config c' = client_config c"
proof -
  let ?es = "es @ new_logs m now c"
  have c: "client_ok c" "cc_outbox c = []" "loggable (client_config c)"
    "lq_log_entries (client_queue c) = es" "history es"
    "lq_new_id (client_queue c) = of_nat (length es + 1)"
    "lq_ack_id (client_queue c) = of_nat (length held)"
    and s: "server_knows info held s" and held: "length held + 1 < 2 ^ 64"
    using r by (simp_all add: renumbered_def)
  obtain l fs where g: "generate_log m now (cc_logger c) (cc_fs c) = (l, fs)"
    by (cases "generate_log m now (cc_logger c) (cc_fs c)")
  let ?c1 = "c\<lparr>cc_logger := l, cc_fs := fs\<rparr>" and ?q = "cl_log_queue l"
  have l: "l = (cc_logger c)\<lparr>cl_log_queue := (client_queue c)\<lparr>
      lq_new_id := of_nat (length ?es + 1), lq_log_entries := ?es\<rparr>\<rparr>"
    using generate_log_fields [of m now "cc_logger c" "cc_fs c"] g c(4,6)
    by (simp add: new_logs_def Let_def algebra_simps)
  have hist: "history ?es"
    using history_number [OF c(5) loggable_findings [OF c(3), of m], of now] bound c(6)
    by (simp add: new_logs_def)
  let ?b = "batch_size ?q"
  from client_tick_sends [OF c(1) g, of kenv] history_slice(2) [OF hist, of 0] obtain p where
    p: "log_payload (take ?b ?es) = Inr p"
    and tick: "client_tick kenv m now c = (Inr (), ?c1\<lparr>cc_outbox := (if ?b = 0 then [] else [p])\<rparr>)"
    using c(2) by (auto simp: l)
  have c1: "c\<lparr>cc_logger := l, cc_fs := fs, cc_outbox := []\<rparr> = ?c1" using c(2) by simp
  have r1: "renumbered held ?es info (?c1, s')" if "server_knows info held s'" for s'
    using that c held hist by (simp add: renumbered_def l client_ok_def)
  show ?thesis
  proof (cases "?b = 0")
    case True
    have "s\<lparr>sv_outbox := []\<rparr> = s" using s by (simp add: server_knows_def)
    then have "exchange kenv senv info m now (c, s) = Inr (?c1, s)"
      using tick True s c(2) by (simp add: exchange_def server_knows_def)
    with r1 [OF s] show ?thesis by (auto simp: l)
  next
    case False
    have le: "?b \<le> 100" "0 + ?b \<le> length ?es"
      using mod_less_eq_dividend [of "length ?es" "2 ^ 32"] by (simp_all add: batch_size_def l)
    obtain h where h: "(h, info) \<in> set (sv_client_handlers s)" using s by (auto simp: server_knows_def)
    have sv: "server_ok s" "distinct_addresses s" "server_holds info (sv_fs s) held" "sv_outbox s = []"
      using s by (simp_all add: server_knows_def)
    have len: "length (take ?b ?es) = ?b" using le(2) by (simp only: length_take min.absorb2 add_0)
    have bat: "ids (take ?b ?es) = [0 + 1..<0 + 1 + length (take ?b ?es)]" "length (take ?b ?es) = ?b"
      using history_ids_slice [OF hist le(2)] len unfolding drop_0 by (simp_all only:)
    have small: "length (take ?b ?es) < 2 ^ 32" "0 + length (take ?b ?es) < 2 ^ 64"
      using le(1) bat(2) by simp_all
    have fit: "list_all sendable (take ?b ?es)" "list_all storable (take ?b ?es)"
      using history_slice(3,4) [OF hist, of ?b 0] by simp_all
    have mx: "max (length held) (0 + ?b) = length held" using assms(2) le(1) by simp
    from publish_log_batch [OF sv(1,2) h sv(3) p fit(1) small(1) fit(2) bat(1) _ small(2) held, of senv]
    obtain ack fs' where
      up: "server_publish senv (NetworkRecvEvent (ci_client_ip info) (ci_client_port info) p) s =
        (Inr (), s\<lparr>sv_fs := fs', sv_outbox := [(ci_client_socket info, ack)]\<rparr>)"
      and ack: "ack_payload (of_nat (length held)) = Inr ack"
      and holds: "server_holds info fs' held"
      using assms(2) le(1) sv(4) unfolding bat(2) mx by auto
    have knows: "server_knows info held (s\<lparr>sv_fs := fs'\<rparr>)"
      using s holds by (simp add: server_knows_def)
    have "ack_log (of_nat (length held)) ?q fs = (?q, fs)" by (simp add: ack_log_def l c(7))
    then have down: "receive_server_input kenv ack ?c1 = (Inr (), ?c1)"
      using receive_ack [OF _ ack, of ?c1 kenv] c(1) by (simp add: with_queue_def client_ok_def)
    have s1: "s\<lparr>sv_fs := fs', sv_outbox := []\<rparr> = s\<lparr>sv_fs := fs'\<rparr>" using sv(4) by simp
    have "exchange kenv senv info m now (c, s) = Inr (?c1, s\<lparr>sv_fs := fs'\<rparr>)"
      using tick False up down by (simp add: exchange_def c1 s1)
    with r1 [OF knows] show ?thesis by (auto simp: l)
  qed
qed

text \<open>Any number of rounds: the server's file stays, the queue only grows.\<close>

fun rounds ::
  "client_env \<Rightarrow> server_env \<Rightarrow> ClientInfo \<Rightarrow> ((string \<rightharpoonup> ProcessStat) \<times> u64) list \<Rightarrow> Client \<times> Server \<Rightarrow>
     (Client \<times> Server) result" where
  "rounds kenv senv info [] st = Inr st"
| "rounds kenv senv info ((m, now) # ms) st =
     bindR (exchange kenv senv info m now st) (rounds kenv senv info ms)"

lemma renumbered_rounds:
  "renumbered held es info (c, s) \<Longrightarrow> 100 \<le> length held \<Longrightarrow>
     length es + length ms * (4 * length (client_config c)) + 1 < 2 ^ 64 \<Longrightarrow>
     \<exists>c' s' new. rounds kenv senv info ms (c, s) = Inr (c', s') \<and>
       renumbered held (es @ new) info (c', s')"
proof (induction ms arbitrary: es c s)
  case Nil
  then show ?case by (auto intro: exI [of _ "[]"])
next
  case (Cons x ms)
  obtain m now where x: "x = (m, now)" by (cases x)
  note len = new_logs_length [of m now c]
  have "length es + length (new_logs m now c) + 1 < 2 ^ 64" using len Cons.prems(3) by simp
  from renumbered_round [OF Cons.prems(1,2) this] obtain c1 s1 where
    e: "exchange kenv senv info m now (c, s) = Inr (c1, s1)"
    and r: "renumbered held (es @ new_logs m now c) info (c1, s1)"
    and cfg: "client_config c1 = client_config c" by blast
  from Cons.IH [OF r Cons.prems(2)] len Cons.prems(3) obtain c2 s2 new where
    "rounds kenv senv info ms (c1, s1) = Inr (c2, s2)"
    and "renumbered held ((es @ new_logs m now c) @ new) info (c2, s2)"
    by (auto simp: cfg)
  with e show ?case
    by (intro exI [of _ c2] exI [of _ s2] exI [of _ "new_logs m now c @ new"]) (simp add: x)
qed

section \<open>How a client gets there\<close>

text \<open>Everything logged is acknowledged, and the client starts again.\<close>

lemma restart_renumbered:
  assumes q: "queue_at hist (length hist) (length hist) b (client_queue c) (cc_fs c)"
    and names: "lq_log_file (client_queue c) = ''rmt-log.txt''" "lq_ack_file (client_queue c) = ''rmt-ack.txt''"
      "config_path (ke_home kenv) \<notin> {''rmt-log.txt'', ''rmt-ack.txt''}"
    and start: "client_start kenv ip port (cc_fs c) = Some (Inr c', fs')"
    and "loggable (client_config c')" and "server_knows info hist s"
  shows "renumbered hist [] info (c', s)"
proof -
  let ?q = "client_queue c"
  have small: "length hist + 1 < 2 ^ 64" using q by (simp add: queue_at_def history_def)
  obtain cfg fs1 where cfg: "startup_config kenv (cc_fs c) = (Inr cfg, fs1)"
    using start by (auto simp: client_start_eq split: prod.splits sum.splits)
  then consider "fs1 = cc_fs c"
    | "fs1 = snd (write_config (ke_dump kenv) (ke_mkdir_ok kenv) (ke_home kenv) default_config (cc_fs c))"
    using snd_Config_destroy [of "ke_dump kenv" "ke_mkdir_ok kenv" "ke_home kenv" default_config "cc_fs c"]
    by (auto simp: startup_config_def split: sum.splits prod.splits if_splits)
  then have "queue_at hist (length hist) (length hist) b ?q fs1"
  proof cases
    case 2
    with write_config_files [of "ke_dump kenv" "ke_mkdir_ok kenv" "ke_home kenv" default_config "cc_fs c"]
    show ?thesis using q names by (auto simp: queue_at_def)
  qed (use q in simp)
  from queue_at_reopen [OF this] have new: "LogQueue_new (ke_mem_ack kenv) (in_num (ke_indet kenv))
      (in_entry (ke_indet kenv)) ''rmt-log.txt'' ''rmt-ack.txt'' fs1 =
      Some (?q\<lparr>lq_log_entries := [], lq_new_id := 1\<rparr>, fs1)"
    using names by simp
  then have "cc_logger c' = \<lparr>cl_config = cfg, cl_log_queue = ?q\<lparr>lq_log_entries := [], lq_new_id := 1\<rparr>\<rparr>"
    and "cc_outbox c' = []" and "client_ok c'"
    using start
    by (auto simp: client_start_eq cfg Let_def client_ok_def subscribe_def EventBus_new_def
        split: prod.splits sum.splits)
  then show ?thesis
    using assms(6,7) q small by (simp add: renumbered_def queue_at_def history_def)
qed

end
