(* ===== verification/Backoff.thy ===== *)
theory Backoff
  imports Util
begin

text \<open>
  \<^verbatim>\<open>src/common/exponential_backoff.hpp/.cpp\<close>: the delays between the attempts to reach the server.
\<close>

record ExponentialBackoff =
  bo_start :: int
  bo_stop :: int
  bo_multipler :: int
  bo_current_delay :: int

definition backoff_default :: ExponentialBackoff where
  "backoff_default = \<lparr>bo_start = 1, bo_stop = 30, bo_multipler = 2, bo_current_delay = 1\<rparr>"

definition backoff_new :: "int \<Rightarrow> int \<Rightarrow> int \<Rightarrow> ExponentialBackoff" where
  "backoff_new n_start n_stop n_multiplier =
     \<lparr>bo_start = n_start, bo_stop = n_stop, bo_multipler = max n_multiplier 2,
      bo_current_delay = n_start\<rparr>"

definition backoff_success :: "ExponentialBackoff \<Rightarrow> ExponentialBackoff" where
  "backoff_success b = b\<lparr>bo_current_delay := bo_start b\<rparr>"

text \<open>\<open>backoff_fail\<close> returns the seconds it sleeps with the updated object.\<close>

definition backoff_fail :: "ExponentialBackoff \<Rightarrow> (int \<times> ExponentialBackoff) result" where
  "backoff_fail b =
     (let next = bo_current_delay b * bo_multipler b
      in if next < - INT_MAX - 1 \<or> INT_MAX < next then Inl (Undefined ''signed overflow'')
         else Inr (bo_current_delay b, b\<lparr>bo_current_delay := min next (bo_stop b)\<rparr>))"

text \<open>The delays slept by a run of failures.\<close>

fun fails :: "nat \<Rightarrow> ExponentialBackoff \<Rightarrow> (int list \<times> ExponentialBackoff) result" where
  "fails 0 b = Inr ([], b)"
| "fails (Suc n) b =
     bindR (backoff_fail b) (\<lambda>(d, b'). bindR (fails n b') (\<lambda>(ds, b''). Inr (d # ds, b'')))"

definition backoff_ok :: "ExponentialBackoff \<Rightarrow> bool" where
  "backoff_ok b \<longleftrightarrow>
     1 \<le> bo_start b \<and> bo_start b \<le> bo_stop b \<and> 2 \<le> bo_multipler b \<and>
     bo_stop b * bo_multipler b \<le> INT_MAX \<and>
     bo_start b \<le> bo_current_delay b \<and> bo_current_delay b \<le> bo_stop b"

lemma backoff_fail_ok:
  assumes "backoff_ok b"
  shows "\<exists>b'. backoff_fail b = Inr (bo_current_delay b, b') \<and> backoff_ok b' \<and>
     bo_current_delay b' = min (bo_current_delay b * bo_multipler b) (bo_stop b) \<and>
     bo_start b' = bo_start b \<and> bo_stop b' = bo_stop b \<and> bo_multipler b' = bo_multipler b"
proof -
  define nx where "nx = bo_current_delay b * bo_multipler b"
  have "nx \<le> bo_stop b * bo_multipler b"
    unfolding nx_def using assms by (intro mult_right_mono) (auto simp: backoff_ok_def)
  then have le: "nx \<le> INT_MAX" using assms by (simp add: backoff_ok_def)
  have "bo_current_delay b * 1 \<le> nx"
    unfolding nx_def using assms by (intro mult_left_mono) (auto simp: backoff_ok_def)
  then have "bo_current_delay b \<le> nx" by simp
  with assms le show ?thesis
    by (auto simp: backoff_fail_def backoff_ok_def Let_def INT_MAX_def nx_def [symmetric])
qed

lemma capped_power:
  "1 \<le> (m::int) \<Longrightarrow> min (min (s * m ^ k) c * m) c = min (s * m ^ Suc k) c" if "0 \<le> c"
proof (cases "s * m ^ k \<le> c")
  case True
  then show ?thesis by (simp add: algebra_simps)
next
  case False
  assume m: "1 \<le> m"
  have "c * 1 \<le> c * m" using m that by (intro mult_left_mono) simp_all
  moreover have "c * m \<le> s * m ^ k * m" using m False by (intro mult_right_mono) simp_all
  ultimately show ?thesis using False by (simp add: algebra_simps)
qed

lemma fails_delays:
  "backoff_ok b \<Longrightarrow> bo_current_delay b = min (bo_start b * bo_multipler b ^ k) (bo_stop b) \<Longrightarrow>
     \<exists>b'. fails n b = Inr (map (\<lambda>i. min (bo_start b * bo_multipler b ^ (k + i)) (bo_stop b)) [0..<n], b')
          \<and> backoff_ok b'"
proof (induction n arbitrary: b k)
  case 0
  then show ?case by simp
next
  case (Suc n)
  from backoff_fail_ok [OF Suc.prems(1)] obtain b1 where
    f: "backoff_fail b = Inr (bo_current_delay b, b1)" and ok: "backoff_ok b1"
    and cur: "bo_current_delay b1 = min (bo_current_delay b * bo_multipler b) (bo_stop b)"
    and same: "bo_start b1 = bo_start b" "bo_stop b1 = bo_stop b" "bo_multipler b1 = bo_multipler b"
    by blast
  have "bo_current_delay b1 = min (bo_start b1 * bo_multipler b1 ^ Suc k) (bo_stop b1)"
    using capped_power [of "bo_stop b" "bo_multipler b" "bo_start b" k] Suc.prems cur same
    by (simp add: backoff_ok_def)
  from Suc.IH [OF ok this] obtain b2 where
    "fails n b1 = Inr (map (\<lambda>i. min (bo_start b1 * bo_multipler b1 ^ (Suc k + i)) (bo_stop b1)) [0..<n], b2)"
    and "backoff_ok b2" by blast
  moreover have "[0..<Suc n] = 0 # map Suc [0..<n]"
    by (simp add: upt_conv_Cons map_Suc_upt del: upt_Suc)
  ultimately show ?case
    using f Suc.prems(2) same by (simp del: upt_Suc)
qed

end
