(* ===== verification/Server_Connector.thy ===== *)
theory Server_Connector
  imports Messages Backoff
begin

text \<open>
  \<^verbatim>\<open>src/client/server_connector.hpp/.cpp\<close>: the client's connection to the server, with its
  attempts to connect and the messages it carries. The socket calls are parameters over the state
  \<open>'k\<close> of the kernel.
\<close>

record ServerConnector =
  sc_server_ip :: string
  sc_server_port :: u16
  sc_client_socket :: int
  sc_is_connected :: bool

record 'k socket_calls =
  call_socket :: "'k \<Rightarrow> int \<times> 'k"
  call_connect :: "int \<Rightarrow> string \<Rightarrow> u16 \<Rightarrow> 'k \<Rightarrow> int \<times> 'k"
  call_close :: "int \<Rightarrow> 'k \<Rightarrow> 'k"
  call_send :: "int \<Rightarrow> 'k send_call"
  call_recv :: "int \<Rightarrow> 'k recv_call"

text \<open>The constructor leaves the socket as the memory was (\<open>mem\<close>) and starts the thread below.\<close>

definition ServerConnector_new :: "int \<Rightarrow> string \<Rightarrow> u16 \<Rightarrow> ServerConnector" where
  "ServerConnector_new mem n_server_ip n_server_port =
     \<lparr>sc_server_ip = n_server_ip, sc_server_port = n_server_port, sc_client_socket = mem,
      sc_is_connected = False\<rparr>"

definition try_connect ::
  "'k socket_calls \<Rightarrow> ServerConnector \<Rightarrow> 'k \<Rightarrow> bool \<times> ServerConnector \<times> 'k" where
  "try_connect calls c k =
     (if sc_is_connected c then (True, c, k)
      else case call_socket calls k of
             (sock, k1) \<Rightarrow>
               let c1 = c\<lparr>sc_client_socket := sock\<rparr>
               in if sock < 0 then (False, c1, k1)
                  else case call_connect calls sock (sc_server_ip c1) (sc_server_port c1) k1 of
                         (r, k2) \<Rightarrow>
                           if r < 0 then (False, c1, call_close calls sock k2)
                           else (True, c1\<lparr>sc_is_connected := True\<rparr>, k2))"

text \<open>
  The inner loop of \<^verbatim>\<open>reconnect_indefinitely\<close> for at most \<open>n\<close> attempts: the seconds it slept
  between them, and the state it leaves.
\<close>

fun reconnect ::
  "'k socket_calls \<Rightarrow> nat \<Rightarrow> ServerConnector \<Rightarrow> ExponentialBackoff \<Rightarrow> 'k \<Rightarrow>
     (int list \<times> ServerConnector \<times> ExponentialBackoff \<times> 'k) result" where
  "reconnect calls 0 c b k = Inr ([], c, b, k)"
| "reconnect calls (Suc n) c b k =
     (if sc_is_connected c then Inr ([], c, b, k)
      else case try_connect calls c k of
             (ok, c', k') \<Rightarrow>
               if ok then reconnect calls n c' (backoff_success b) k'
               else bindR (backoff_fail b) (\<lambda>(d, b').
                      bindR (reconnect calls n c' b' k') (\<lambda>(ds, r). Inr (d # ds, r))))"

definition recv_input ::
  "'k socket_calls \<Rightarrow> ServerConnector \<Rightarrow> 'k \<Rightarrow> string result \<times> ServerConnector \<times> 'k" where
  "recv_input calls c k =
     (if \<not> sc_is_connected c then (Inr [], c, k)
      else case recv_message (call_recv calls (sc_client_socket c)) k of
             (Inr m, k') \<Rightarrow> (Inr m, c, k')
           | (Inl e, k') \<Rightarrow>
               if is_std_exception e then (Inr [], c\<lparr>sc_is_connected := False\<rparr>, k')
               else (Inl e, c, k'))"

definition send_output ::
  "'k socket_calls \<Rightarrow> string \<Rightarrow> ServerConnector \<Rightarrow> 'k \<Rightarrow> bool result \<times> ServerConnector \<times> 'k" where
  "send_output calls message c k =
     (if \<not> sc_is_connected c then (Inr False, c, k)
      else case send_message (call_send calls (sc_client_socket c)) message k of
             (Inr _, k') \<Rightarrow> (Inr True, c, k')
           | (Inl e, k') \<Rightarrow>
               if is_std_exception e then (Inr False, c\<lparr>sc_is_connected := False\<rparr>, k')
               else (Inl e, c, k'))"

text \<open>The destructor, and the socket as the rest of the program may see it.\<close>

definition ServerConnector_destroy :: "'k socket_calls \<Rightarrow> ServerConnector \<Rightarrow> 'k \<Rightarrow> 'k" where
  "ServerConnector_destroy calls c k =
     (if sc_is_connected c then call_close calls (sc_client_socket c) k else k)"

definition get_client_socket :: "ServerConnector \<Rightarrow> int option" where
  "get_client_socket c = (if sc_is_connected c then Some (sc_client_socket c) else None)"

section \<open>Connecting\<close>

text \<open>The attempts from this state fail \<open>n\<close> times and then succeed.\<close>

fun connects_after :: "'k socket_calls \<Rightarrow> nat \<Rightarrow> ServerConnector \<Rightarrow> 'k \<Rightarrow> bool" where
  "connects_after calls 0 c k = fst (try_connect calls c k)"
| "connects_after calls (Suc n) c k =
     (case try_connect calls c k of (ok, c', k') \<Rightarrow> \<not> ok \<and> connects_after calls n c' k')"

lemma try_connect_connected:
  "try_connect calls c k = (ok, c', k') \<Longrightarrow> sc_is_connected c' = ok"
  by (auto simp: try_connect_def Let_def split: if_splits prod.splits)

lemma reconnect_connected: "sc_is_connected c \<Longrightarrow> reconnect calls n c b k = Inr ([], c, b, k)"
  by (cases n) simp_all

lemma reconnect_delays:
  "connects_after calls n c k \<Longrightarrow> \<not> sc_is_connected c \<Longrightarrow> n < fuel \<Longrightarrow> fails n b = Inr (ds, b1) \<Longrightarrow>
     \<exists>c' k'. reconnect calls fuel c b k = Inr (ds, c', backoff_success b1, k') \<and> sc_is_connected c'"
proof (induction n arbitrary: c k fuel b ds)
  case 0
  obtain ok c' k' where t: "try_connect calls c k = (ok, c', k')" by (cases "try_connect calls c k")
  with 0 have "ok" by simp
  with 0 t show ?case
    using try_connect_connected [OF t] by (cases fuel) (simp_all add: reconnect_connected)
next
  case (Suc n)
  obtain ok c' k' where t: "try_connect calls c k = (ok, c', k')" by (cases "try_connect calls c k")
  with Suc.prems(1) have ok: "\<not> ok" and after: "connects_after calls n c' k'" by simp_all
  from Suc.prems(4) obtain d b' ds' where b: "backoff_fail b = Inr (d, b')"
    and ds: "fails n b' = Inr (ds', b1)" "ds = d # ds'"
    by (auto simp: bindR_Inr_iff)
  obtain f where fuel: "fuel = Suc f" "n < f" using Suc.prems(3) by (cases fuel) auto
  have "\<not> sc_is_connected c'" using try_connect_connected [OF t] ok by simp
  from Suc.IH [OF after this fuel(2) ds(1)] show ?case
    using Suc.prems(2) t ok b ds(2) by (auto simp: fuel(1))
qed

text \<open>The object of \<^verbatim>\<open>reconnect_indefinitely\<close>.\<close>

definition connector_backoff :: ExponentialBackoff where
  "connector_backoff = backoff_new 1 10 2"

lemma connector_backoff_ok: "backoff_ok connector_backoff"
  by (simp add: backoff_ok_def connector_backoff_def backoff_new_def INT_MAX_def)

lemma connector_delays:
  "\<exists>b. fails n connector_backoff = Inr (map (\<lambda>i. min (2 ^ i) 10) [0..<n], b)"
  using fails_delays [OF connector_backoff_ok, of 0 n]
  by (auto simp: connector_backoff_def backoff_new_def)

section \<open>Messages\<close>

text \<open>A run of \<^verbatim>\<open>send_output\<close> calls with no reconnection in between.\<close>

fun send_outputs ::
  "'k socket_calls \<Rightarrow> string list \<Rightarrow> ServerConnector \<Rightarrow> 'k \<Rightarrow> bool result list \<times> ServerConnector \<times> 'k" where
  "send_outputs calls [] c k = ([], c, k)"
| "send_outputs calls (m # ms) c k =
     (case send_output calls m c k of
        (r, c', k') \<Rightarrow> (case send_outputs calls ms c' k' of (rs, c'', k'') \<Rightarrow> (r # rs, c'', k'')))"

lemma send_outputs_closed:
  "\<not> sc_is_connected c \<Longrightarrow> send_outputs calls ms c k = (replicate (length ms) (Inr False), c, k)"
  by (induction ms) (simp_all add: send_output_def)

lemma send_exact_error:
  assumes "send_contract sent send" and "send_exact send data k = (Inl e, k')"
  shows "e = send_failed"
  using send_loop_sent [OF assms(1)] assms(2) unfolding send_exact_def by blast

lemma send_message_error:
  assumes "send_contract sent send" and "send_message send data k = (Inl e, k')"
  shows "e = send_failed"
  using assms(2) send_exact_error [OF assms(1)]
  by (auto simp: send_message_def Let_def split: prod.splits sum.splits)

text \<open>
  What the peer gets is the frames of the first messages, all that returned true, and possibly a
  piece of the first that failed; nothing follows that piece.
\<close>

lemma send_outputs_wire:
  assumes "send_contract sent (call_send calls (sc_client_socket c))" and "sc_is_connected c"
  shows "send_outputs calls ms c k = (rs, c', k') \<Longrightarrow>
    \<exists>j \<le> length ms. rs = replicate j (Inr True) @ replicate (length ms - j) (Inr False) \<and>
      (j = length ms \<longrightarrow> sent k' = sent k @ concat (map frame ms)) \<and>
      (j < length ms \<longrightarrow>
         (\<exists>m. sent k' = sent k @ concat (map frame (take j ms)) @ take m (frame (ms ! j)))) \<and>
      sc_is_connected c' = (j = length ms)"
  using assms(2)
proof (induction ms arbitrary: k rs)
  case Nil
  then show ?case by simp
next
  case (Cons x xs)
  let ?send = "call_send calls (sc_client_socket c)"
  obtain r k1 where m: "send_message ?send x k = (r, k1)" by (cases "send_message ?send x k")
  show ?case
  proof (cases r)
    case (Inl e)
    then have "is_std_exception e" using send_message_error [OF assms(1), of x k e k1] m by simp
    then have "rs = Inr False # replicate (length xs) (Inr False)" and "k' = k1"
      and "\<not> sc_is_connected c'"
      using Cons.prems m Inl by (auto simp: send_output_def send_outputs_closed)
    with send_message_frame(2) [OF assms(1) m] show ?thesis
      by (intro exI [of _ 0]) auto
  next
    case (Inr u)
    with Cons.prems m obtain rs' where rest: "send_outputs calls xs c k1 = (rs', c', k')"
      and rs: "rs = Inr True # rs'"
      by (auto simp: send_output_def split: prod.splits)
    from Cons.IH [OF rest assms(2)] obtain j where j: "j \<le> length xs"
      "rs' = replicate j (Inr True) @ replicate (length xs - j) (Inr False)"
      "j = length xs \<longrightarrow> sent k' = sent k1 @ concat (map frame xs)"
      "j < length xs \<longrightarrow>
         (\<exists>m. sent k' = sent k1 @ concat (map frame (take j xs)) @ take m (frame (xs ! j)))"
      "sc_is_connected c' = (j = length xs)" by blast
    moreover have "sent k1 = sent k @ frame x" using send_message_frame(1) [OF assms(1) m] Inr by simp
    ultimately show ?thesis
      using rs by (intro exI [of _ "Suc j"]) auto
  qed
qed

text \<open>Receiving: the messages of the stream come out one by one, in order.\<close>

fun recv_inputs ::
  "'k socket_calls \<Rightarrow> nat \<Rightarrow> ServerConnector \<Rightarrow> 'k \<Rightarrow> string result list \<times> ServerConnector \<times> 'k" where
  "recv_inputs calls 0 c k = ([], c, k)"
| "recv_inputs calls (Suc n) c k =
     (case recv_input calls c k of
        (r, c', k') \<Rightarrow> (case recv_inputs calls n c' k' of (rs, c'', k'') \<Rightarrow> (r # rs, c'', k'')))"

lemma recv_inputs_frames:
  assumes "recv_contract pending (call_recv calls (sc_client_socket c))"
    and "recv_live pending (call_recv calls (sc_client_socket c))" and "sc_is_connected c"
  shows "pending k = concat (map frame ms) @ rest \<Longrightarrow> \<forall>m \<in> set ms. length m < 2 ^ 32 \<Longrightarrow>
    \<exists>k'. recv_inputs calls (length ms) c k = (map Inr ms, c, k') \<and> pending k' = rest"
proof (induction ms arbitrary: k)
  case Nil
  then show ?case by simp
next
  case (Cons m ms)
  then obtain k1 where "recv_message (call_recv calls (sc_client_socket c)) k = (Inr m, k1)"
    and p: "pending k1 = concat (map frame ms) @ rest"
    using recv_message_frame [OF assms(1,2), of k m "concat (map frame ms) @ rest"] by auto
  with Cons.IH [OF p] Cons.prems(2) assms(3) show ?case by (auto simp: recv_input_def)
qed

section \<open>A kernel for the witnesses\<close>

text \<open>The pipe, reached after the given number of refused connections.\<close>

record net_pipe = pipe +
  refusals :: nat

definition pipe_calls :: "net_pipe socket_calls" where
  "pipe_calls =
     \<lparr>call_socket = \<lambda>k. (3, k),
      call_connect = \<lambda>_ _ _ k. (if refusals k = 0 then (0, k) else (- 1, k\<lparr>refusals := refusals k - 1\<rparr>)),
      call_close = \<lambda>_ k. k,
      call_send = \<lambda>_ k data.
        (let n = min (cap k) (length data) in (int n, k\<lparr>flight := flight k @ take n data\<rparr>)),
      call_recv = \<lambda>_ k n.
        (let m = min (Suc (cap k)) (min n (length (flight k)))
         in (int m, take m (flight k), k\<lparr>flight := drop m (flight k)\<rparr>))\<rparr>"

lemma pipe_calls_contracts:
  "send_contract flight (call_send pipe_calls sock)"
  "recv_contract flight (call_recv pipe_calls sock)"
  "recv_live flight (call_recv pipe_calls sock)"
  by (auto simp: pipe_calls_def send_contract_def recv_contract_def recv_live_def Let_def min_def
      split: if_splits)

section \<open>Properties\<close>


definition demo_connector :: ServerConnector where
  "demo_connector = ServerConnector_new 0 ''10.0.0.1'' 12345"




end
