(* ===== verification/Senders.thy ===== *)
theory Senders
  imports Server_Connector Client_Manager
begin

text \<open>
  The threads that send: both programs start a detached thread for every outgoing message
  (\<^verbatim>\<open>client.cpp\<close>, \<^verbatim>\<open>client_manager.cpp\<close>), and all threads for one peer write to the same socket without
  a lock. A step of a thread is at most one call of \<^verbatim>\<open>send\<close>; a run is a schedule, the sequence of the
  threads that take a step.
\<close>

section \<open>One thread\<close>

text \<open>
  A thread has not looked at the connection yet, or has data of the current \<^verbatim>\<open>send_exact\<close> and further
  buffers left, or is done, with the result of \<^verbatim>\<open>send_output\<close>. The flag is \<^verbatim>\<open>is_connected\<close>.
\<close>

datatype sender = Started string | Sending string "string list" | Finished bool

fun sender_step :: "'k send_call \<Rightarrow> sender \<Rightarrow> bool \<Rightarrow> 'k \<Rightarrow> sender \<times> bool \<times> 'k" where
  "sender_step send (Started payload) is_connected k =
     (if is_connected
      then (Sending (mem_bytes 4 (swap_endian32 (of_nat (length payload)))) [payload], is_connected, k)
      else (Finished False, is_connected, k))"
| "sender_step send (Sending [] []) is_connected k = (Finished True, is_connected, k)"
| "sender_step send (Sending [] (d # ds)) is_connected k = (Sending d ds, is_connected, k)"
| "sender_step send (Sending (c # cs) ds) is_connected k =
     (case send k (c # cs) of
        (n, k') \<Rightarrow> if n \<le> 0 then (Finished False, False, k')
                   else (Sending (drop (nat n) (c # cs)) ds, is_connected, k'))"
| "sender_step send (Finished b) is_connected k = (Finished b, is_connected, k)"

section \<open>All threads of a connection\<close>

fun run_senders ::
  "'k send_call \<Rightarrow> nat list \<Rightarrow> sender list \<Rightarrow> bool \<Rightarrow> 'k \<Rightarrow> sender list \<times> bool \<times> 'k" where
  "run_senders send [] ts is_connected k = (ts, is_connected, k)"
| "run_senders send (i # is) ts is_connected k =
     (if i < length ts
      then (case sender_step send (ts ! i) is_connected k of
              (t, is_connected', k') \<Rightarrow> run_senders send is (ts[i := t]) is_connected' k')
      else run_senders send is ts is_connected k)"

lemma run_senders_append:
  "run_senders send (is @ js) ts c k =
     (case run_senders send is ts c k of (ts', c', k') \<Rightarrow> run_senders send js ts' c' k')"
  by (induction "is" arbitrary: ts c k) (auto split: prod.split)

section \<open>A thread that runs alone is a call of \<^verbatim>\<open>send_message\<close>\<close>

definition steps_to :: "'k send_call \<Rightarrow> sender \<Rightarrow> bool \<Rightarrow> 'k \<Rightarrow> sender \<Rightarrow> bool \<Rightarrow> 'k \<Rightarrow> bool" where
  "steps_to send t c k t' c' k' \<longleftrightarrow> (\<exists>n. run_senders send (replicate n 0) [t] c k = ([t'], c', k'))"

lemma steps_to_refl: "steps_to send t c k t c k"
  unfolding steps_to_def by (rule exI [of _ 0]) simp

lemma steps_to_step:
  assumes "sender_step send t c k = (t1, c1, k1)" and "steps_to send t1 c1 k1 t' c' k'"
  shows "steps_to send t c k t' c' k'"
proof -
  from assms(2) obtain n where "run_senders send (replicate n 0) [t1] c1 k1 = ([t'], c', k')"
    by (auto simp: steps_to_def)
  with assms(1) show ?thesis unfolding steps_to_def by (intro exI [of _ "Suc n"]) simp
qed

lemma steps_to_trans:
  assumes "steps_to send t c k t1 c1 k1" and "steps_to send t1 c1 k1 t' c' k'"
  shows "steps_to send t c k t' c' k'"
proof -
  from assms obtain m n where "run_senders send (replicate m 0) [t] c k = ([t1], c1, k1)"
    and "run_senders send (replicate n 0) [t1] c1 k1 = ([t'], c', k')"
    by (auto simp: steps_to_def)
  then have "run_senders send (replicate (m + n) 0) [t] c k = ([t'], c', k')"
    by (simp add: replicate_add run_senders_append)
  then show ?thesis unfolding steps_to_def by blast
qed

lemma send_loop_steps:
  "send_loop send data tot k = (r, k') \<Longrightarrow>
     (case r of Inr _ \<Rightarrow> steps_to send (Sending (drop tot data) ds) c k (Sending [] ds) c k'
      | Inl _ \<Rightarrow> steps_to send (Sending (drop tot data) ds) c k (Finished False) False k')"
proof (induction send data tot k arbitrary: r k' rule: send_loop.induct)
  case (1 send data tot k)
  show ?case
  proof (cases "tot < length data")
    case False
    with "1.prems" have "r = Inr ()" "k' = k" "drop tot data = []"
      by (simp_all add: send_loop.simps [of send data tot k])
    then show ?thesis by (simp add: steps_to_refl)
  next
    case True
    then obtain x xs where d: "drop tot data = x # xs" by (metis Cons_nth_drop_Suc)
    obtain n k1 where s: "send k (drop tot data) = (n, k1)" by fastforce
    show ?thesis
    proof (cases "n \<le> 0")
      case n: True
      with "1.prems" True s have "r = Inl send_failed" "k' = k1"
        by (simp_all add: send_loop.simps [of send data tot k])
      moreover have "sender_step send (Sending (drop tot data) ds) c k = (Finished False, False, k1)"
        using s n by (simp add: d)
      ultimately show ?thesis by (auto intro: steps_to_step steps_to_refl)
    next
      case n: False
      with "1.prems" True s have "send_loop send data (tot + nat n) k1 = (r, k')"
        by (simp add: send_loop.simps [of send data tot k])
      note ih = "1.IH" [OF True s [symmetric] n this]
      have "drop (nat n) (drop tot data) = drop (tot + nat n) data"
        by (simp add: add.commute)
      then have "sender_step send (Sending (drop tot data) ds) c k =
          (Sending (drop (tot + nat n) data) ds, c, k1)"
        using s n by (simp add: d)
      with ih show ?thesis by (auto intro: steps_to_step split: sum.splits)
    qed
  qed
qed

lemma sender_alone:
  assumes "send_message send payload k = (r, k')"
  shows "case r of Inr _ \<Rightarrow> steps_to send (Started payload) True k (Finished True) True k'
    | Inl _ \<Rightarrow> steps_to send (Started payload) True k (Finished False) False k'"
proof -
  let ?h = "mem_bytes 4 (swap_endian32 (of_nat (length payload)))"
  have start: "sender_step send (Started payload) True k = (Sending ?h [payload], True, k)" by simp
  obtain r1 k1 where h: "send_loop send ?h 0 k = (r1, k1)" by fastforce
  note header = send_loop_steps [OF h, of "[payload]" True, simplified]
  show ?thesis
  proof (cases r1)
    case (Inl e)
    with assms h have "r = Inl e" "k' = k1" by (simp_all add: send_message_def send_exact_def Let_def)
    with header Inl show ?thesis using start by (auto intro: steps_to_step)
  next
    case (Inr u)
    with assms h have p: "send_loop send payload 0 k1 = (r, k')"
      by (simp add: send_message_def send_exact_def Let_def)
    note payload = send_loop_steps [OF p, of "[]" True, simplified]
    have mid: "steps_to send (Started payload) True k (Sending payload []) True k1"
      using header Inr start
      by (auto intro!: steps_to_step [OF start] elim!: steps_to_trans
          intro: steps_to_step [OF _ steps_to_refl])
    have "steps_to send (Sending [] []) True k' (Finished True) True k'"
      by (rule steps_to_step [OF _ steps_to_refl]) simp
    with payload mid show ?thesis by (auto intro: steps_to_trans split: sum.splits)
  qed
qed

section \<open>What goes over the wire\<close>

text \<open>The bytes a thread still has to send, and those of a marked stream that are its own.\<close>

fun left :: "sender \<Rightarrow> string" where
  "left (Started payload) = frame payload"
| "left (Sending d ds) = d @ concat ds"
| "left (Finished b) = []"

definition bytes_of :: "nat \<Rightarrow> (nat \<times> char) list \<Rightarrow> string" where
  "bytes_of i tr = map snd (filter (\<lambda>(j, _). j = i) tr)"

lemma bytes_of_append:
  "bytes_of i (map (Pair j) w @ tr) = (if i = j then w else []) @ bytes_of i tr"
  by (simp add: bytes_of_def comp_def)

lemma sender_step_sent:
  assumes "send_contract sent send" and "sender_step send t c k = (t', c', k')"
  shows "\<exists>w. sent k' = sent k @ w \<and> (t' \<noteq> Finished False \<longrightarrow> left t = w @ left t') \<and>
    (t' = Finished False \<longrightarrow> w = []) \<and> (t = Finished False \<longrightarrow> t' = Finished False)"
  using assms(2)
proof (cases "(send, t, c, k)" rule: sender_step.cases)
  case (1 send' payload c' k')
  with assms(2) show ?thesis by (auto simp: frame_def write_uint32_def)
next
  case (4 send' x xs ds c1 k1)
  obtain n k2 where s: "send k (x # xs) = (n, k2)" by fastforce
  have k2: "sent k2 = sent k @ take (nat n) (x # xs)"
    using assms(1) s unfolding send_contract_def by blast
  show ?thesis
  proof (cases "n \<le> 0")
    case True
    with 4 s assms(2) k2 show ?thesis by auto
  next
    case False
    with 4 s assms(2) have t: "t' = Sending (drop (nat n) (x # xs)) ds" "k' = k2" by auto
    have "left t = take (nat n) (x # xs) @ left t'"
      using 4 t(1) append_take_drop_id [of "nat n" "x # xs"] by (simp del: append_take_drop_id)
    with 4 t k2 show ?thesis by (intro exI [of _ "take (nat n) (x # xs)"]) simp
  qed
qed auto

lemma run_senders_sent:
  assumes "send_contract sent send"
  shows "run_senders send is ts c k = (ts', c', k') \<Longrightarrow>
    length ts' = length ts \<and> (\<exists>tr. sent k' = sent k @ map snd tr \<and> (\<forall>i < length ts.
      (ts' ! i \<noteq> Finished False \<longrightarrow> left (ts ! i) = bytes_of i tr @ left (ts' ! i)) \<and>
      (\<exists>r. left (ts ! i) = bytes_of i tr @ r) \<and>
      (ts ! i = Finished False \<longrightarrow> ts' ! i = Finished False)))"
proof (induction "is" arbitrary: ts c k)
  case Nil
  then show ?case by (auto simp: bytes_of_def intro!: exI [of _ "[]"])
next
  case (Cons j js)
  show ?case
  proof (cases "j < length ts")
    case False
    with Cons show ?thesis by simp
  next
    case True
    obtain t c1 k1 where t: "sender_step send (ts ! j) c k = (t, c1, k1)" by (metis prod_cases3)
    with Cons.prems True have run: "run_senders send js (ts[j := t]) c1 k1 = (ts', c', k')" by simp
    from Cons.IH [OF run] obtain tr where len: "length ts' = length ts"
      and tr: "sent k' = sent k1 @ map snd tr"
      and all: "\<And>i. i < length ts \<Longrightarrow>
        (ts' ! i \<noteq> Finished False \<longrightarrow> left (ts[j := t] ! i) = bytes_of i tr @ left (ts' ! i)) \<and>
        (\<exists>r. left (ts[j := t] ! i) = bytes_of i tr @ r) \<and>
        (ts[j := t] ! i = Finished False \<longrightarrow> ts' ! i = Finished False)"
      by auto
    from sender_step_sent [OF assms t] obtain w where w: "sent k1 = sent k @ w"
      "t \<noteq> Finished False \<longrightarrow> left (ts ! j) = w @ left t" "t = Finished False \<longrightarrow> w = []"
      "ts ! j = Finished False \<longrightarrow> t = Finished False" by blast
    have "(ts' ! i \<noteq> Finished False \<longrightarrow> left (ts ! i) = bytes_of i (map (Pair j) w @ tr) @ left (ts' ! i)) \<and>
        (\<exists>r. left (ts ! i) = bytes_of i (map (Pair j) w @ tr) @ r) \<and>
        (ts ! i = Finished False \<longrightarrow> ts' ! i = Finished False)" if "i < length ts" for i
    proof (cases "i = j")
      case False
      with all [OF that] show ?thesis by (simp add: bytes_of_append)
    next
      case True
      from all [OF that] True that have *: "ts' ! j \<noteq> Finished False \<longrightarrow> left t = bytes_of j tr @ left (ts' ! j)"
        "\<exists>r. left t = bytes_of j tr @ r" "t = Finished False \<longrightarrow> ts' ! j = Finished False" by auto
      show ?thesis
      proof (cases "t = Finished False")
        case t: True
        with * w(3) have "bytes_of j tr = []" "w = []" by auto
        with t * True show ?thesis by (simp add: bytes_of_append)
      next
        case False
        with * w True show ?thesis by (auto simp: bytes_of_append)
      qed
    qed
    with len w(1) tr show ?thesis by (intro conjI exI [of _ "map (Pair j) w @ tr"]) (auto simp: comp_def)
  qed
qed

section \<open>The server's threads\<close>

text \<open>
  No handler encloses the call in the server's thread: an exception of \<^verbatim>\<open>send_message\<close> leaves the
  thread, which ends the program.
\<close>

definition server_send_thread ::
  "(int \<Rightarrow> 'k send_call) \<Rightarrow> int \<times> string \<Rightarrow> 'k \<Rightarrow> unit result \<times> 'k" where
  "server_send_thread send entry k =
     (case send_message (send (fst entry)) (snd entry) k of
        (Inr _, k') \<Rightarrow> (Inr (), k')
      | (Inl e, k') \<Rightarrow> if is_std_exception e then (Inl Terminated, k') else (Inl e, k'))"

lemma send_message_broken:
  assumes "\<And>k data. fst (send k data) \<le> 0"
  shows "fst (send_message send payload k) = Inl send_failed"
proof -
  obtain n k' where s: "send k (mem_bytes 4 (swap_endian32 (of_nat (length payload)))) = (n, k')" by fastforce
  with assms have "n \<le> 0" by (metis fst_conv)
  with s show ?thesis
    by (simp add: send_message_def send_exact_def send_loop.simps [of _ _ 0] Let_def)
qed

section \<open>Properties\<close>


definition wide_pipe :: pipe where "wide_pipe = \<lparr>cap = 100, flight = []\<rparr>"

lemma demo_alternating:
  "run_senders pipe_send [0, 1, 0, 1, 0, 1, 0, 1, 0, 1] [Started ''a'', Started ''b''] True wide_pipe =
     ([Finished True, Finished True], True,
      wide_pipe\<lparr>flight := [CHR 0x00, CHR 0x00, CHR 0x00, CHR 0x01, CHR 0x00, CHR 0x00, CHR 0x00, CHR 0x01,
        CHR ''a'', CHR ''b'']\<rparr>)"
proof -
  have "mem_bytes 4 (swap_endian32 1) = [CHR 0x00, CHR 0x00, CHR 0x00, CHR 0x01]"
    unfolding mem_bytes_swap32 by (simp add: mem_bytes_def upt_rec char_of_def bit_iff_odd)
  then show ?thesis by (simp add: wide_pipe_def pipe_send_def)
qed



text \<open>
  A client that is gone ends the server: a message for it is handed to a thread, and when
  \<^verbatim>\<open>send\<close> fails on its socket the exception leaves that thread.
\<close>

lemma broken_client_ends_server:
  assumes "server_ok s" and "distinct_addresses s" and "(i, info) \<in> set (sv_client_handlers s)"
    and "\<And>k data. fst (send (ci_client_socket info) k data) \<le> 0"
  shows "\<exists>s'. server_publish env (NetworkSendEvent (ci_client_ip info) (ci_client_port info) payload) s = (Inr (), s') \<and>
    sv_outbox s' = sv_outbox s @ [(ci_client_socket info, payload)] \<and>
    fst (server_send_thread send (ci_client_socket info, payload) k) = Inl Terminated"
proof -
  obtain k' where "send_message (send (ci_client_socket info)) payload k = (Inl send_failed, k')"
    using send_message_broken [of "send (ci_client_socket info)" payload k] assms(4)
    by (cases "send_message (send (ci_client_socket info)) payload k") auto
  then have "fst (server_send_thread send (ci_client_socket info, payload) k) = Inl Terminated"
    by (simp add: server_send_thread_def)
  then show ?thesis
    using publish_send [OF assms(1)] send_to_client [OF assms(1-3)] by simp
qed

lemma broken_client_ends_server_witness:
  "\<exists>s'. server_publish \<lparr>se_indet = \<lparr>in_num = 0, in_entry = LogEntry_new 0 [] 0 CPU 0, in_count = 0, in_id = 0\<rparr>,
        se_parse = binary_parse\<rparr>
      (NetworkSendEvent ''10.0.0.7'' 40000 ''x'') (accept_new_client 5 ''10.0.0.7'' 40000 (server_start empty_fsys)) = (Inr (), s') \<and>
    sv_outbox s' = [(5, ''x'')] \<and>
    fst (server_send_thread (\<lambda>sock (k :: unit) data. (- 1, k)) (5, ''x'') ()) = Inl Terminated"
proof -
  let ?s = "accept_new_client 5 ''10.0.0.7'' 40000 (server_start empty_fsys)"
  let ?info = "ClientInfo_new 1 5 ''10.0.0.7'' 40000"
  have s: "server_ok ?s" by (rule server_ok_accept [OF server_ok_start])
  have h: "sv_client_handlers ?s = [(1, ?info)]" "sv_outbox ?s = []"
    by (simp_all add: accept_new_client_def server_start_def add_new_client_def ClientInfo_new_def Let_def)
  have d: "distinct_addresses ?s" by (simp add: distinct_addresses_def h)
  have "(1, ?info) \<in> set (sv_client_handlers ?s)" by (simp add: h)
  from broken_client_ends_server [OF s d this, of "\<lambda>sock (k :: unit) data. (- 1, k)"] show ?thesis
    by (simp add: h ClientInfo_new_def)
qed

end
