(* ===== verification/Server_Runs.thy ===== *)
theory Server_Runs
  imports Client_Manager
begin

text \<open>
  The server over a whole run: clients are accepted and events are published in any order, and what
  an event does, including an exception it ends with, leaves the table of clients in order.
\<close>

inductive server_reachable :: "server_env \<Rightarrow> Server \<Rightarrow> bool" for env where
  start: "server_reachable env (server_start fs)"
| accept: "server_reachable env s \<Longrightarrow> server_reachable env (accept_new_client sock ip port s)"
| event: "server_reachable env s \<Longrightarrow> server_publish env ev s = (r, s') \<Longrightarrow> server_reachable env s'"

lemma server_publish_ok: "server_ok s \<Longrightarrow> server_ok (snd (server_publish env ev s))"
  using server_bus.publish_inv [of s sv_bus env ev] by (simp add: server_publish.simps)

lemma server_reachable_ok: "server_reachable env s \<Longrightarrow> server_ok s"
proof (induction rule: server_reachable.induct)
  case (start fs)
  show ?case by (rule server_ok_start)
next
  case (accept s sock ip port)
  then show ?case by (intro server_ok_accept)
next
  case (event s ev r s')
  then show ?case using server_publish_ok [of s env ev] by simp
qed

section \<open>Properties\<close>



end
