(* ===== verification/Startup.thy ===== *)
theory Startup
  imports Util
begin

text \<open>
  The command lines of \<^verbatim>\<open>src/server/server.cpp\<close> and \<^verbatim>\<open>src/client/client.cpp\<close>: which address and port
  the two programs choose. \<open>args\<close> are the arguments behind the program's name.
\<close>

section \<open>Server\<close>

definition PORT :: int where "PORT = 12345"

fun server_args :: "string list \<Rightarrow> int \<Rightarrow> int result" where
  "server_args [] chosen_port = Inr chosen_port"
| "server_args (arg # args) chosen_port =
     (if starts_with arg ''--server-port='' then
        bindR (str_to_int (drop (length ''--server-port='') arg)) (\<lambda>port.
          if port < 0 then server_args args chosen_port
          else if port < 1024 \<or> 65536 < port then server_args args chosen_port
          else server_args args port)
      else server_args args chosen_port)"

text \<open>The port \<^verbatim>\<open>htons\<close> is given: the chosen number converted to 16 bits.\<close>

definition server_port :: "string list \<Rightarrow> u16 result" where
  "server_port args = bindR (server_args args PORT) (\<lambda>port. Inr (of_int port))"

section \<open>Client\<close>

definition SERVER_IP :: string where "SERVER_IP = ''127.0.0.1''"
definition SERVER_PORT :: int where "SERVER_PORT = 12345"

fun client_args :: "string list \<Rightarrow> string \<times> int \<Rightarrow> (string \<times> int) result" where
  "client_args [] chosen = Inr chosen"
| "client_args (arg # args) (chosen_ip, chosen_port) =
     (if starts_with arg ''--server-ip='' then
        client_args args (drop (length ''--server-ip='') arg, chosen_port)
      else if starts_with arg ''--server-port='' then
        bindR (str_to_int (drop (length ''--server-port='') arg)) (\<lambda>port.
          if port < 0 then client_args args (chosen_ip, chosen_port)
          else if port = 0 \<or> 65536 < port then client_args args (chosen_ip, chosen_port)
          else client_args args (chosen_ip, port))
      else client_args args (chosen_ip, chosen_port))"

definition client_address :: "string list \<Rightarrow> (string \<times> u16) result" where
  "client_address args =
     bindR (client_args args (SERVER_IP, SERVER_PORT)) (\<lambda>(ip, port). Inr (ip, of_int port))"

section \<open>Which ports get through\<close>

lemma server_args_range:
  "server_args args p = Inr q \<Longrightarrow> 1024 \<le> p \<and> p \<le> 65536 \<Longrightarrow> 1024 \<le> q \<and> q \<le> 65536"
  by (induction args p rule: server_args.induct) (auto simp: bindR_Inr_iff split: if_splits)

lemma client_args_range:
  "client_args args c = Inr d \<Longrightarrow> 1 \<le> snd c \<and> snd c \<le> 65536 \<Longrightarrow> 1 \<le> snd d \<and> snd d \<le> 65536"
  by (induction args c rule: client_args.induct) (auto simp: bindR_Inr_iff split: if_splits)

text \<open>A well-formed option in the range decides, unless a later one does.\<close>

lemma server_args_option:
  assumes "1024 \<le> n" and "n \<le> 65536"
  shows "server_args ((''--server-port='' @ show_nat n) # args) p = server_args args (int n)"
  using assms by (simp add: str_to_int_show_nat INT_MAX_def starts_with_def)

text \<open>65536 passes the check and becomes port 0.\<close>

lemma server_port_65536: "server_port [''--server-port=65536''] = Inr 0"
proof -
  have "show_nat 65536 = ''65536''" by (simp add: show_nat.simps digit_chars)
  then show ?thesis
    using server_args_option [of 65536 "[]" PORT] by (simp add: server_port_def)
qed

section \<open>Properties\<close>

text \<open>
  Whatever the command line, the number the server chooses is its default or lies between 1024
  and 65536, and the one number in that range that is no port becomes port 0.
\<close>

lemma server_port_range:
  assumes "server_args args PORT = Inr p"
  shows "1024 \<le> p \<and> p \<le> 65536 \<and> (server_port args = Inr 0 \<longleftrightarrow> p = 65536)"
proof -
  have p: "1024 \<le> p" "p \<le> 65536" using server_args_range [OF assms] by (simp_all add: PORT_def)
  have u: "uint (of_int p :: u16) = p mod 65536" by (simp add: unsigned_of_int take_bit_eq_mod)
  have "(of_int p :: u16) = 0 \<longleftrightarrow> p = 65536"
  proof
    assume "(of_int p :: u16) = 0"
    then have "p mod 65536 = 0" using u by (metis unsigned_0)
    then show "p = 65536" using p mod_pos_pos_trivial [of p 65536] by linarith
  qed simp
  with p assms show ?thesis by (simp add: server_port_def)
qed

lemma server_port_range_witness:
  "server_args [''--server-port=80'', ''--server-port=65536''] PORT = Inr 65536 \<and>
   server_port [''--server-port=80'', ''--server-port=65536''] = Inr 0"
proof -
  have show_nat: "show_nat 80 = ''80''" "show_nat 65536 = ''65536''"
    by (simp_all add: show_nat.simps digit_chars)
  have "str_to_int ''80'' = Inr 80"
    using str_to_int_show_nat [of 80] by (simp add: show_nat INT_MAX_def)
  moreover have "str_to_int ''65536'' = Inr 65536"
    using str_to_int_show_nat [of 65536] by (simp add: show_nat INT_MAX_def)
  ultimately have "server_args [''--server-port=80'', ''--server-port=65536''] PORT = Inr 65536"
    by (simp add: starts_with_def)
  with server_port_range [OF this] show ?thesis by simp
qed

text \<open>The client's choice: any number from 1 to 65536, so port 0 is possible there too.\<close>

lemma client_port_range:
  assumes "client_args args (SERVER_IP, SERVER_PORT) = Inr (ip, p)"
  shows "1 \<le> p \<and> p \<le> 65536 \<and> client_address args = Inr (ip, of_int p)"
  using client_args_range [OF assms] assms by (simp add: SERVER_PORT_def client_address_def)

lemma client_port_range_witness:
  "client_address [''--server-ip=10.0.0.1'', ''--server-port=99''] = Inr (''10.0.0.1'', 99)"
proof -
  have "show_nat 99 = ''99''" by (simp add: show_nat.simps digit_chars)
  then have "str_to_int ''99'' = Inr 99"
    using str_to_int_show_nat [of 99] by (simp add: INT_MAX_def)
  then have "client_args [''--server-ip=10.0.0.1'', ''--server-port=99''] (SERVER_IP, SERVER_PORT)
      = Inr (''10.0.0.1'', 99)"
    by (simp add: starts_with_def)
  with client_port_range [OF this] show ?thesis by simp
qed

end
