(* ===== verification/Network.thy ===== *)
theory Network
  imports Std_Stream
begin

text \<open>
  \<^verbatim>\<open>src/common/network.cpp\<close> and \<^verbatim>\<open>error.cpp\<close>, as both programs use them. System calls are answered by a
  parameter and recorded.
\<close>

section \<open>System calls\<close>

datatype build = Posix | Windows

datatype sys_call =
    Sys_signal_SIGPIPE_SIG_IGN
  | Sys_WSAStartup u16
  | Sys_WSACleanup
  | Sys_socket
  | Sys_setsockopt int
  | Sys_bind int u16
  | Sys_listen int int
  | Sys_shutdown int
  | Sys_close int
  | Sys_closesocket int

text \<open>
  \<open>'k\<close> is the state of the system: the number of its last error and what it answers to a call. The
  text of an error number is the system's too.
\<close>

record 'k system =
  sys_answer :: "sys_call \<Rightarrow> 'k \<Rightarrow> int \<times> 'k"
  sys_errno :: "'k \<Rightarrow> int"
  sys_strerror :: "int \<Rightarrow> string"

record 'k os =
  os_state :: 'k
  os_calls :: "sys_call list"
  os_cerr :: string

definition sys :: "'k system \<Rightarrow> sys_call \<Rightarrow> 'k os \<Rightarrow> int \<times> 'k os" where
  "sys system call os =
     (case sys_answer system call (os_state os) of
        (r, k) \<Rightarrow> (r, os\<lparr>os_state := k, os_calls := os_calls os @ [call]\<rparr>))"

section \<open>Sockets and errors\<close>

definition network_init :: "build \<Rightarrow> 'k system \<Rightarrow> 'k os \<Rightarrow> int \<times> 'k os" where
  "network_init build system os =
     (case build of
        Windows \<Rightarrow> sys system (Sys_WSAStartup 0x0202) os
      | Posix \<Rightarrow> (case sys system Sys_signal_SIGPIPE_SIG_IGN os of (_, os') \<Rightarrow> (0, os')))"

definition network_cleanup :: "build \<Rightarrow> 'k system \<Rightarrow> 'k os \<Rightarrow> 'k os" where
  "network_cleanup build system os =
     (case build of Windows \<Rightarrow> snd (sys system Sys_WSACleanup os) | Posix \<Rightarrow> os)"

definition network_close_socket :: "build \<Rightarrow> 'k system \<Rightarrow> int \<Rightarrow> 'k os \<Rightarrow> 'k os" where
  "network_close_socket build system sock os =
     (case build of
        Windows \<Rightarrow> snd (sys system (Sys_closesocket sock) os)
      | Posix \<Rightarrow> snd (sys system (Sys_close sock) (snd (sys system (Sys_shutdown sock) os))))"

text \<open>\<^verbatim>\<open>std::format\<close> of an \<^verbatim>\<open>int\<close>.\<close>

definition show_int :: "int \<Rightarrow> string" where
  "show_int i = (if i < 0 then CHR ''-'' # show_nat (nat (- i)) else show_nat (nat i))"

definition get_last_error :: "'k system \<Rightarrow> 'k os \<Rightarrow> int" where
  "get_last_error system os = sys_errno system (os_state os)"

definition print_error :: "'k system \<Rightarrow> string \<Rightarrow> 'k os \<Rightarrow> 'k os" where
  "print_error system msg os =
     (let err = get_last_error system os
      in os\<lparr>os_cerr := os_cerr os @ msg @ '': ('' @ show_int err @ '') '' @ sys_strerror system err @ [CHR 0x0A]\<rparr>)"

end
