(* ===== verification/Server_Main.thy ===== *)
theory Server_Main
  imports Server_Runs Startup Network
begin

text \<open>
  \<^verbatim>\<open>src/server/server.cpp\<close>, \<^verbatim>\<open>main.cpp\<close> and \<^verbatim>\<open>ClientManager::run\<close>: creating the server's socket, and
  the server at work, its threads interleaved: the main thread, the thread that accepts clients, the
  console and the threads of the clients.
\<close>

section \<open>Creating the socket\<close>

text \<open>
  \<^verbatim>\<open>socket_t\<close> is \<^verbatim>\<open>int\<close> in the POSIX build and unsigned in the Windows build, where the comparison
  with 0 is never true.
\<close>

definition socket_negative :: "build \<Rightarrow> int \<Rightarrow> bool" where
  "socket_negative build sock = (case build of Posix \<Rightarrow> sock < 0 | Windows \<Rightarrow> False)"

text \<open>\<^verbatim>\<open>server_main\<close> up to \<^verbatim>\<open>listen\<close>, behind the arguments: the listening socket, or the exit code.\<close>

definition server_socket :: "build \<Rightarrow> 'k system \<Rightarrow> u16 \<Rightarrow> 'k os \<Rightarrow> (int + int) \<times> 'k os" where
  "server_socket build system port os =
     (case network_init build system os of
        (ret, os1) \<Rightarrow>
          if ret \<noteq> 0 then (Inl 1, print_error system ''network init failed'' os1)
          else (case sys system Sys_socket os1 of
                  (sock, os2) \<Rightarrow>
                    if socket_negative build sock
                    then (Inl 1, print_error system ''create socket failed'' os2)
                    else (case sys system (Sys_setsockopt sock) os2 of
                            (_, os3) \<Rightarrow>
                              (case sys system (Sys_bind sock port) os3 of
                                 (bound, os4) \<Rightarrow>
                                   if bound < 0 then (Inl 1, print_error system ''bind failed'' os4)
                                   else (case sys system (Sys_listen sock 1) os4 of
                                           (_, os5) \<Rightarrow> (Inr sock, os5))))))"

section \<open>The server at work\<close>

text \<open>
  The constructors, and where \<^verbatim>\<open>ClientManager::run\<close> is: the console thread runs since \<^verbatim>\<open>InputHandler\<close>
  was constructed, the accepting thread since \<^verbatim>\<open>run\<close> began.
\<close>

datatype run_pc = Register_user_input | Register_send_output | Set_running | Wait | Returned | Terminated exn

record server_run =
  sr_pc :: run_pc
  sr_server :: Server

definition ClientManager_new :: "fsys \<Rightarrow> Server" where
  "ClientManager_new fs =
     \<lparr>sv_bus = EventBus_new, sv_client_handlers = [], sv_next_client_id = 1, sv_is_running = False,
      sv_fs = fs, sv_outbox = []\<rparr>"

definition server_begin :: "fsys \<Rightarrow> server_run" where
  "server_begin fs = \<lparr>sr_pc = Register_user_input, sr_server = ClientManager_new fs\<rparr>"

definition main_thread_step :: "server_run \<Rightarrow> server_run" where
  "main_thread_step r =
     (let s = sr_server r in
      case sr_pc r of
        Register_user_input \<Rightarrow>
          r\<lparr>sr_server := s\<lparr>sv_bus := subscribe UserInputCallback (sv_bus s)\<rparr>, sr_pc := Register_send_output\<rparr>
      | Register_send_output \<Rightarrow>
          r\<lparr>sr_server := s\<lparr>sv_bus := subscribe SendOutputCallback (sv_bus s)\<rparr>, sr_pc := Set_running\<rparr>
      | Set_running \<Rightarrow> r\<lparr>sr_server := s\<lparr>sv_is_running := True\<rparr>, sr_pc := Wait\<rparr>
      | Wait \<Rightarrow> if sv_is_running s then r else r\<lparr>sr_pc := Returned\<rparr>
      | _ \<Rightarrow> r)"

text \<open>
  One step of one of the threads. An exception in the console thread ends the program; the thread of
  a client catches those of the standard library.
\<close>

datatype server_step =
    Main_step
  | Connection int string u16
  | Console_line string
  | Client_message string u16 string

definition after_publish :: "bool \<Rightarrow> server_run \<Rightarrow> unit result \<times> Server \<Rightarrow> server_run" where
  "after_publish caught r p =
     (case p of
        (Inl e, s') \<Rightarrow>
          if caught \<and> is_std_exception e then r\<lparr>sr_server := s'\<rparr>
          else r\<lparr>sr_server := s', sr_pc := Terminated e\<rparr>
      | (Inr _, s') \<Rightarrow> r\<lparr>sr_server := s'\<rparr>)"

definition ended :: "server_run \<Rightarrow> bool" where
  "ended r = (case sr_pc r of Returned \<Rightarrow> True | Terminated _ \<Rightarrow> True | _ \<Rightarrow> False)"

definition server_step :: "server_env \<Rightarrow> server_step \<Rightarrow> server_run \<Rightarrow> server_run" where
  "server_step env step r =
     (if ended r then r
      else case step of
        Main_step \<Rightarrow> main_thread_step r
      | Connection sock ip port \<Rightarrow> r\<lparr>sr_server := accept_new_client sock ip port (sr_server r)\<rparr>
      | Console_line line \<Rightarrow>
          (case input_events [line] of
             [] \<Rightarrow> r
           | ev # _ \<Rightarrow> after_publish False r (server_publish env ev (sr_server r)))
      | Client_message ip port payload \<Rightarrow>
          if payload = [] then r
          else after_publish True r (server_publish env (NetworkRecvEvent ip port payload) (sr_server r)))"

definition serve :: "server_env \<Rightarrow> server_step list \<Rightarrow> server_run \<Rightarrow> server_run" where
  "serve env steps r = fold (server_step env) steps r"

text \<open>The whole of \<^verbatim>\<open>server_main\<close>: its exit code once it has returned.\<close>

datatype main_result = Exits int | Ends_by exn | Serving server_run

definition server_main ::
  "build \<Rightarrow> 'k system \<Rightarrow> server_env \<Rightarrow> string list \<Rightarrow> server_step list \<Rightarrow> fsys \<Rightarrow> 'k os \<Rightarrow>
     main_result \<times> 'k os" where
  "server_main build system env args steps fs os =
     (case network_init build system os of
        (_, os1) \<Rightarrow>
          (case server_port args of
             Inl e \<Rightarrow> (Ends_by e, os1)
           | Inr port \<Rightarrow>
               (case server_socket build system port os1 of
                  (Inl code, os2) \<Rightarrow> (Exits code, os2)
                | (Inr sock, os2) \<Rightarrow>
                    (let r = serve env steps (server_begin fs)
                     in case sr_pc r of
                          Returned \<Rightarrow> (Exits 0, network_cleanup build system os2)
                        | Terminated e \<Rightarrow> (Ends_by e, os2)
                        | _ \<Rightarrow> (Serving r, os2)))))"

lemma serve_simps [simp]:
  "serve env [] r = r"
  "serve env (t # ts) r = serve env ts (server_step env t r)"
  "serve env (ts @ us) r = serve env us (serve env ts r)"
  by (simp_all add: serve_def)

lemma serve_undisturbed:
  "serve env [Main_step, Main_step, Main_step] (server_begin fs) = \<lparr>sr_pc = Wait, sr_server = server_start fs\<rparr>"
  by (simp add: server_step_def ended_def main_thread_step_def server_begin_def ClientManager_new_def
      server_start_def)

section \<open>The flag of the waiting loop\<close>

text \<open>Only the command \<^verbatim>\<open>exit\<close> touches it.\<close>

definition same_running :: "Server \<Rightarrow> Server \<Rightarrow> bool" where
  "same_running s t \<longleftrightarrow> sv_is_running t = sv_is_running s"

lemma same_running_fs [simp]: "same_running (s\<lparr>sv_fs := fs\<rparr>) t \<longleftrightarrow> same_running s t"
  by (simp add: same_running_def)

lemma same_running_update [simp]:
  "same_running s s" "same_running s (s\<lparr>sv_fs := fs\<rparr>)" "same_running s (s\<lparr>sv_outbox := out\<rparr>)"
  by (simp_all add: same_running_def)

lemma server_calls_running:
  "ev \<noteq> InputEvent ''exit'' \<Longrightarrow> same_running s (snd (server_publish env ev s))"
  "ev \<noteq> InputEvent ''exit'' \<Longrightarrow> same_running s (snd (server_call env cb ev s))"
proof (induction env ev s and env cb ev s rule: server_publish_server_call.induct)
  case (1 env ev s)
  show ?case
    unfolding server_publish.simps [of env ev s] publish_def Let_def
    by (rule run_callbacks_rel [where R = same_running])
       (use 1 in \<open>auto simp: same_running_def\<close>)
next
  case (2 env cb ev s)
  show ?case
  proof (cases ev)
    case (InputEvent payload)
    show ?thesis
    proof (cases cb)
      case UserInputCallback
      show ?thesis
        using 2(2) [OF UserInputCallback InputEvent] 2(3)
        by (auto simp: server_call.simps [of env UserInputCallback "InputEvent payload" s]
            UserInputCallback InputEvent
            split: sum.splits option.splits)
    qed (simp_all add: InputEvent)
  next
    case (NetworkSendEvent ip port payload)
    then show ?thesis
      by (auto simp: server_call.simps [of env cb "NetworkSendEvent ip port payload" s] Let_def
          split: server_callback.split)
  next
    case (NetworkRecvEvent ip port payload)
    show ?thesis
    proof (cases cb)
      case (HandlerCallback info)
      show ?thesis
        using 2(1) [OF HandlerCallback NetworkRecvEvent]
        by (auto simp: HandlerCallback NetworkRecvEvent
            server_call.simps [of env "HandlerCallback info" "NetworkRecvEvent ip port payload" s]
            split: sum.splits prod.splits option.splits Event.splits)
    qed (simp_all add: NetworkRecvEvent)
  qed
qed

lemma exit_callbacks:
  "run_callbacks (server_call env) (InputEvent ''exit'') cbs s =
     (Inr (), if UserInputCallback \<in> set cbs then s\<lparr>sv_is_running := False\<rparr> else s)"
proof (induction cbs arbitrary: s)
  case Nil
  show ?case by simp
next
  case (Cons cb cbs)
  then show ?case by (cases cb) (auto simp: server_call.simps [of env UserInputCallback])
qed

lemma publish_exit:
  "server_publish env (InputEvent ''exit'') s =
     (Inr (), if UserInputCallback \<in> set (subscribers (sv_bus s)) then s\<lparr>sv_is_running := False\<rparr> else s)"
  by (simp add: server_publish.simps publish_def exit_callbacks)

lemma server_publish_bus: "sv_bus (snd (server_publish env ev s)) = sv_bus s"
  using server_calls_same_clients(1) [of s env ev] by (simp add: same_clients_def)

lemma server_publish_flag:
  "ev \<noteq> InputEvent ''exit'' \<Longrightarrow> sv_is_running (snd (server_publish env ev s)) = sv_is_running s"
  using server_calls_running(1) by (simp add: same_running_def)

section \<open>Invariants of the run\<close>

text \<open>A step other than one of the main thread leaves it where it is, unless it ends the program.\<close>

lemma after_publish_fields:
  "sv_bus (sr_server (after_publish caught r p)) = sv_bus (snd p)"
  "sv_is_running (sr_server (after_publish caught r p)) = sv_is_running (snd p)"
  "sr_pc (after_publish caught r p) = sr_pc r \<or> (\<exists>e. sr_pc (after_publish caught r p) = Terminated e)"
  by (auto simp: after_publish_def split: prod.split sum.split)

lemma accept_fields [simp]:
  "sv_is_running (accept_new_client sock ip port s) = sv_is_running s"
  "cb \<in> set (subscribers (sv_bus s)) \<Longrightarrow> cb \<in> set (subscribers (sv_bus (accept_new_client sock ip port s)))"
  by (auto simp: accept_new_client_def add_new_client_def subscribe_def Let_def split: option.split)

lemma other_step_pc:
  "step \<noteq> Main_step \<Longrightarrow>
     sr_pc (server_step env step r) = sr_pc r \<or> (\<exists>e. sr_pc (server_step env step r) = Terminated e)"
  using after_publish_fields(3) by (auto simp: server_step_def split: server_step.split list.split)

lemma other_step_subscribers:
  "step \<noteq> Main_step \<Longrightarrow>
     set (subscribers (sv_bus (sr_server r))) \<subseteq> set (subscribers (sv_bus (sr_server (server_step env step r))))"
  by (auto simp: server_step_def after_publish_fields server_publish_bus
      split: server_step.split list.split)

lemma other_step_flag:
  "step \<noteq> Console_line ''exit'' \<Longrightarrow> step \<noteq> Main_step \<Longrightarrow>
     sv_is_running (sr_server (server_step env step r)) = sv_is_running (sr_server r)"
  by (auto simp: server_step_def after_publish_fields server_publish_flag
      split: server_step.split)

text \<open>While the main thread waits, the console's subscriber is on the bus.\<close>

definition run_ok :: "server_run \<Rightarrow> bool" where
  "run_ok r \<longleftrightarrow> sr_pc r = Register_user_input \<or> (\<exists>e. sr_pc r = Terminated e) \<or>
     UserInputCallback \<in> set (subscribers (sv_bus (sr_server r)))"

lemma run_ok_step: "run_ok r \<Longrightarrow> run_ok (server_step env step r)"
proof (cases "step = Main_step")
  case True
  assume "run_ok r"
  with True show ?thesis
    by (auto simp: run_ok_def server_step_def main_thread_step_def subscribe_def ended_def Let_def
        split: run_pc.splits)
next
  case False
  assume ok: "run_ok r"
  show ?thesis
  proof (cases "ended r")
    case True
    with ok show ?thesis by (simp add: server_step_def)
  next
    case alive: False
    with ok have "sr_pc r = Register_user_input \<or> UserInputCallback \<in> set (subscribers (sv_bus (sr_server r)))"
      by (auto simp: run_ok_def ended_def)
    then show ?thesis
      using other_step_pc [OF False, of env r] other_step_subscribers [OF False, of r env]
      unfolding run_ok_def by auto
  qed
qed

lemma run_ok_serve: "run_ok r \<Longrightarrow> run_ok (serve env steps r)"
  by (induction steps arbitrary: r) (simp_all add: run_ok_step)

lemma run_ok_begin: "run_ok (server_begin fs)"
  by (simp add: run_ok_def server_begin_def)

text \<open>
  The main thread has not returned, and if it waits the flag is up: kept by every step but \<^verbatim>\<open>exit\<close>.
\<close>

definition keeps_running :: "server_run \<Rightarrow> bool" where
  "keeps_running r \<longleftrightarrow> sr_pc r \<noteq> Returned \<and> (sr_pc r = Wait \<longrightarrow> sv_is_running (sr_server r))"

lemma keeps_running_step:
  assumes "keeps_running r" and "step \<noteq> Console_line ''exit''"
  shows "keeps_running (server_step env step r)"
proof (cases "step = Main_step")
  case True
  with assms show ?thesis
    by (auto simp: keeps_running_def server_step_def main_thread_step_def Let_def split: run_pc.split)
next
  case False
  then show ?thesis
    using assms other_step_pc [OF False, of env r] other_step_flag [OF assms(2) False, of env r]
    by (auto simp: keeps_running_def)
qed

lemma keeps_running_serve:
  "keeps_running r \<Longrightarrow> Console_line ''exit'' \<notin> set steps \<Longrightarrow> keeps_running (serve env steps r)"
  by (induction steps arbitrary: r) (auto simp: keeps_running_step)

text \<open>Told to stop: the program has ended, or the main thread waits with the flag down.\<close>

definition told_to_stop :: "server_run \<Rightarrow> bool" where
  "told_to_stop r \<longleftrightarrow> ended r \<or> sr_pc r = Wait \<and> \<not> sv_is_running (sr_server r)"

lemma told_to_stop_step: "told_to_stop r \<Longrightarrow> told_to_stop (server_step env step r)"
proof (cases "ended r")
  case True
  then show ?thesis by (simp add: told_to_stop_def server_step_def)
next
  case False
  assume "told_to_stop r"
  with False have w: "sr_pc r = Wait" "\<not> sv_is_running (sr_server r)" by (simp_all add: told_to_stop_def)
  show ?thesis
  proof (cases "step = Main_step")
    case True
    with w False show ?thesis by (simp add: told_to_stop_def server_step_def main_thread_step_def ended_def)
  next
    case False
    have "\<not> sv_is_running (sr_server (server_step env step r))"
    proof (cases "step = Console_line ''exit''")
      case True
      then show ?thesis
        using w by (auto simp: server_step_def ended_def after_publish_fields publish_exit)
    next
      case other: False
      show ?thesis using other_step_flag [OF other False] w by simp
    qed
    then show ?thesis using other_step_pc [OF False, of env r] w by (auto simp: told_to_stop_def ended_def)
  qed
qed

lemma told_to_stop_serve: "told_to_stop r \<Longrightarrow> told_to_stop (serve env steps r)"
  by (induction steps arbitrary: r) (simp_all add: told_to_stop_step)

section \<open>Failing to start\<close>

text \<open>The calls whose failure \<^verbatim>\<open>server_main\<close> notices, with what it says, and those that give back.\<close>

definition noticed_failure :: "build \<Rightarrow> sys_call \<Rightarrow> string option" where
  "noticed_failure build call =
     (case call of
        Sys_WSAStartup v \<Rightarrow> if build = Windows then Some ''network init failed'' else None
      | Sys_socket \<Rightarrow> if build = Posix then Some ''create socket failed'' else None
      | Sys_bind sock port \<Rightarrow> Some ''bind failed''
      | _ \<Rightarrow> None)"

fun closing_call :: "sys_call \<Rightarrow> bool" where
  "closing_call Sys_WSACleanup = True"
| "closing_call (Sys_shutdown sock) = True"
| "closing_call (Sys_close sock) = True"
| "closing_call (Sys_closesocket sock) = True"
| "closing_call call = False"

lemma sys_fields:
  "sys system call os = (r, os') \<Longrightarrow> os_calls os' = os_calls os @ [call] \<and> os_cerr os' = os_cerr os"
  by (auto simp: sys_def split: prod.splits)

lemma network_init_calls:
  assumes "network_init build system os = (r, os')"
  shows "\<exists>call. os_calls os' = os_calls os @ [call] \<and> \<not> closing_call call \<and> os_cerr os' = os_cerr os \<and>
    (r \<noteq> 0 \<longrightarrow> noticed_failure build call = Some ''network init failed'')"
  using assms
  by (cases build) (auto simp: network_init_def noticed_failure_def dest: sys_fields split: prod.splits)

lemma server_socket_outcome:
  assumes "server_socket build system port os = (Inl code, os')"
  shows "\<exists>cs call msg. code = 1 \<and> os_calls os' = os_calls os @ cs @ [call] \<and> list_all (\<lambda>c. \<not> closing_call c) cs \<and>
    noticed_failure build call = Some msg \<and>
    os_cerr os' = os_cerr os @ msg @ '': ('' @ show_int (sys_errno system (os_state os')) @ '') '' @
      sys_strerror system (sys_errno system (os_state os')) @ [CHR 0x0A]"
proof -
  obtain r os1 where i: "network_init build system os = (r, os1)" by (cases "network_init build system os")
  from network_init_calls [OF this] obtain init where init: "os_calls os1 = os_calls os @ [init]"
    "\<not> closing_call init" "os_cerr os1 = os_cerr os"
    "r \<noteq> 0 \<longrightarrow> noticed_failure build init = Some ''network init failed''" by blast
  obtain sock os2 where s: "sys system Sys_socket os1 = (sock, os2)" by (cases "sys system Sys_socket os1")
  obtain r3 os3 where o: "sys system (Sys_setsockopt sock) os2 = (r3, os3)"
    by (cases "sys system (Sys_setsockopt sock) os2")
  obtain bound os4 where b: "sys system (Sys_bind sock port) os3 = (bound, os4)"
    by (cases "sys system (Sys_bind sock port) os3")
  note calls = sys_fields [OF s] sys_fields [OF o] sys_fields [OF b]
  show ?thesis
  proof (cases "r \<noteq> 0")
    case True
    then show ?thesis
      using assms i init
      by (auto simp: server_socket_def print_error_def get_last_error_def Let_def intro!: exI [of _ "[]"])
  next
    case r: False
    show ?thesis
    proof (cases "socket_negative build sock")
      case True
      then have "noticed_failure build Sys_socket = Some ''create socket failed''"
        by (cases build) (simp_all add: socket_negative_def noticed_failure_def)
      with True r show ?thesis
        using assms i init calls s
        by (auto simp: server_socket_def print_error_def get_last_error_def Let_def intro!: exI [of _ "[init]"])
    next
      case False
      have "noticed_failure build (Sys_bind sock port) = Some ''bind failed''" by (simp add: noticed_failure_def)
      with False r show ?thesis
        using assms i init calls s o b
        by (auto simp: server_socket_def print_error_def get_last_error_def Let_def
            intro!: exI [of _ "[init, Sys_socket, Sys_setsockopt sock]"] split: if_splits prod.splits)
    qed
  qed
qed

lemma server_socket_fine:
  "server_socket build system port os = (Inr sock, os') \<Longrightarrow> os_cerr os' = os_cerr os"
  by (auto simp: server_socket_def dest!: network_init_calls sys_fields split: prod.splits if_splits)

lemma network_cleanup_cerr [simp]: "os_cerr (network_cleanup build system os) = os_cerr os"
  by (simp add: network_cleanup_def sys_def split: build.split prod.split)

section \<open>Properties\<close>


text \<open>An environment, and a system in which the port is in use.\<close>

definition plain_env :: server_env where
  "plain_env = \<lparr>se_indet = \<lparr>in_num = 0, in_entry = LogEntry_new 0 [] 0 CPU 0, in_count = 0, in_id = 0\<rparr>,
     se_parse = (\<lambda>_. Inr [])\<rparr>"

definition busy_system :: "int system" where
  "busy_system = \<lparr>sys_answer = (\<lambda>call k. case call of Sys_socket \<Rightarrow> (3, k) | Sys_bind s p \<Rightarrow> (- 1, 98) | _ \<Rightarrow> (0, k)),
     sys_errno = (\<lambda>k. k), sys_strerror = (\<lambda>e. ''in use'')\<rparr>"


text \<open>
  C24. Once the server waits, the operator's \<^verbatim>\<open>exit\<close> works: whatever the other threads do afterwards, the
  main thread leaves its loop at its next look at the flag (or a thread has ended the program), and
  without \<^verbatim>\<open>exit\<close> nothing makes it leave.
\<close>

theorem exit_stops_server:
  assumes "sr_pc (serve env before (server_begin fs)) = Wait"
  shows "ended (serve env (before @ Console_line ''exit'' # later @ [Main_step]) (server_begin fs)) \<and>
    (sv_is_running (sr_server (serve env before (server_begin fs))) \<and> Console_line ''exit'' \<notin> set later \<longrightarrow>
     sr_pc (serve env (before @ later) (server_begin fs)) \<noteq> Returned)"
proof
  let ?r = "serve env before (server_begin fs)"
  have "UserInputCallback \<in> set (subscribers (sv_bus (sr_server ?r)))"
    using run_ok_serve [OF run_ok_begin, of env before fs] assms by (simp add: run_ok_def)
  then have "told_to_stop (server_step env (Console_line ''exit'') ?r)"
    using assms by (simp add: told_to_stop_def server_step_def ended_def after_publish_def publish_exit)
  then have "told_to_stop (serve env later (server_step env (Console_line ''exit'') ?r))"
    by (rule told_to_stop_serve)
  then have "ended (server_step env Main_step (serve env later (server_step env (Console_line ''exit'') ?r)))"
    by (auto simp: told_to_stop_def server_step_def main_thread_step_def ended_def Let_def)
  then show "ended (serve env (before @ Console_line ''exit'' # later @ [Main_step]) (server_begin fs))" by simp
  show "sv_is_running (sr_server ?r) \<and> Console_line ''exit'' \<notin> set later \<longrightarrow>
     sr_pc (serve env (before @ later) (server_begin fs)) \<noteq> Returned"
    using keeps_running_serve [of ?r later env] assms by (auto simp: keeps_running_def)
qed

lemma exit_stops_server_witness:
  "ended (serve plain_env ([Main_step, Main_step, Main_step] @ Console_line ''exit'' #
     [Connection 5 ''10.0.0.7'' 40000] @ [Main_step]) (server_begin empty_fsys))"
  using exit_stops_server [of plain_env "[Main_step, Main_step, Main_step]" empty_fsys "[Connection 5 ''10.0.0.7'' 40000]"]
  unfolding serve_undisturbed by simp

text \<open>
  C25. An \<^verbatim>\<open>exit\<close> that arrives before \<^verbatim>\<open>run\<close> has set its flag is lost, also when the subscriber of the
  console has already taken it: \<^verbatim>\<open>run\<close> sets the flag behind it, and the server never returns unless
  the operator repeats the command.
\<close>

theorem early_exit_lost:
  assumes "sr_pc (serve env before (server_begin fs)) \<in> {Register_user_input, Register_send_output, Set_running}"
    and "Console_line ''exit'' \<notin> set later"
  shows "sr_pc (serve env (before @ later) (server_begin fs)) \<noteq> Returned"
proof -
  have "keeps_running (serve env before (server_begin fs))" using assms(1) by (auto simp: keeps_running_def)
  from keeps_running_serve [OF this assms(2)] show ?thesis by (simp add: keeps_running_def)
qed

lemma early_exit_lost_witness:
  "sr_pc (serve plain_env ([Main_step, Console_line ''exit''] @ [Main_step, Main_step, Main_step, Main_step])
     (server_begin empty_fsys)) \<noteq> Returned"
proof (rule early_exit_lost)
  show "sr_pc (serve plain_env [Main_step, Console_line ''exit''] (server_begin empty_fsys))
      \<in> {Register_user_input, Register_send_output, Set_running}"
    by (simp add: server_step_def ended_def main_thread_step_def server_begin_def after_publish_def publish_exit Let_def)
qed simp

end
