(* ===== verification/Locks.thy ===== *)
theory Locks
  imports Server_Runs
begin

text \<open>
  The two mutexes of the server: \<^verbatim>\<open>EventBus::subscribers_mutex\<close> and
  \<^verbatim>\<open>ClientManager::client_handlers_mutex\<close>. Every operation of the server is turned into the sequence
  of lock operations it performs (in the order of \<^verbatim>\<open>event_bus.cpp\<close> and \<^verbatim>\<open>client_manager.cpp\<close>, the
  subscribers it calls included), and threads that run such operations are interleaved. A
  \<^verbatim>\<open>std::mutex\<close> is not recursive: a thread that locks one it holds waits for ever.
\<close>

section \<open>The lock operations of the server\<close>

datatype mutex = Subscribers_mutex | Client_handlers_mutex

datatype lock_op = Lock mutex | Unlock mutex

text \<open>A \<^verbatim>\<open>lock_guard\<close> in a block that calls nothing which locks.\<close>

definition lock_guard :: "mutex \<Rightarrow> lock_op list" where
  "lock_guard m = [Lock m, Unlock m]"

text \<open>\<^verbatim>\<open>subscribe\<close> and the constructor of a handler, then \<^verbatim>\<open>add_new_client\<close>.\<close>

definition accept_locks :: "lock_op list" where
  "accept_locks = lock_guard Subscribers_mutex @ lock_guard Client_handlers_mutex"

text \<open>
  Publishing copies the subscribers under the lock and calls the copies without it; the state goes
  from one callback to the next, and an exception skips the rest.
\<close>

fun callbacks_locks ::
  "('cb \<Rightarrow> Event \<Rightarrow> 's \<Rightarrow> lock_op list) \<Rightarrow> ('cb \<Rightarrow> Event \<Rightarrow> 's \<Rightarrow> unit result \<times> 's) \<Rightarrow>
     Event \<Rightarrow> 'cb list \<Rightarrow> 's \<Rightarrow> lock_op list" where
  "callbacks_locks locks call event [] s = []"
| "callbacks_locks locks call event (cb # cbs) s =
     locks cb event s @
     (case call cb event s of
        (Inl e, s') \<Rightarrow> []
      | (Inr _, s') \<Rightarrow> callbacks_locks locks call event cbs s')"

definition publish_locks ::
  "('s \<Rightarrow> 'cb EventBus) \<Rightarrow> ('cb \<Rightarrow> Event \<Rightarrow> 's \<Rightarrow> lock_op list) \<Rightarrow>
     ('cb \<Rightarrow> Event \<Rightarrow> 's \<Rightarrow> unit result \<times> 's) \<Rightarrow> Event \<Rightarrow> 's \<Rightarrow> lock_op list" where
  "publish_locks bus_of locks call event s =
     (let copy = subscribers (bus_of s)
      in lock_guard Subscribers_mutex @ callbacks_locks locks call event copy s)"

text \<open>A message to send: only the manager's subscriber locks, to look up the client.\<close>

definition send_output_locks :: "server_callback \<Rightarrow> Event \<Rightarrow> Server \<Rightarrow> lock_op list" where
  "send_output_locks cb ev s =
     (case (cb, ev) of
        (SendOutputCallback, NetworkSendEvent ip port payload) \<Rightarrow> lock_guard Client_handlers_mutex
      | _ \<Rightarrow> [])"

definition publish_send_locks :: "server_env \<Rightarrow> Event \<Rightarrow> Server \<Rightarrow> lock_op list" where
  "publish_send_locks env ev s = publish_locks sv_bus send_output_locks (server_call env) ev s"

text \<open>
  The other two subscribers publish a message to send: a handler for the acknowledgement of logs, the
  manager for a command of the operator, after it looked up the client.
\<close>

definition find_client_locks :: "string \<Rightarrow> lock_op list" where
  "find_client_locks input =
     (case find_char input (CHR '':'') of
        None \<Rightarrow> []
      | Some pos \<Rightarrow> (case str_to_int (take pos input) of
                      Inl e \<Rightarrow> []
                    | Inr _ \<Rightarrow> lock_guard Client_handlers_mutex))"

definition call_locks :: "server_env \<Rightarrow> server_callback \<Rightarrow> Event \<Rightarrow> Server \<Rightarrow> lock_op list" where
  "call_locks env cb ev s =
     (case cb of
        HandlerCallback info \<Rightarrow>
          (case ev of
             NetworkRecvEvent ip port payload \<Rightarrow>
               (case handler_callback (se_indet env) info ip port payload (sv_fs s) of
                  (Inr (Some ack), fs') \<Rightarrow> publish_send_locks env ack (s\<lparr>sv_fs := fs'\<rparr>)
                | _ \<Rightarrow> [])
           | _ \<Rightarrow> [])
      | UserInputCallback \<Rightarrow>
          (case ev of
             InputEvent payload \<Rightarrow>
               if payload = ''exit'' then []
               else find_client_locks payload @
                 (case find_client_from_input payload s of
                    Inl e \<Rightarrow> []
                  | Inr (client_info, message) \<Rightarrow>
                      if ci_client_id client_info \<le> 0 then []
                      else if starts_with message ''config '' then
                        (case open_in (sv_fs s) (drop (length ''config '') message) of
                           None \<Rightarrow> []
                         | Some config_file_in \<Rightarrow>
                             (case config_message env (inbuf config_file_in) of
                                Inl e \<Rightarrow> []
                              | Inr p \<Rightarrow>
                                  publish_send_locks env
                                    (NetworkSendEvent (ci_client_ip client_info)
                                       (ci_client_port client_info) p) s))
                      else [])
           | _ \<Rightarrow> [])
      | SendOutputCallback \<Rightarrow> send_output_locks cb ev s)"

definition server_publish_locks :: "server_env \<Rightarrow> Event \<Rightarrow> Server \<Rightarrow> lock_op list" where
  "server_publish_locks env ev s = publish_locks sv_bus (call_locks env) (server_call env) ev s"

section \<open>No lock inside another\<close>

fun flat :: "lock_op list \<Rightarrow> bool" where
  "flat [] = True"
| "flat (Lock m # Unlock m' # ops) = (m = m' \<and> flat ops)"
| "flat _ = False"

lemma flat_append: "flat xs \<Longrightarrow> flat ys \<Longrightarrow> flat (xs @ ys)"
  by (induction xs rule: flat.induct) auto

lemma flat_lock_guard [simp]: "flat (lock_guard m)"
  by (simp add: lock_guard_def)

lemma flat_accept: "flat accept_locks"
  by (simp add: accept_locks_def flat_append)

lemma flat_callbacks:
  "(\<And>cb t. flat (locks cb ev t)) \<Longrightarrow> flat (callbacks_locks locks call ev cbs s)"
  by (induction cbs arbitrary: s) (auto intro!: flat_append split: prod.split sum.split)

lemma flat_publish:
  "(\<And>cb t. flat (locks cb ev t)) \<Longrightarrow> flat (publish_locks bus_of locks call ev s)"
  by (simp add: publish_locks_def flat_append flat_callbacks)

lemma flat_send_output: "flat (send_output_locks cb ev s)"
  by (simp add: send_output_locks_def split: server_callback.split Event.split)

lemma flat_publish_send: "flat (publish_send_locks env ev s)"
  by (simp add: publish_send_locks_def flat_publish flat_send_output)

lemma flat_find_client: "flat (find_client_locks input)"
  by (simp add: find_client_locks_def split: option.split sum.split)

lemma flat_call: "flat (call_locks env cb ev s)"
  unfolding call_locks_def
  by (auto intro!: flat_append flat_find_client flat_publish_send flat_send_output
      simp del: handler_callback_def
      split: server_callback.split Event.split sum.split option.split prod.split)

lemma flat_server_publish: "flat (server_publish_locks env ev s)"
  by (simp add: server_publish_locks_def flat_publish flat_call)

section \<open>Threads\<close>

text \<open>What every thread still has to do, and who holds a mutex.\<close>

record lock_state =
  todo :: "lock_op list list"
  holder :: "mutex \<rightharpoonup> nat"

inductive lock_step :: "lock_state \<Rightarrow> lock_state \<Rightarrow> bool" where
  lock: "i < length (todo s) \<Longrightarrow> todo s ! i = Lock m # ops \<Longrightarrow> holder s m = None \<Longrightarrow>
    lock_step s (s\<lparr>todo := (todo s)[i := ops], holder := (holder s)(m \<mapsto> i)\<rparr>)"
| unlock: "i < length (todo s) \<Longrightarrow> todo s ! i = Unlock m # ops \<Longrightarrow> holder s m = Some i \<Longrightarrow>
    lock_step s (s\<lparr>todo := (todo s)[i := ops], holder := (holder s)(m := None)\<rparr>)"

definition lock_start :: "lock_op list list \<Rightarrow> lock_state" where
  "lock_start ts = \<lparr>todo = ts, holder = Map.empty\<rparr>"

definition finished :: "lock_state \<Rightarrow> bool" where
  "finished s \<longleftrightarrow> list_all (\<lambda>ops. ops = []) (todo s)"

text \<open>A thread is outside every lock, or holds exactly one and gives it back next.\<close>

definition outside :: "lock_state \<Rightarrow> nat \<Rightarrow> bool" where
  "outside s i \<longleftrightarrow> flat (todo s ! i) \<and> (\<forall>m. holder s m \<noteq> Some i)"

definition inside :: "lock_state \<Rightarrow> nat \<Rightarrow> mutex \<Rightarrow> bool" where
  "inside s i m \<longleftrightarrow> (\<exists>ops. todo s ! i = Unlock m # ops \<and> flat ops) \<and>
     (\<forall>m'. holder s m' = Some i \<longleftrightarrow> m' = m)"

definition locks_ok :: "lock_state \<Rightarrow> bool" where
  "locks_ok s \<longleftrightarrow> (\<forall>i < length (todo s). outside s i \<or> (\<exists>m. inside s i m)) \<and>
     (\<forall>m i. holder s m = Some i \<longrightarrow> i < length (todo s))"

lemma flat_Lock: "flat (Lock m # ops) \<Longrightarrow> \<exists>ops'. ops = Unlock m # ops' \<and> flat ops'"
  by (cases "Lock m # ops" rule: flat.cases) auto

lemma locks_ok_start: "list_all flat ts \<Longrightarrow> locks_ok (lock_start ts)"
  by (auto simp: locks_ok_def lock_start_def outside_def list_all_length)

lemma locks_okI:
  assumes "outside s i \<or> (\<exists>m. inside s i m)"
    and "\<And>j. j \<noteq> i \<Longrightarrow> j < length (todo s) \<Longrightarrow> outside s j \<or> (\<exists>m. inside s j m)"
    and "\<And>m j. holder s m = Some j \<Longrightarrow> j < length (todo s)"
  shows "locks_ok s"
  using assms unfolding locks_ok_def by metis

lemma lock_step_ok: "lock_step s s' \<Longrightarrow> locks_ok s \<Longrightarrow> locks_ok s'"
proof (induction rule: lock_step.induct)
  case (lock i s m ops)
  then have o: "outside s i" by (auto simp: locks_ok_def inside_def)
  with lock(2) obtain ops' where ops: "ops = Unlock m # ops'" "flat ops'"
    using flat_Lock by (auto simp: outside_def)
  let ?s = "s\<lparr>todo := (todo s)[i := ops], holder := (holder s)(m \<mapsto> i)\<rparr>"
  have "inside ?s i m" using o ops lock(1) by (auto simp: inside_def outside_def)
  moreover have "outside ?s j \<or> (\<exists>m'. inside ?s j m')" if "j \<noteq> i" "j < length (todo s)" for j
  proof -
    from lock.prems that(2) consider "outside s j" | m' where "inside s j m'" by (auto simp: locks_ok_def)
    then show ?thesis
    proof cases
      case 1
      with that(1) show ?thesis by (auto simp: outside_def)
    next
      case 2
      then have "holder s m' = Some j" by (simp add: inside_def)
      with lock(3) have "m' \<noteq> m" by auto
      with 2 that(1) lock(3) have "inside ?s j m'" by (simp add: inside_def)
      then show ?thesis by blast
    qed
  qed
  ultimately show ?case using lock by (intro locks_okI [of _ i]) (auto simp: locks_ok_def split: if_splits)
next
  case (unlock i s m ops)
  then have "outside s i \<or> (\<exists>m'. inside s i m')" by (simp add: locks_ok_def)
  moreover have "\<not> outside s i" using unlock(3) by (auto simp: outside_def)
  ultimately obtain m' where "inside s i m'" by blast
  with unlock(2) have o: "inside s i m" by (auto simp: inside_def)
  let ?s = "s\<lparr>todo := (todo s)[i := ops], holder := (holder s)(m := None)\<rparr>"
  have "outside ?s i" using o unlock(1,2) by (auto simp: inside_def outside_def)
  moreover have "outside ?s j \<or> (\<exists>m'. inside ?s j m')" if "j \<noteq> i" "j < length (todo s)" for j
  proof -
    from unlock.prems that(2) consider "outside s j" | m' where "inside s j m'" by (auto simp: locks_ok_def)
    then show ?thesis
    proof cases
      case 1
      with that(1) show ?thesis by (auto simp: outside_def)
    next
      case 2
      then have "holder s m' = Some j" by (simp add: inside_def)
      with unlock(3) that(1) have "m' \<noteq> m" by auto
      with 2 that(1) have "inside ?s j m'" by (auto simp: inside_def)
      then show ?thesis by blast
    qed
  qed
  ultimately show ?case using unlock by (intro locks_okI [of _ i]) (auto simp: locks_ok_def split: if_splits)
qed

lemma lock_steps_ok: "lock_step\<^sup>*\<^sup>* s s' \<Longrightarrow> locks_ok s \<Longrightarrow> locks_ok s'"
  by (induction rule: rtranclp_induct) (auto intro: lock_step_ok)

lemma not_finished_step:
  assumes "locks_ok s" and "\<not> finished s"
  shows "\<exists>s'. lock_step s s'"
proof (cases "\<exists>m i. holder s m = Some i")
  case True
  then obtain m i where h: "holder s m = Some i" by blast
  with assms(1) have i: "i < length (todo s)" by (auto simp: locks_ok_def)
  with assms(1) h obtain ops where "todo s ! i = Unlock m # ops"
    by (fastforce simp: locks_ok_def outside_def inside_def)
  with i h show ?thesis by (blast intro: lock_step.unlock)
next
  case False
  then have free: "holder s m = None" for m by auto
  from assms(2) obtain i where i: "i < length (todo s)" "todo s ! i \<noteq> []"
    by (auto simp: finished_def list_all_length)
  with assms(1) False have "flat (todo s ! i)" by (auto simp: locks_ok_def outside_def inside_def)
  with i(2) obtain m ops where "todo s ! i = Lock m # ops" by (cases "todo s ! i" rule: flat.cases) auto
  with i free show ?thesis by (blast intro: lock_step.lock)
qed

text \<open>Every step does one of the operations left, so the threads can always be run to their end.\<close>

definition work_left :: "lock_state \<Rightarrow> nat" where
  "work_left s = sum_list (map length (todo s))"

lemma work_left_update:
  assumes "i < length (todo s)"
  shows "sum_list (map length ((todo s)[i := ops])) + length (todo s ! i) = work_left s + length ops"
proof -
  have "todo s = take i (todo s) @ todo s ! i # drop (Suc i) (todo s)"
    using assms by (rule id_take_nth_drop)
  then have "work_left s = sum_list (map length (take i (todo s))) + length (todo s ! i) +
      sum_list (map length (drop (Suc i) (todo s)))"
    unfolding work_left_def by (metis append.assoc add.assoc list.simps(9) map_append sum_list.Cons sum_list_append)
  with assms show ?thesis by (simp add: upd_conv_take_nth_drop)
qed

lemma lock_step_work: "lock_step s s' \<Longrightarrow> work_left s' < work_left s"
proof (induction rule: lock_step.induct)
  case (lock i s m ops)
  then show ?case using work_left_update [of i s ops] by (simp add: work_left_def)
next
  case (unlock i s m ops)
  then show ?case using work_left_update [of i s ops] by (simp add: work_left_def)
qed

lemma run_to_end: "locks_ok s \<Longrightarrow> \<exists>s'. lock_step\<^sup>*\<^sup>* s s' \<and> finished s'"
proof (induction "work_left s" arbitrary: s rule: less_induct)
  case less
  show ?case
  proof (cases "finished s")
    case True
    then show ?thesis by blast
  next
    case False
    with less.prems obtain s1 where s1: "lock_step s s1" using not_finished_step by blast
    with less.hyps [of s1] less.prems lock_step_work lock_step_ok show ?thesis
      by (metis converse_rtranclp_into_rtranclp)
  qed
qed

lemma finished_free:
  assumes "locks_ok s" and "finished s"
  shows "holder s = Map.empty"
proof
  fix m
  have "holder s m \<noteq> Some i" for i
  proof
    assume h: "holder s m = Some i"
    with assms(1) have i: "i < length (todo s)" by (simp add: locks_ok_def)
    with assms(2) have "todo s ! i = []" by (simp add: finished_def list_all_length)
    then have "\<not> inside s i m'" for m' by (simp add: inside_def)
    with assms(1) i have "outside s i" by (auto simp: locks_ok_def)
    with h show False by (simp add: outside_def)
  qed
  then show "holder s m = None" by (meson not_None_eq)
qed

section \<open>The threads of the server\<close>

text \<open>
  What one thread does in a row: any number of clients accepted and of events published, each in
  whatever state the other threads have left.
\<close>

datatype server_action = Accept | Publish server_env Event Server

fun action_locks :: "server_action \<Rightarrow> lock_op list" where
  "action_locks Accept = accept_locks"
| "action_locks (Publish env ev s) = server_publish_locks env ev s"

definition thread_locks :: "server_action list \<Rightarrow> lock_op list" where
  "thread_locks actions = concat (map action_locks actions)"

lemma flat_thread: "flat (thread_locks actions)"
proof (induction actions)
  case Nil
  show ?case by (simp add: thread_locks_def)
next
  case (Cons a actions)
  moreover have "flat (action_locks a)" by (cases a) (simp_all add: flat_accept flat_server_publish)
  ultimately show ?case by (simp add: thread_locks_def flat_append)
qed

section \<open>Properties\<close>

text \<open>
  C10. Whatever the threads of the server do (accept clients, publish received messages and operator
  commands, the events published inside the callbacks included) and however they are scheduled, no
  state is reached from which they cannot all be run to their end: no thread waits for ever for a
  mutex, and at the end no mutex is held. In particular publishing inside a callback does not wait
  for the lock of the outer publication.
\<close>

theorem server_never_deadlocks:
  assumes "lock_step\<^sup>*\<^sup>* (lock_start (map thread_locks threads)) s"
  shows "\<exists>s'. lock_step\<^sup>*\<^sup>* s s' \<and> finished s' \<and> holder s' = Map.empty"
proof -
  have ok: "locks_ok s"
    using assms by (rule lock_steps_ok) (intro locks_ok_start, auto simp: list_all_iff flat_thread)
  then obtain s' where s': "lock_step\<^sup>*\<^sup>* s s'" "finished s'" using run_to_end by blast
  with ok have "locks_ok s'" by (blast intro: lock_steps_ok)
  with s' show ?thesis using finished_free by blast
qed

text \<open>
  Two threads that accept a client each; the first is stopped while it holds the mutex of the
  subscribers, which the other wants next.
\<close>

lemma server_never_deadlocks_witness:
  "\<exists>s'. lock_step\<^sup>*\<^sup>*
     \<lparr>todo = [tl accept_locks, thread_locks [Accept]], holder = [Subscribers_mutex \<mapsto> 0]\<rparr> s' \<and>
     finished s' \<and> holder s' = Map.empty"
proof -
  have "lock_step (lock_start (map thread_locks [[Accept], [Accept]]))
     \<lparr>todo = [tl accept_locks, thread_locks [Accept]], holder = [Subscribers_mutex \<mapsto> 0]\<rparr>"
    using lock_step.lock [of 0 "lock_start (map thread_locks [[Accept], [Accept]])" Subscribers_mutex "tl accept_locks"]
    by (simp add: lock_start_def thread_locks_def accept_locks_def lock_guard_def)
  then show ?thesis by (intro server_never_deadlocks [of "[[Accept], [Accept]]"] r_into_rtranclp)
qed

end
