(* ===== verification/Queue_Race.thy ===== *)
theory Queue_Race
  imports Queue_History Client_Handler
begin

text \<open>
  The client's log queue is used by two threads and has no lock (\<^verbatim>\<open>src/client/client.cpp\<close>): the main
  loop takes a batch (\<^verbatim>\<open>get_batch_log\<close>) while the receiving thread may be removing acknowledged logs
  (\<^verbatim>\<open>ack_log\<close>). Here both run in single steps, one access to the shared queue each, in any order.
  (Two unlocked accesses at the same moment are undefined in C++; this model is about what can go
  wrong even when each single access is atomic.)
\<close>

section \<open>The two operations in steps\<close>

text \<open>
  \<^verbatim>\<open>get_batch_log\<close>: the test \<^verbatim>\<open>empty()\<close>, the minimum with \<^verbatim>\<open>size()\<close>, then one \<^verbatim>\<open>at(i)\<close> for every \<open>i\<close>
  below it, which throws \<^verbatim>\<open>std::out_of_range\<close> beyond the end.
\<close>

datatype batch_pc =
    Batch_empty
  | Batch_size
  | Batch_loop u32 u32 "LogEntry list"
  | Batch_return "LogEntry list"
  | Batch_throw

fun batch_step :: "u32 \<Rightarrow> LogEntry list \<Rightarrow> batch_pc \<Rightarrow> batch_pc" where
  "batch_step n es Batch_empty = (if es = [] then Batch_return [] else Batch_size)"
| "batch_step n es Batch_size = Batch_loop 0 (min n (of_nat (length es))) []"
| "batch_step n es (Batch_loop i bsize peek) =
     (if i < bsize
      then if unat i < length es then Batch_loop (i + 1) bsize (peek @ [es ! unat i])
           else Batch_throw
      else Batch_return peek)"
| "batch_step n es (Batch_return peek) = Batch_return peek"
| "batch_step n es Batch_throw = Batch_throw"

text \<open>
  \<^verbatim>\<open>ack_log\<close> for one acknowledgement after the other: comparing and storing the id, the test of the
  loop, \<^verbatim>\<open>pop_front()\<close>, and the ack file.
\<close>

datatype ack_pc = Ack_idle | Ack_test | Ack_pop | Ack_write

record race =
  rc_queue :: LogQueue
  rc_fs :: fsys
  rc_batch :: batch_pc
  rc_acks :: "u64 list"
  rc_ack :: ack_pc

definition ack_step :: "race \<Rightarrow> race" where
  "ack_step r =
     (let q = rc_queue r in
      case rc_ack r of
        Ack_idle \<Rightarrow>
          (case rc_acks r of
             [] \<Rightarrow> r
           | i # is \<Rightarrow>
               if i = lq_ack_id q then r\<lparr>rc_acks := is\<rparr>
               else r\<lparr>rc_acks := is, rc_queue := q\<lparr>lq_ack_id := i\<rparr>, rc_ack := Ack_test\<rparr>)
      | Ack_test \<Rightarrow>
          if lq_log_entries q \<noteq> [] \<and> le_id (hd (lq_log_entries q)) \<le> lq_ack_id q
          then r\<lparr>rc_ack := Ack_pop\<rparr> else r\<lparr>rc_ack := Ack_write\<rparr>
      | Ack_pop \<Rightarrow> r\<lparr>rc_queue := q\<lparr>lq_log_entries := tl (lq_log_entries q)\<rparr>, rc_ack := Ack_test\<rparr>
      | Ack_write \<Rightarrow> r\<lparr>rc_fs := write_ack q (rc_fs r), rc_ack := Ack_idle\<rparr>)"

datatype client_thread = Main_thread | Receiver_thread

fun race_step :: "u32 \<Rightarrow> client_thread \<Rightarrow> race \<Rightarrow> race" where
  "race_step n Main_thread r = r\<lparr>rc_batch := batch_step n (lq_log_entries (rc_queue r)) (rc_batch r)\<rparr>"
| "race_step n Receiver_thread r = ack_step r"

definition run_race :: "u32 \<Rightarrow> client_thread list \<Rightarrow> race \<Rightarrow> race" where
  "run_race n schedule r = fold (race_step n) schedule r"

definition race_start :: "LogQueue \<Rightarrow> fsys \<Rightarrow> u64 list \<Rightarrow> race" where
  "race_start q fs acks = \<lparr>rc_queue = q, rc_fs = fs, rc_batch = Batch_empty, rc_acks = acks, rc_ack = Ack_idle\<rparr>"

lemma run_race_simps [simp]:
  "run_race n [] r = r"
  "run_race n (t # ts) r = run_race n ts (race_step n t r)"
  "run_race n (ts @ us) r = run_race n us (run_race n ts r)"
  by (simp_all add: run_race_def)

section \<open>One thread at a time\<close>

lemma batch_loop_alone:
  assumes "unat sz \<le> length (lq_log_entries (rc_queue r))" and "k \<le> unat sz"
    and "rc_batch r = Batch_loop (of_nat (unat sz - k)) sz (take (unat sz - k) (lq_log_entries (rc_queue r)))"
  shows "run_race n (replicate (Suc k) Main_thread) r =
    r\<lparr>rc_batch := Batch_return (take (unat sz) (lq_log_entries (rc_queue r)))\<rparr>"
  using assms
proof (induction k arbitrary: r)
  case 0
  then show ?case by simp
next
  case (Suc k)
  let ?i = "unat sz - Suc k" and ?es = "lq_log_entries (rc_queue r)"
  have i: "unat (of_nat ?i :: u32) = ?i"
    using unsigned_less [of sz, where ?'a = nat]
    by (simp add: unsigned_of_nat take_bit_nat_eq_self less_imp_diff_less)
  then have less: "of_nat ?i < sz" using Suc.prems(2) by (simp add: word_less_nat_alt)
  have i1: "(of_nat ?i :: u32) + 1 = of_nat (unat sz - k)" using Suc.prems(2)
    by (metis Suc_diff_Suc Suc_le_lessD add.commute of_nat_Suc)
  have "take ?i ?es @ [?es ! ?i] = take (unat sz - k) ?es"
    using Suc.prems(1,2) by (simp add: take_Suc_conv_app_nth [symmetric] Suc_diff_Suc Suc_le_lessD)
  then have "race_step n Main_thread r =
      r\<lparr>rc_batch := Batch_loop (of_nat (unat sz - k)) sz (take (unat sz - k) ?es)\<rparr>"
    using Suc.prems i less i1 by simp
  then show ?case using Suc.IH [of "race_step n Main_thread r"] Suc.prems by simp
qed

lemma batch_alone:
  assumes "rc_batch r = Batch_empty"
  shows "\<exists>k. run_race n (replicate k Main_thread) r =
    r\<lparr>rc_batch := Batch_return (get_batch_log n (rc_queue r))\<rparr>"
proof (cases "lq_log_entries (rc_queue r) = []")
  case True
  with assms show ?thesis by (intro exI [of _ 1]) (simp add: get_batch_log_def)
next
  case False
  let ?es = "lq_log_entries (rc_queue r)"
  let ?size = "min n (of_nat (length ?es)) :: u32"
  have u: "unat ?size = min (unat n) (length ?es mod 2 ^ 32)"
    by (simp add: min_def word_le_nat_alt unsigned_of_nat take_bit_eq_mod)
  let ?r = "r\<lparr>rc_batch := Batch_loop 0 ?size []\<rparr>"
  have "run_race n (replicate (Suc (unat ?size)) Main_thread) ?r =
      ?r\<lparr>rc_batch := Batch_return (take (unat ?size) ?es)\<rparr>"
    using batch_loop_alone [of ?size ?r "unat ?size" n] by (simp add: u min.coboundedI2)
  then have "run_race n (replicate (Suc (Suc (Suc (unat ?size)))) Main_thread) r =
      r\<lparr>rc_batch := Batch_return (get_batch_log n (rc_queue r))\<rparr>"
    using assms False by (simp add: get_batch_log_prefix u)
  then show ?thesis by blast
qed

lemma pop_alone:
  assumes "rc_ack r = Ack_test"
  shows "\<exists>k. run_race n (replicate k Receiver_thread) r =
    r\<lparr>rc_queue := (rc_queue r)\<lparr>lq_log_entries := pop_acked (lq_ack_id (rc_queue r)) (lq_log_entries (rc_queue r))\<rparr>,
      rc_ack := Ack_write\<rparr>"
  using assms
proof (induction "lq_log_entries (rc_queue r)" arbitrary: r)
  case Nil
  then have "ack_step r = r\<lparr>rc_ack := Ack_write\<rparr>" by (simp add: ack_step_def Let_def)
  with Nil show ?case by (intro exI [of _ 1]) simp
next
  case (Cons e es)
  show ?case
  proof (cases "le_id e \<le> lq_ack_id (rc_queue r)")
    case True
    let ?r = "r\<lparr>rc_queue := (rc_queue r)\<lparr>lq_log_entries := es\<rparr>\<rparr>"
    have "ack_step (ack_step r) = ?r"
      using True Cons.prems Cons.hyps(2) [symmetric] by (simp add: ack_step_def Let_def)
    moreover obtain k where "run_race n (replicate k Receiver_thread) ?r =
        ?r\<lparr>rc_queue := (rc_queue ?r)\<lparr>lq_log_entries := pop_acked (lq_ack_id (rc_queue r)) es\<rparr>,
           rc_ack := Ack_write\<rparr>"
      using Cons.hyps(1) [of ?r] Cons.prems by auto
    ultimately show ?thesis
      using True Cons.hyps(2) [symmetric] by (intro exI [of _ "Suc (Suc k)"]) simp
  next
    case False
    then have "ack_step r = r\<lparr>rc_ack := Ack_write\<rparr>"
      using Cons.prems Cons.hyps(2) [symmetric] by (simp add: ack_step_def Let_def)
    then show ?thesis using False Cons.hyps(2) [symmetric] by (intro exI [of _ 1]) simp
  qed
qed

lemma ack_alone:
  assumes "rc_ack r = Ack_idle" and "rc_acks r = i # is"
  shows "\<exists>k. run_race n (replicate k Receiver_thread) r =
    r\<lparr>rc_acks := is, rc_queue := fst (ack_log i (rc_queue r) (rc_fs r)),
      rc_fs := snd (ack_log i (rc_queue r) (rc_fs r))\<rparr>"
proof (cases "i = lq_ack_id (rc_queue r)")
  case True
  with assms show ?thesis by (intro exI [of _ 1]) (simp add: ack_step_def Let_def ack_log_def)
next
  case False
  let ?r = "r\<lparr>rc_acks := is, rc_queue := (rc_queue r)\<lparr>lq_ack_id := i\<rparr>, rc_ack := Ack_test\<rparr>"
  have s: "ack_step r = ?r" using False assms by (simp add: ack_step_def Let_def)
  from pop_alone [of ?r n] obtain k where "run_race n (replicate k Receiver_thread) ?r =
      ?r\<lparr>rc_queue := (rc_queue ?r)\<lparr>lq_log_entries := pop_acked i (lq_log_entries (rc_queue r))\<rparr>, rc_ack := Ack_write\<rparr>"
    by auto
  with s False assms have "run_race n (replicate (Suc k) Receiver_thread @ [Receiver_thread]) r =
      r\<lparr>rc_acks := is, rc_queue := fst (ack_log i (rc_queue r) (rc_fs r)),
        rc_fs := snd (ack_log i (rc_queue r) (rc_fs r))\<rparr>"
    by (simp add: ack_step_def ack_log_def Let_def)
  then show ?thesis by (metis replicate_append_same replicate_Suc)
qed

section \<open>Any schedule\<close>

text \<open>
  In a history the queue is always one of its suffixes, and what was read lies behind what is still
  to be read. No condition on the acknowledged ids is needed.
\<close>

definition race_ok :: "LogEntry list \<Rightarrow> u32 \<Rightarrow> race \<Rightarrow> bool" where
  "race_ok hist n r \<longleftrightarrow>
     (\<exists>j \<le> length hist. lq_log_entries (rc_queue r) = drop j hist \<and>
        (rc_ack r = Ack_pop \<longrightarrow> j < length hist) \<and>
        (case rc_batch r of
           Batch_loop i bsize peek \<Rightarrow>
             i \<le> bsize \<and> bsize \<le> n \<and> length peek = unat i \<and> set peek \<subseteq> set hist \<and>
             sorted_wrt (<) (ids peek) \<and> (\<forall>x \<in> set (ids peek). x \<le> j + unat i)
         | Batch_return peek \<Rightarrow>
             length peek \<le> unat n \<and> set peek \<subseteq> set hist \<and> sorted_wrt (<) (ids peek)
         | _ \<Rightarrow> True))"

lemma race_ok_start:
  "lq_log_entries q = drop j hist \<Longrightarrow> race_ok hist n (race_start q fs acks)"
  by (simp add: race_ok_def race_start_def) (metis drop_all nle_le order_refl)

lemma history_id_at:
  assumes "history hist" and "j + i < length hist"
  shows "unat (le_id (hist ! (j + i))) = j + i + 1"
proof -
  have "ids (drop j hist) ! i = [Suc j..<Suc (length hist)] ! i"
    using history_ids_drop [OF assms(1), of j] by (simp only:)
  moreover have "drop j hist ! i = hist ! (j + i)" using assms(2) by (intro nth_drop) simp
  ultimately show ?thesis using assms(2) by (simp add: ids_def del: upt_Suc)
qed

lemma word_Suc_le:
  assumes "i < (m :: u32)"
  shows "unat (i + 1) = unat i + 1" and "i + 1 \<le> m"
proof -
  have "unat i + 1 < 2 ^ 32"
    using assms unsigned_less [of m, where ?'a = nat] by (simp add: word_less_nat_alt)
  then show u: "unat (i + 1) = unat i + 1" by (simp add: unat_word_ariths)
  show "i + 1 \<le> m" unfolding word_le_nat_alt u using assms by (simp add: word_less_nat_alt)
qed

lemma race_ok_step:
  assumes "history hist" and "race_ok hist n r"
  shows "race_ok hist n (race_step n t r)"
proof (cases t)
  case Main_thread
  from assms(2) obtain j where j: "j \<le> length hist" "lq_log_entries (rc_queue r) = drop j hist"
    "rc_ack r = Ack_pop \<longrightarrow> j < length hist"
    and b: "case rc_batch r of
        Batch_loop i bsize peek \<Rightarrow>
          i \<le> bsize \<and> bsize \<le> n \<and> length peek = unat i \<and> set peek \<subseteq> set hist \<and>
          sorted_wrt (<) (ids peek) \<and> (\<forall>x \<in> set (ids peek). x \<le> j + unat i)
      | Batch_return peek \<Rightarrow> length peek \<le> unat n \<and> set peek \<subseteq> set hist \<and> sorted_wrt (<) (ids peek)
      | _ \<Rightarrow> True"
    by (auto simp: race_ok_def)
  show ?thesis
  proof (cases "rc_batch r")
    case (Batch_loop i bsize peek)
    note l = b [unfolded Batch_loop batch_pc.case]
    show ?thesis
    proof (cases "i < bsize \<and> unat i < length (drop j hist)")
      case True
      let ?e = "drop j hist ! unat i"
      have e: "unat (le_id ?e) = j + unat i + 1" 
        using history_id_at [OF assms(1), of j "unat i"] True nth_drop [OF j(1), of "unat i"] by auto
      have i: "unat (i + 1) = unat i + 1" "i + 1 \<le> bsize" using word_Suc_le True by blast+
      have "?e \<in> set hist" using True by (meson in_set_dropD nth_mem)
      moreover have "sorted_wrt (<) (ids (peek @ [?e]))" using l e by (auto simp: ids_def sorted_wrt_append)
      moreover have "\<forall>x \<in> set (ids (peek @ [?e])). x \<le> j + unat (i + 1)" using l e i by (auto simp: ids_def)
      ultimately show ?thesis
        using True l i j by (auto simp: Main_thread race_ok_def Batch_loop intro!: exI [of _ j])
    next
      case False
      then show ?thesis using l j
        by (auto simp: Main_thread race_ok_def Batch_loop word_le_nat_alt intro!: exI [of _ j])
    qed
  qed (use j b in \<open>auto simp: Main_thread race_ok_def ids_def intro!: exI [of _ j]\<close>)
next
  case Receiver_thread
  from assms(2) obtain j where j: "j \<le> length hist" "lq_log_entries (rc_queue r) = drop j hist"
    "rc_ack r = Ack_pop \<longrightarrow> j < length hist"
    and b: "case rc_batch r of
        Batch_loop i bsize peek \<Rightarrow>
          i \<le> bsize \<and> bsize \<le> n \<and> length peek = unat i \<and> set peek \<subseteq> set hist \<and>
          sorted_wrt (<) (ids peek) \<and> (\<forall>x \<in> set (ids peek). x \<le> j + unat i)
      | Batch_return peek \<Rightarrow> length peek \<le> unat n \<and> set peek \<subseteq> set hist \<and> sorted_wrt (<) (ids peek)
      | _ \<Rightarrow> True"
    by (auto simp: race_ok_def)
  show ?thesis
  proof (cases "rc_ack r = Ack_pop")
    case True
    have "tl (drop j hist) = drop (Suc j) hist" by (simp add: drop_Suc tl_drop)
    with j b True show ?thesis
      by (auto simp: Receiver_thread race_ok_def ack_step_def Let_def split: batch_pc.splits
          intro!: exI [of _ "Suc j"] dest: order.trans [of _ "j + _"])
  next
    case False
    with j b show ?thesis
      by (auto simp: Receiver_thread race_ok_def ack_step_def Let_def not_less
          split: ack_pc.splits list.splits intro!: exI [of _ j] elim: order_le_neq_trans)
  qed
qed

lemma race_ok_run:
  "history hist \<Longrightarrow> race_ok hist n r \<Longrightarrow> race_ok hist n (run_race n schedule r)"
  by (induction schedule arbitrary: r) (simp_all add: race_ok_step del: race_step.simps)

text \<open>A batch ends after at most three of its steps more than it may have entries.\<close>

definition batch_steps_left :: "u32 \<Rightarrow> batch_pc \<Rightarrow> nat" where
  "batch_steps_left n pc =
     (case pc of
        Batch_empty \<Rightarrow> unat n + 3
      | Batch_size \<Rightarrow> unat n + 2
      | Batch_loop i bsize peek \<Rightarrow> unat bsize - unat i + 1
      | _ \<Rightarrow> 0)"

lemma batch_step_left: "batch_steps_left n (batch_step n es pc) \<le> batch_steps_left n pc - 1"
proof (cases pc)
  case Batch_size
  have "unat (min n (of_nat (length es))) \<le> unat n" by (simp add: min_def word_le_nat_alt)
  then show ?thesis by (simp add: Batch_size batch_steps_left_def)
next
  case (Batch_loop i bsize peek)
  then show ?thesis
    using word_Suc_le(1) [of i bsize] by (auto simp: batch_steps_left_def word_less_nat_alt)
qed (auto simp: batch_steps_left_def)

lemma ack_step_batch [simp]: "rc_batch (ack_step r) = rc_batch r"
  by (simp add: ack_step_def Let_def split: ack_pc.split list.split)

lemma run_race_left:
  "batch_steps_left n (rc_batch (run_race n schedule r)) \<le>
     batch_steps_left n (rc_batch r) - count_list schedule Main_thread"
proof (induction schedule arbitrary: r)
  case Nil
  show ?case by simp
next
  case (Cons t ts)
  show ?case
  proof (cases t)
    case Main_thread
    then show ?thesis
      using Cons.IH [of "race_step n t r"] batch_step_left [of n "lq_log_entries (rc_queue r)" "rc_batch r"] by simp
  next
    case Receiver_thread
    then show ?thesis using Cons.IH [of "race_step n t r"] by simp
  qed
qed

lemma batch_ended: "batch_steps_left n pc = 0 \<Longrightarrow> pc = Batch_throw \<or> (\<exists>peek. pc = Batch_return peek)"
  by (cases pc) (auto simp: batch_steps_left_def)

text \<open>Entries of a history that are numbered from 1 are its beginning.\<close>

lemma history_beginning:
  assumes h: "history hist" and sub: "set es \<subseteq> set hist" and i: "ids es = [1..<Suc (length es)]"
  shows "es = take (length es) hist" and "length es \<le> length hist"
proof -
  have at: "x < length hist \<and> es ! x = hist ! x" if "x < length es" for x
  proof -
    have "es ! x \<in> set hist" using sub that by auto
    then obtain y where y: "y < length hist" "es ! x = hist ! y" by (auto simp: in_set_conv_nth)
    have "unat (le_id (es ! x)) = ids es ! x" using that by (simp add: ids_def)
    then have "unat (le_id (es ! x)) = x + 1" using that by (simp add: i del: upt_Suc)
    then have "y = x" using history_id_at [OF h, of 0 y] y by simp
    with y show ?thesis by simp
  qed
  show len: "length es \<le> length hist" using at [of "length es - 1"] by (cases es) auto
  show "es = take (length es) hist" using at len by (intro nth_equalityI) auto
qed

lemma log_payload_Inr:
  assumes "list_all sendable es"
  shows "\<exists>p. log_payload es = Inr p"
proof -
  obtain b where "write_vector_serializeable serialize es = Inr b"
    using log_codec.vector_ser_ok [OF assms] by blast
  moreover have "\<exists>a. write_string ''log'' = Inr a" by (simp add: write_string_Inr)
  ultimately show ?thesis by (auto simp: log_payload_def)
qed

section \<open>Properties\<close>

text \<open>
  C8. A batch taken while acknowledgements come in, whatever their ids and the order of the steps,
  may have gaps but cannot hurt the server: its entries are logs of the client in ascending order,
  and the server that receives it still holds the beginning of the client's history, at least as
  much as before, and acknowledges exactly what it holds.
\<close>

theorem racy_batch_safe:
  assumes "history hist" and "length hist + 2 ^ 32 < 2 ^ 64" and "lq_log_entries q = drop j hist"
    and "rc_batch (run_race n schedule (race_start q fs acks)) = Batch_return batch"
    and "server_holds info server_fs (take k hist)" and "k \<le> length hist"
    and "log_payload batch = Inr p"
  shows "sorted_wrt (<) (ids batch) \<and> set batch \<subseteq> set hist \<and>
    (\<exists>iss k' ack server_fs'.
       handler_response info (ci_client_ip info) (ci_client_port info) p = Inr (Some (''log'', iss)) \<and>
       handle_recv_log env info iss server_fs =
         (Inr (Some (NetworkSendEvent (ci_client_ip info) (ci_client_port info) ack)), server_fs') \<and>
       ack_payload (of_nat k') = Inr ack \<and> k \<le> k' \<and> k' \<le> length hist \<and>
       server_holds info server_fs' (take k' hist))"
proof -
  from race_ok_run [OF assms(1) race_ok_start [OF assms(3)], of n schedule fs acks] assms(4)
  have batch: "length batch \<le> unat n" "set batch \<subseteq> set hist" "sorted_wrt (<) (ids batch)"
    by (auto simp: race_ok_def)
  then have len: "length batch < 2 ^ 32" using unsigned_less [of n, where ?'a = nat] by simp
  have ok: "list_all sendable batch" "list_all storable batch"
    using assms(1) batch(2) by (auto simp: history_def list_all_iff)
  obtain iss iss' where iss: "read_string (stream_of p) = Inr (''log'', iss)"
    "read_vector_serializeable (in_count env) deserialize iss = Inr (batch, iss')"
    using read_log_payload [OF assms(7) ok(1) len] by blast
  from handle_recv_log_any [OF assms(5) iss(2) ok(2)] assms(2,6) len obtain new ack fs' where
    h: "handle_recv_log env info iss server_fs =
      (Inr (Some (NetworkSendEvent (ci_client_ip info) (ci_client_port info) ack)), fs')"
      "ack_payload (of_nat (length (take k hist @ new))) = Inr ack"
      "server_holds info fs' (take k hist @ new)" "set new \<subseteq> set batch"
    by auto
  have "set (take k hist @ new) \<subseteq> set hist" using h(4) batch(2) by (auto dest: in_set_takeD)
  moreover have "ids (take k hist @ new) = [1..<Suc (length (take k hist @ new))]"
    using h(3) by (simp add: server_holds_def)
  ultimately have new: "take k hist @ new = take (length (take k hist @ new)) hist"
    "length (take k hist @ new) \<le> length hist"
    using history_beginning [OF assms(1)] by blast+
  have "k \<le> length (take k hist @ new)" using assms(6) by simp
  moreover have "handler_response info (ci_client_ip info) (ci_client_port info) p = Inr (Some (''log'', iss))"
    using iss(1) by simp
  moreover have "server_holds info fs' (take (length (take k hist @ new)) hist)" using h(3) unfolding new(1) [symmetric] .
  ultimately show ?thesis using batch(2,3) h(1,2) new(2) by blast
qed

text \<open>A batch of two of three logs, the first of which is acknowledged while it is taken.\<close>

definition race_info :: ClientInfo where
  "race_info = ClientInfo_new 1 5 ''10.0.0.7'' 40000"

definition race_queue :: LogQueue where
  "race_queue = demo_queue\<lparr>lq_ack_id := 0, lq_log_entries := demo_hist\<rparr>"

definition race_schedule :: "client_thread list" where
  "race_schedule = [Main_thread, Main_thread, Receiver_thread, Main_thread, Receiver_thread,
     Receiver_thread, Main_thread, Main_thread]"

lemma race_runs:
  "rc_batch (run_race 2 race_schedule (race_start race_queue demo_fs [1])) =
     Batch_return [demo_hist ! 0, demo_hist ! 2]"
  by (simp add: race_schedule_def race_start_def ack_step_def Let_def race_queue_def demo_queue_def
      demo_hist_def LogEntry_new_def)

lemma racy_batch_safe_witness:
  "\<exists>p iss k' ack server_fs'.
     log_payload [demo_hist ! 0, demo_hist ! 2] = Inr p \<and>
     handle_recv_log (\<lparr>in_num = 0, in_entry = LogEntry_new 0 [] 0 CPU 0, in_count = 0, in_id = 0\<rparr>) race_info iss
       (empty_fsys\<lparr>files := [client_log_file race_info \<mapsto> concat (map serialize_str (take 1 demo_hist))]\<rparr>) =
       (Inr (Some (NetworkSendEvent ''10.0.0.7'' 40000 ack)), server_fs') \<and>
     1 \<le> k' \<and> server_holds race_info server_fs' (take k' demo_hist)"
proof -
  let ?env = "\<lparr>in_num = 0, in_entry = LogEntry_new 0 [] 0 CPU 0, in_count = 0, in_id = 0\<rparr>"
  let ?fs = "empty_fsys\<lparr>files := [client_log_file race_info \<mapsto> concat (map serialize_str (take 1 demo_hist))]\<rparr>"
  have h: "history demo_hist" using demo_queue_at by (simp add: queue_at_def)
  have "server_holds race_info ?fs (take 1 demo_hist)"
    using h by (simp add: server_holds_def holds_logs_def empty_fsys_def history_def demo_hist_def LogEntry_new_def upt_rec)
  moreover have "list_all sendable [demo_hist ! 0, demo_hist ! 2]"
    using h by (simp add: history_def demo_hist_def)
  then obtain p where p: "log_payload [demo_hist ! 0, demo_hist ! 2] = Inr p"
    using log_payload_Inr [of "[demo_hist ! 0, demo_hist ! 2]"] by auto
  moreover have "lq_log_entries race_queue = drop 0 demo_hist" by (simp add: race_queue_def)
  ultimately show ?thesis
    using racy_batch_safe [OF h _ _ race_runs, of 0 race_info ?fs 1 p ?env]
    by (auto simp: demo_hist_def race_info_def ClientInfo_new_def)
qed

text \<open>
  C9. The race can end the client. Once the batch has taken the size of a queue that is not empty,
  the acknowledgement of all its logs makes the next \<^verbatim>\<open>at\<close> throw \<^verbatim>\<open>std::out_of_range\<close>, which nothing in
  the main loop catches. There is no other way out: after \<open>n + 3\<close> of its steps a batch has thrown or
  is returned.
\<close>

theorem racy_batch_throws:
  assumes "lq_log_entries q \<noteq> []" and "length (lq_log_entries q) < 2 ^ 32" and "0 < n"
    and "\<forall>e \<in> set (lq_log_entries q). le_id e \<le> i" and "i \<noteq> lq_ack_id q"
  shows "(\<exists>schedule. rc_batch (run_race n schedule (race_start q fs [i])) = Batch_throw) \<and>
    (\<forall>schedule. unat n + 3 \<le> count_list schedule Main_thread \<longrightarrow>
       rc_batch (run_race n schedule (race_start q fs [i])) = Batch_throw \<or>
       (\<exists>batch. rc_batch (run_race n schedule (race_start q fs [i])) = Batch_return batch))"
proof
  let ?size = "min n (of_nat (length (lq_log_entries q))) :: u32"
  let ?r = "(race_start q fs [i])\<lparr>rc_batch := Batch_loop 0 ?size []\<rparr>"
  have "unat (of_nat (length (lq_log_entries q)) :: u32) = length (lq_log_entries q)"
    using assms(2) by (simp add: unsigned_of_nat take_bit_nat_eq_self)
  then have nonempty: "0 < ?size" using assms(1,3) by (simp add: word_less_nat_alt min_def)
  obtain k where k: "run_race n (replicate k Receiver_thread) ?r =
      ?r\<lparr>rc_acks := [], rc_queue := fst (ack_log i q fs), rc_fs := snd (ack_log i q fs)\<rparr>"
    using ack_alone [of ?r i "[]" n] by (auto simp: race_start_def)
  have "lq_log_entries (fst (ack_log i q fs)) = []"
    using assms(4,5) by (simp add: ack_log_def Let_def pop_acked_dropWhile)
  with k nonempty assms(1) have
    "rc_batch (run_race n (Main_thread # Main_thread # replicate k Receiver_thread @ [Main_thread])
       (race_start q fs [i])) = Batch_throw"
    by (simp add: race_start_def)
  then show "\<exists>schedule. rc_batch (run_race n schedule (race_start q fs [i])) = Batch_throw" by blast
next
  show "\<forall>schedule. unat n + 3 \<le> count_list schedule Main_thread \<longrightarrow>
       rc_batch (run_race n schedule (race_start q fs [i])) = Batch_throw \<or>
       (\<exists>batch. rc_batch (run_race n schedule (race_start q fs [i])) = Batch_return batch)"
  proof (intro allI impI)
    fix schedule
    assume "unat n + 3 \<le> count_list schedule Main_thread"
    then have "batch_steps_left n (rc_batch (run_race n schedule (race_start q fs [i]))) = 0"
      using run_race_left [of n schedule "race_start q fs [i]"] by (simp add: race_start_def batch_steps_left_def)
    then show "rc_batch (run_race n schedule (race_start q fs [i])) = Batch_throw \<or>
       (\<exists>batch. rc_batch (run_race n schedule (race_start q fs [i])) = Batch_return batch)"
      by (rule batch_ended)
  qed
qed

lemma racy_batch_throws_witness:
  "\<exists>schedule. rc_batch (run_race 100 schedule (race_start demo_queue demo_fs [3])) = Batch_throw"
  using racy_batch_throws [of demo_queue 100 3 demo_fs]
  by (simp add: demo_queue_def demo_hist_def LogEntry_new_def)

end
