(* ===== verification/Double.thy ===== *)
theory Double
  imports Config Complex_Main
begin

text \<open>
  The \<^verbatim>\<open>double\<close> arithmetic of \<^verbatim>\<open>ProcessTable::update_table\<close>: exact rationals, rounded after every
  operation to the 53 bits of IEEE binary64, to nearest with ties to even. The values there lie
  between \<open>2\<^sup>-\<^sup>1\<^sup>2\<^sup>8\<close> and \<open>2\<^sup>9\<^sup>0\<close>, so overflow, subnormal numbers and the special values do not occur
  (the divisors are never 0).
\<close>

text \<open>The number of binary digits, and the exponent of the leading bit of a positive rational.\<close>

function bit_count :: "int \<Rightarrow> nat" where
  "bit_count n = (if n \<le> 0 then 0 else Suc (bit_count (n div 2)))"
  by auto
termination by (relation "measure nat") auto

declare bit_count.simps [simp del]

definition leading :: "rat \<Rightarrow> int" where
  "leading x =
     (case quotient_of x of
        (p, q) \<Rightarrow> let e = int (bit_count p) - int (bit_count q)
                  in if 2 powi e \<le> x then e else e - 1)"

definition round_even :: "rat \<Rightarrow> int" where
  "round_even y =
     (let f = \<lfloor>y\<rfloor>; r = y - of_int f
      in if r < 1 / 2 then f else if 1 / 2 < r then f + 1 else if even f then f else f + 1)"

definition round_pos :: "rat \<Rightarrow> rat" where
  "round_pos x = (let s = 52 - leading x in of_int (round_even (x * 2 powi s)) / 2 powi s)"

definition round_double :: "rat \<Rightarrow> rat" where
  "round_double x = (if x = 0 then 0 else if x < 0 then - round_pos (- x) else round_pos x)"

definition double_of :: "u64 \<Rightarrow> rat" where
  "double_of w = round_double (of_int (uint w))"

text \<open>A conversion to \<^verbatim>\<open>std::uint32_t\<close> drops the fraction; a value out of range has no meaning.\<close>

definition u32_of_double :: "rat \<Rightarrow> u32 result" where
  "u32_of_double x =
     (if x \<le> - 1 \<or> 2 ^ 32 \<le> x then Inl (Undefined ''conversion of a double'')
      else Inr (if x < 0 then 0 else of_int \<lfloor>x\<rfloor>))"

section \<open>Bounds\<close>

lemma bit_count_bounds: "0 < n \<Longrightarrow> 2 ^ (bit_count n - 1) \<le> n \<and> n < 2 ^ bit_count n"
proof (induction n rule: bit_count.induct)
  case (1 n)
  show ?case
  proof (cases "n = 1")
    case True
    then show ?thesis by (simp add: bit_count.simps)
  next
    case False
    with 1 have n: "0 < n div 2" "0 < n" by simp_all
    with 1 have "2 ^ (bit_count (n div 2) - 1) \<le> n div 2" "n div 2 < 2 ^ bit_count (n div 2)" by simp_all
    moreover obtain k where "bit_count (n div 2) = Suc k" using n by (subst (asm) bit_count.simps) (auto simp: bit_count.simps [of "n div 2"])
    ultimately show ?thesis using n by (subst (1 2) bit_count.simps) auto
  qed
qed

lemma leading_le:
  assumes "0 < x"
  shows "2 powi leading x \<le> x"
proof -
  obtain p q where pq: "quotient_of x = (p, q)" by (cases "quotient_of x")
  then have q: "0 < q" and x: "x = of_int p / of_int q"
    by (simp_all add: quotient_of_denom_pos quotient_of_div)
  with assms have p: "0 < p" by (simp add: zero_less_divide_iff)
  define a b where "a = bit_count p" and "b = bit_count q"
  have a: "1 \<le> a" using p by (simp add: a_def bit_count.simps)
  have "2 ^ (a - 1) \<le> p" and "q < 2 ^ b"
    using bit_count_bounds [OF p] bit_count_bounds [OF q] by (simp_all add: a_def b_def)
  then have "(of_int (2 ^ (a - 1)) :: rat) \<le> of_int p" and "(of_int q :: rat) \<le> of_int (2 ^ b)"
    by (simp_all only: of_int_le_iff less_imp_le)
  then have "(2 ^ (a - 1) :: rat) / 2 ^ b \<le> of_int p / of_int q"
    using p q by (intro frac_le) simp_all
  moreover have "(2::rat) powi (int a - int b - 1) = 2 ^ (a - 1) / 2 ^ b"
  proof -
    obtain k where k: "a = Suc k" using a by (cases a) auto
    then have "int a - int b - 1 = int k - int b" by simp
    then show ?thesis using k by (simp add: power_int_diff)
  qed
  ultimately show ?thesis
    by (simp add: leading_def pq Let_def x [symmetric] a_def [symmetric] b_def [symmetric])
qed

lemma round_even_le: "y \<le> of_int n \<Longrightarrow> round_even y \<le> n"
proof -
  assume y: "y \<le> of_int n"
  then have f: "\<lfloor>y\<rfloor> \<le> n" by (simp add: floor_le_iff)
  show ?thesis
  proof (cases "\<lfloor>y\<rfloor> = n")
    case True
    then have "y = of_int n" using y by (metis floor_correct order_antisym)
    then show ?thesis by (simp add: round_even_def)
  next
    case False
    with f show ?thesis by (simp add: round_even_def Let_def)
  qed
qed

lemma round_even_nonneg: "0 \<le> y \<Longrightarrow> 0 \<le> round_even y"
  by (simp add: round_even_def Let_def)

lemma round_even_int [simp]: "round_even (of_int n) = n"
  by (simp add: round_even_def)

lemma shift_nonneg:
  assumes "0 < x" and "x < 2 ^ 53"
  shows "0 \<le> 52 - leading x"
proof -
  have "(2::rat) powi leading x < 2 powi 53"
    using leading_le [OF assms(1)] assms(2) by (simp add: power_int_def)
  then have "leading x < 53" by (rule power_int_le_imp_less_exp [rotated]) simp_all
  then show ?thesis by simp
qed

lemma round_double_bounds:
  assumes "0 \<le> x" and "x \<le> of_nat n" and "n < 2 ^ 53"
  shows "0 \<le> round_double x" and "round_double x \<le> of_nat n"
proof -
  have "0 \<le> round_double x \<and> round_double x \<le> of_nat n"
  proof (cases "x = 0")
    case True
    then show ?thesis by (simp add: round_double_def)
  next
    case False
    with assms(1) have pos: "0 < x" by simp
    have "(of_nat n :: rat) < of_nat (2 ^ 53)" using assms(3) by (simp only: of_nat_less_iff)
    then have "x < 2 ^ 53" using assms(2) by simp
    from nonneg_int_cases [OF shift_nonneg [OF pos this]]
    obtain s where s: "52 - leading x = int s" by auto
    have "x * 2 ^ s \<le> of_int (int n * 2 ^ s)" using assms(2) by simp
    then have "round_even (x * 2 ^ s) \<le> int n * 2 ^ s" by (rule round_even_le)
    then have "(of_int (round_even (x * 2 ^ s)) :: rat) \<le> of_int (int n * 2 ^ s)"
      by (simp only: of_int_le_iff)
    moreover have "0 \<le> round_even (x * 2 ^ s)" using assms(1) by (intro round_even_nonneg) simp
    ultimately show ?thesis
      using pos s by (simp add: round_double_def round_pos_def Let_def power_int_def divide_le_eq)
  qed
  then show "0 \<le> round_double x" and "round_double x \<le> of_nat n" by simp_all
qed

lemma round_double_nat:
  assumes "n < 2 ^ 53"
  shows "round_double (of_nat n) = of_nat n"
proof (cases "n = 0")
  case True
  then show ?thesis by (simp add: round_double_def)
next
  case False
  then have pos: "(0::rat) < of_nat n" by simp
  have "(of_nat n :: rat) < of_nat (2 ^ 53)" using assms by (simp only: of_nat_less_iff)
  then have "(of_nat n :: rat) < 2 ^ 53" by simp
  from nonneg_int_cases [OF shift_nonneg [OF pos this]]
  obtain s where s: "52 - leading (of_nat n) = int s" by auto
  have "of_nat n * 2 ^ s = (of_int (int n * 2 ^ s) :: rat)" by simp
  then have "round_even (of_nat n * 2 ^ s) = int n * 2 ^ s" by (metis round_even_int)
  then show ?thesis
    using pos s by (simp add: round_double_def round_pos_def Let_def power_int_def)
qed

lemma double_of_exact: "unat w < 2 ^ 53 \<Longrightarrow> double_of w = of_nat (unat w)"
  using round_double_nat [of "unat w"] by (simp add: double_of_def)

text \<open>Rounding is monotone where it meets a whole number, so products of rounded values keep whole bounds.\<close>

lemma round_double_mult_bounds:
  assumes "0 \<le> x" and "x \<le> of_nat m" and "0 \<le> y" and "y \<le> of_nat n" and "m * n < 2 ^ 53"
  shows "0 \<le> round_double (x * y)" and "round_double (x * y) \<le> of_nat (m * n)"
proof -
  have "x * y \<le> of_nat m * of_nat n" using assms by (intro mult_mono) auto
  then have xy: "x * y \<le> of_nat (m * n)" by simp
  show "0 \<le> round_double (x * y)" and "round_double (x * y) \<le> of_nat (m * n)"
    using round_double_bounds [OF _ xy assms(5)] assms(1,3) by simp_all
qed

section \<open>The share of the processor\<close>

text \<open>
  The two expressions of \<^verbatim>\<open>update_table\<close>: the process' part of the time that passed in percent, and
  that times the part of the time that was not idle, in units of a thousandth.
\<close>

definition total_cpu_percent :: "u64 \<Rightarrow> u64 \<Rightarrow> rat" where
  "total_cpu_percent current_cpu_delta usage =
     round_double (round_double (double_of current_cpu_delta / double_of usage) * 100)"

definition current_cpu_percent :: "u64 \<Rightarrow> u64 \<Rightarrow> u64 \<Rightarrow> u32 result" where
  "current_cpu_percent current_cpu_delta usage idle =
     u32_of_double
       (round_double
         (round_double
            (total_cpu_percent current_cpu_delta usage *
             round_double (1 - round_double (double_of idle / double_of usage))) *
          double_of (ucast CPU_UNIT)))"

lemma ratio_bounds:
  assumes "a \<le> b" and "unat b < 2 ^ 53" and "0 < b"
  shows "0 \<le> round_double (double_of a / double_of b)"
    and "round_double (double_of a / double_of b) \<le> of_nat 1"
proof -
  have n: "unat a \<le> unat b" using assms(1) by (simp add: word_le_nat_alt)
  then have d: "double_of a = of_nat (unat a)" "double_of b = of_nat (unat b)"
    using assms(2) double_of_exact [of a] double_of_exact [of b] by simp_all
  have b: "0 < unat b" using assms(3) by (simp add: word_less_nat_alt)
  have "(of_nat (unat a) :: rat) \<le> of_nat (unat b)" using n by (simp only: of_nat_le_iff)
  moreover have "(0::rat) < of_nat (unat b)" using b by (simp only: of_nat_0_less_iff)
  ultimately have "double_of a / double_of b \<le> of_nat 1" unfolding d by simp
  moreover have "0 \<le> double_of a / double_of b"
    unfolding d by (intro divide_nonneg_nonneg of_nat_0_le_iff)
  ultimately show "0 \<le> round_double (double_of a / double_of b)"
    and "round_double (double_of a / double_of b) \<le> of_nat 1"
    using round_double_bounds [of "double_of a / double_of b" 1] by simp_all
qed

lemma current_cpu_percent_bound:
  assumes "current \<le> usage" and "idle \<le> usage" and "unat usage < 2 ^ 53" and "0 < usage"
  shows "\<exists>p. current_cpu_percent current usage idle = Inr p \<and> unat p \<le> 100000"
proof -
  define r where "r = round_double (double_of idle / double_of usage)"
  define t where "t = total_cpu_percent current usage"
  define f where "f = round_double (1 - r)"
  define x where "x = round_double (round_double (t * f) * double_of (ucast CPU_UNIT))"
  have r: "0 \<le> r" "r \<le> of_nat 1" unfolding r_def by (rule ratio_bounds [OF assms(2-4)])+
  have t: "0 \<le> t" "t \<le> of_nat 100"
    using round_double_mult_bounds [OF ratio_bounds [OF assms(1,3,4)], of 100 100]
    by (simp_all add: t_def total_cpu_percent_def)
  have f: "0 \<le> f" "f \<le> of_nat 1"
    using round_double_bounds [of "1 - r" 1] r by (simp_all add: f_def)
  have tf: "0 \<le> round_double (t * f)" "round_double (t * f) \<le> of_nat 100"
    using round_double_mult_bounds [OF t f] by simp_all
  have x: "0 \<le> x" "x \<le> of_nat 100000"
    using round_double_mult_bounds [OF tf, of "of_nat 1000" 1000] double_of_exact [of "1000"]
    by (simp_all add: x_def unit_values)
  have "u32_of_double x = Inr (of_int \<lfloor>x\<rfloor>)" using x by (simp add: u32_of_double_def)
  moreover have "unat (of_int \<lfloor>x\<rfloor> :: u32) \<le> 100000"
  proof -
    have fl: "0 \<le> \<lfloor>x\<rfloor>" "\<lfloor>x\<rfloor> \<le> 100000" using x by (simp_all add: floor_le_iff)
    then obtain k where k: "\<lfloor>x\<rfloor> = int k" and "k \<le> 100000" by (metis nonneg_int_cases of_nat_le_iff of_nat_numeral)
    then show ?thesis by (simp add: unsigned_of_nat take_bit_nat_eq_self)
  qed
  ultimately show ?thesis
    by (simp add: current_cpu_percent_def t_def f_def r_def x_def)
qed

section \<open>Coarse bounds without a limit\<close>

lemma leading_less:
  assumes "0 < x"
  shows "x < 2 powi (leading x + 1)"
proof -
  obtain p q where pq: "quotient_of x = (p, q)" by (cases "quotient_of x")
  then have q: "0 < q" and x: "x = of_int p / of_int q"
    by (simp_all add: quotient_of_denom_pos quotient_of_div)
  with assms have p: "0 < p" by (simp add: zero_less_divide_iff)
  define e where "e = int (bit_count p) - int (bit_count q)"
  obtain k where k: "bit_count q = Suc k" using q by (simp add: bit_count.simps)
  have "p < 2 ^ bit_count p" and "2 ^ k \<le> q"
    using bit_count_bounds [OF p] bit_count_bounds [OF q] k by simp_all
  then have "(of_int p :: rat) < of_int (2 ^ bit_count p)" and "(of_int (2 ^ k) :: rat) \<le> of_int q"
    by (simp_all only: of_int_le_iff of_int_less_iff)
  then have "of_int p / of_int q < (2 ^ bit_count p :: rat) / 2 ^ k"
    using p q by (intro frac_less) simp_all
  moreover have "(2::rat) powi (e + 1) = 2 ^ bit_count p / 2 ^ k"
  proof -
    have "e + 1 = int (bit_count p) - int k" using k by (simp add: e_def)
    then show ?thesis by (simp add: power_int_diff)
  qed
  ultimately have "x < 2 powi (e + 1)" using x by simp
  then show ?thesis
    by (simp add: leading_def pq Let_def e_def [symmetric])
qed

lemma round_even_ge: "of_int n \<le> y \<Longrightarrow> n \<le> round_even y"
proof -
  assume "of_int n \<le> y"
  then have "n \<le> \<lfloor>y\<rfloor>" by (simp add: le_floor_iff)
  then show ?thesis by (simp add: round_even_def Let_def)
qed

lemma round_even_le_add: "of_int (round_even y) \<le> y + 1 / 2"
proof -
  have "of_int \<lfloor>y\<rfloor> \<le> y" by simp
  moreover have "1 / 2 \<le> y - of_int \<lfloor>y\<rfloor> \<Longrightarrow> of_int (\<lfloor>y\<rfloor> + 1) \<le> y + 1 / 2" by simp
  ultimately show ?thesis unfolding round_even_def Let_def by (simp only: split: if_split) linarith
qed

text \<open>A rounded number is more than half and at most twice the exact one.\<close>

lemma round_double_coarse:
  assumes "0 < x"
  shows "x / 2 < round_double x" and "round_double x \<le> 2 * x"
proof -
  define s where "s = 52 - leading x"
  have pos: "(0::rat) < 2 powi s" by simp
  have pow: "2 powi leading x * 2 powi s = (2::rat) ^ 52"
    by (simp add: s_def flip: power_int_add)
  have "2 powi leading x * 2 powi s \<le> x * 2 powi s"
    using leading_le [OF assms] pos by (intro mult_right_mono) simp_all
  then have y: "of_int (2 ^ 52) \<le> x * 2 powi s" unfolding pow by simp
  then have "2 ^ 52 \<le> round_even (x * 2 powi s)" by (rule round_even_ge)
  then have "(of_int (2 ^ 52) :: rat) \<le> of_int (round_even (x * 2 powi s))" by (simp only: of_int_le_iff)
  then have "(2::rat) powi leading x * 2 powi s \<le> of_int (round_even (x * 2 powi s))" unfolding pow by simp
  then have "(2::rat) powi leading x \<le> of_int (round_even (x * 2 powi s)) / 2 powi s"
    using pos by (simp add: pos_le_divide_eq)
  moreover have "x < 2 * 2 powi leading x"
    using leading_less [OF assms] by (simp add: power_int_add)
  ultimately have "x / 2 < of_int (round_even (x * 2 powi s)) / 2 powi s" by linarith
  then show "x / 2 < round_double x"
    using assms by (simp add: round_double_def round_pos_def s_def [symmetric])
  have "of_int (round_even (x * 2 powi s)) \<le> x * 2 powi s + 1 / 2" by (rule round_even_le_add)
  also have "\<dots> \<le> 2 * x * 2 powi s" using y by simp
  finally show "round_double x \<le> 2 * x"
    using assms pos by (simp add: round_double_def round_pos_def s_def [symmetric] pos_divide_le_eq)
qed

lemma current_cpu_percent_huge:
  assumes cur: "2 ^ 63 \<le> unat current" and usage: "0 < usage" "unat usage \<le> 2 ^ 30"
    and idle: "0 < idle" "4 * unat idle \<le> unat usage"
  shows "current_cpu_percent current usage idle = Inl (Undefined ''conversion of a double'')"
proof -
  have u: "double_of usage = of_nat (unat usage)" by (rule double_of_exact) (use usage(2) in simp)
  have i: "double_of idle = of_nat (unat idle)" by (rule double_of_exact) (use usage(2) idle(2) in simp)
  define U :: rat where "U = of_nat (unat usage)"
  define I :: rat where "I = of_nat (unat idle)"
  define C :: rat where "C = of_int (uint current)"
  have "of_nat 1 \<le> U" unfolding U_def of_nat_le_iff using usage(1) by (simp add: word_less_nat_alt)
  then have U1: "1 \<le> U" by simp
  have "U \<le> of_nat (2 ^ 30)" unfolding U_def of_nat_le_iff by (rule usage(2))
  then have U30: "U \<le> 2 ^ 30" by simp
  have "of_nat 1 \<le> I" unfolding I_def of_nat_le_iff using idle(1) by (simp add: word_less_nat_alt)
  then have I1: "1 \<le> I" by simp
  have "of_nat (4 * unat idle) \<le> U" unfolding U_def of_nat_le_iff by (rule idle(2))
  then have IU: "4 * I \<le> U" by (simp add: I_def)
  have "of_nat (2 ^ 63) \<le> (of_nat (unat current) :: rat)" unfolding of_nat_le_iff by (rule cur)
  then have C: "2 ^ 63 \<le> C" by (simp add: C_def)
  have ui: "double_of usage = U" "double_of idle = I" "double_of (ucast CPU_UNIT) = 1000"
    using double_of_exact [of "1000"] by (simp_all add: u i U_def I_def unit_values)
  have cC: "double_of current = round_double C" by (simp only: double_of_def C_def)
  define c where "c = double_of current"
  have c: "2 ^ 62 \<le> c" using round_double_coarse(1) [of C] C by (simp add: c_def cC)
  define a where "a = round_double (c / U)"
  have "2 ^ 32 * U \<le> c" using c U30 by simp
  then have cU: "2 ^ 32 \<le> c / U" using U1 by (simp add: pos_le_divide_eq)
  then have a: "2 ^ 31 \<le> a" using round_double_coarse(1) [of "c / U"] by (simp add: a_def)
  define t where "t = round_double (a * 100)"
  have t: "2 ^ 36 \<le> t" using round_double_coarse(1) [of "a * 100"] a by (simp add: t_def)
  define r where "r = round_double (I / U)"
  have "I / U \<le> 1 / 4" "0 < I / U" using IU U1 I1 by (simp_all add: divide_le_eq)
  then have r: "r \<le> 1 / 2" using round_double_coarse(2) [of "I / U"] unfolding r_def by linarith
  define f where "f = round_double (1 - r)"
  have f: "1 / 4 \<le> f" using round_double_coarse(1) [of "1 - r"] r by (simp add: f_def)
  have "2 ^ 36 * (1 / 4) \<le> t * f" using t f by (intro mult_mono) simp_all
  then have tf: "2 ^ 33 \<le> round_double (t * f)" using round_double_coarse(1) [of "t * f"] by simp
  then have "2 ^ 32 \<le> round_double (round_double (t * f) * 1000)"
    using round_double_coarse(1) [of "round_double (t * f) * 1000"] by simp
  then show ?thesis
    by (simp add: current_cpu_percent_def total_cpu_percent_def ui u32_of_double_def
        c_def [symmetric] a_def [symmetric] t_def [symmetric] r_def [symmetric] f_def [symmetric])
qed

section \<open>Properties\<close>



text \<open>
  When a counter is smaller than last time, which happens when a new process has the number of
  one that died between two rounds, the unsigned difference wraps to a huge value; with at least
  three quarters of the time not counted as idle, the conversion of the result to 32 bits is undefined.
\<close>

lemma cpu_percent_pid_reuse:
  assumes "new < old" and "unat old - unat new \<le> 2 ^ 63" and "0 < usage" and "unat usage \<le> 2 ^ 30"
    and "0 < idle" and "4 * unat idle \<le> unat usage"
  shows "current_cpu_percent (new - old) usage idle = Inl (Undefined ''conversion of a double'')"
proof -
  have lt: "unat new < unat old" using assms(1) by (simp add: word_less_nat_alt)
  then have "unat (new - old) = 2 ^ 64 + unat new - unat old"
    using unat_sub_if' [of new old] by simp
  then have "2 ^ 63 \<le> unat (new - old)" using assms(2) lt by simp
  then show ?thesis using assms(3-6) by (rule current_cpu_percent_huge)
qed

lemma cpu_percent_pid_reuse_witness:
  "current_cpu_percent (100 - 500) 1000 200 = Inl (Undefined ''conversion of a double'')"
  by (rule cpu_percent_pid_reuse) simp_all

end
