(* ===== verification/Progress.thy ===== *)
theory Progress
  imports Double Util
begin

text \<open>
  The rest of \<^verbatim>\<open>src/common/util.cpp\<close>: the progress bar, which computes in \<^verbatim>\<open>double\<close>, and the clock.
  What the clocks say is an argument.
\<close>

section \<open>The clock\<close>

text \<open>
  \<^verbatim>\<open>duration_cast\<close> to milliseconds drops the fraction, towards zero; \<open>per_ms\<close> is the number of ticks
  of the system clock in a millisecond.
\<close>

definition get_timestamp_ms :: "int \<Rightarrow> int \<Rightarrow> u64" where
  "get_timestamp_ms per_ms ticks = of_int (sgn ticks * (\<bar>ticks\<bar> div per_ms))"

section \<open>The progress bar\<close>

definition BAR_WIDTH :: nat where "BAR_WIDTH = 50"

text \<open>
  A quotient of a number by 0 is an infinity or not a number. The conversion to \<^verbatim>\<open>int\<close> drops the
  fraction and has no meaning out of the range of \<^verbatim>\<open>int\<close>, infinities included.
\<close>

definition int_of_double :: "rat \<Rightarrow> int result" where
  "int_of_double x =
     (if x \<le> - (2 ^ 31) - 1 \<or> 2 ^ 31 \<le> x then Inl (Undefined ''conversion of a double'')
      else Inr (if x < 0 then - \<lfloor>- x\<rfloor> else \<lfloor>x\<rfloor>))"

definition progress_of :: "u64 \<Rightarrow> u64 \<Rightarrow> rat result" where
  "progress_of total_received file_size =
     (if file_size = 0 then Inl (Undefined ''conversion of an infinity or not a number'')
      else Inr (round_double (double_of total_received / double_of file_size)))"

fun bar_cells :: "int \<Rightarrow> nat \<Rightarrow> nat \<Rightarrow> string" where
  "bar_cells pos i 0 = []"
| "bar_cells pos i (Suc n) =
     (if int i < pos then CHR ''='' else if int i = pos then CHR ''>'' else CHR '' '') # bar_cells pos (Suc i) n"

text \<open>\<^verbatim>\<open>std::fixed\<close> with one decimal, of a number that is not negative.\<close>

definition show_fixed :: "rat \<Rightarrow> string" where
  "show_fixed x =
     (let n = nat (round_even (x * 10))
      in show_nat (n div 10) @ ''.'' @ show_nat (n mod 10))"

text \<open>
  The speed divides by the seconds since the start, a \<^verbatim>\<open>double\<close> that is not negative; at the start it
  is infinite, or not a number if nothing was received either (\<open>nan\<close> is how the library prints that).
\<close>

definition show_speed :: "string \<Rightarrow> u64 \<Rightarrow> rat \<Rightarrow> string" where
  "show_speed nan total_received seconds =
     (let mb = round_double (round_double (double_of total_received / 1024) / 1024)
      in if seconds = 0 then (if mb = 0 then nan else ''inf'')
         else show_fixed (round_double (mb / seconds)))"

definition print_progress :: "string \<Rightarrow> u64 \<Rightarrow> u64 \<Rightarrow> rat \<Rightarrow> string result" where
  "print_progress nan total_received file_size seconds =
     bindR (progress_of total_received file_size) (\<lambda>progress.
       bindR (int_of_double (round_double (of_nat BAR_WIDTH * progress))) (\<lambda>pos.
         Inr ([CHR 0x0D, CHR ''[''] @ bar_cells pos 0 BAR_WIDTH @ ''] '' @
              show_fixed (round_double (progress * 100)) @ ''% ('' @
              show_nat (unat (total_received div 1024 div 1024)) @ '' MB / '' @
              show_nat (unat (file_size div 1024 div 1024)) @ '' MB) '' @
              show_speed nan total_received seconds @ '' MB/s   '')))"

section \<open>The bar\<close>

lemma bar_cells_shape:
  "0 \<le> pos \<Longrightarrow> bar_cells pos i n =
     replicate (min n (nat pos - i)) (CHR ''='') @
     (if int i \<le> pos \<and> pos < int (i + n) then [CHR ''>''] else []) @
     replicate (n - (Suc (nat pos) - i)) (CHR '' '')"
proof (induction n arbitrary: i)
  case 0
  then show ?case by simp
next
  case (Suc n)
  note IH = Suc.IH [of "Suc i", OF Suc.prems]
  consider "int i < pos" | "int i = pos" | "pos < int i" by linarith
  then show ?case
  proof cases
    case 1
    then have "nat pos - i = Suc (nat pos - Suc i)" "Suc n - (Suc (nat pos) - i) = n - (Suc (nat pos) - Suc i)"
      by linarith+
    with 1 IH show ?thesis by simp
  next
    case 2
    with IH show ?thesis by auto
  next
    case 3
    then have "nat pos - i = 0" "Suc (nat pos) - i = 0" "nat pos - Suc i = 0" "Suc (nat pos) - Suc i = 0"
      using Suc.prems by linarith+
    with 3 IH show ?thesis by simp
  qed
qed

lemma progress_pos:
  assumes "0 \<le> p" and "p \<le> of_nat 1"
  shows "\<exists>n \<le> BAR_WIDTH. int_of_double (round_double (of_nat BAR_WIDTH * p)) = Inr (int n) \<and>
    (p = 0 \<longrightarrow> n = 0) \<and> (p = 1 \<longrightarrow> n = BAR_WIDTH)"
proof -
  let ?x = "round_double (of_nat BAR_WIDTH * p)"
  have x: "0 \<le> ?x" "?x \<le> of_nat (BAR_WIDTH * 1)"
    using round_double_mult_bounds [of "of_nat BAR_WIDTH" BAR_WIDTH p 1] assms by (simp_all add: BAR_WIDTH_def)
  then have x50: "?x \<le> 50" by (simp add: BAR_WIDTH_def)
  let ?n = "nat \<lfloor>?x\<rfloor>"
  have "\<lfloor>?x\<rfloor> \<le> \<lfloor>50 :: rat\<rfloor>" using x50 by (rule floor_mono)
  then have "\<lfloor>?x\<rfloor> \<le> 50" by (simp only: floor_numeral)
  then have "?n \<le> BAR_WIDTH" unfolding BAR_WIDTH_def by linarith
  moreover have "int_of_double ?x = Inr (int ?n)" using x(1) x50 by (simp add: int_of_double_def)
  moreover have "?n = 0" if "p = 0" using that by (simp add: round_double_def)
  moreover have "?n = BAR_WIDTH" if "p = 1"
    using that round_double_nat [of BAR_WIDTH] by (simp add: BAR_WIDTH_def)
  ultimately show ?thesis by blast
qed

section \<open>Properties\<close>

text \<open>
  Up to the file size the bar has exactly fifty cells: marks for what is done, the tip, blanks; it is
  empty at the start and full at the end. For an empty file the conversion of the quotient to \<^verbatim>\<open>int\<close>
  has no meaning.
\<close>

lemma progress_bar_shape:
  assumes "got \<le> file_size" and "unat file_size < 2 ^ 53"
  shows "if file_size = 0 then \<exists>e. print_progress nan got file_size seconds = Inl (Undefined e)
    else \<exists>n rest. print_progress nan got file_size seconds =
        Inr ([CHR 0x0D, CHR ''[''] @ replicate n (CHR ''='') @ (if n < 50 then [CHR ''>''] else []) @
             replicate (49 - n) (CHR '' '') @ '']'' @ rest) \<and>
      n \<le> 50 \<and> (got = 0 \<longrightarrow> n = 0) \<and> (got = file_size \<longrightarrow> n = 50)"
proof (cases "file_size = 0")
  case True
  then show ?thesis by (simp add: print_progress_def progress_of_def)
next
  case False
  then have pos: "0 < file_size" by (simp add: word_neq_0_conv)
  let ?p = "round_double (double_of got / double_of file_size)"
  note p = ratio_bounds [OF assms pos]
  obtain n where n: "n \<le> BAR_WIDTH" "int_of_double (round_double (of_nat BAR_WIDTH * ?p)) = Inr (int n)"
    "?p = 0 \<longrightarrow> n = 0" "?p = 1 \<longrightarrow> n = BAR_WIDTH"
    using progress_pos [OF p] by blast
  have d: "double_of file_size = of_nat (unat file_size)" using double_of_exact assms(2) by blast
  have "?p = 1" if "got = file_size"
  proof -
    have "(0::rat) < of_nat (unat file_size)" using pos by (simp only: of_nat_0_less_iff word_less_nat_alt unat_0)
    then have "double_of file_size \<noteq> 0" using d by simp
    then show ?thesis using that round_double_nat [of 1] by simp
  qed
  moreover have "?p = 0" if "got = 0" using that by (simp add: double_of_def round_double_def)
  ultimately have "(got = 0 \<longrightarrow> n = 0) \<and> (got = file_size \<longrightarrow> n = 50)" using n(3,4) by (simp add: BAR_WIDTH_def)
  moreover have bar: "bar_cells (int n) 0 BAR_WIDTH = replicate n (CHR ''='') @ (if n < 50 then [CHR ''>''] else []) @
      replicate (49 - n) (CHR '' '')"
    using bar_cells_shape [of "int n" 0 BAR_WIDTH] n(1) by (simp add: BAR_WIDTH_def min_def)
  obtain rest where "print_progress nan got file_size seconds =
      Inr ([CHR 0x0D, CHR ''[''] @ bar_cells (int n) 0 BAR_WIDTH @ '']'' @ rest)"
    using False n(2) by (auto simp: print_progress_def progress_of_def)
  then have "print_progress nan got file_size seconds =
      Inr ([CHR 0x0D, CHR ''[''] @ replicate n (CHR ''='') @ (if n < 50 then [CHR ''>''] else []) @
           replicate (49 - n) (CHR '' '') @ '']'' @ rest)"
    unfolding bar by (simp only: append.assoc)
  moreover have "n \<le> 50" using n(1) by (simp add: BAR_WIDTH_def)
  ultimately show ?thesis unfolding if_not_P [OF False] by blast
qed

lemma progress_bar_shape_witness:
  "\<exists>rest. print_progress ''nan'' 7 7 2 = Inr ([CHR 0x0D, CHR ''[''] @ replicate 50 (CHR ''='') @ '']'' @ rest)"
  using progress_bar_shape [of 7 7 "''nan''" 2] by fastforce

end
