(* ===== verification/Network_Processing.thy ===== *)
theory Network_Processing
  imports Process_Stat
begin

text \<open>
  \<^verbatim>\<open>src/client/network_processing.hpp/.cpp\<close>: how many bytes each process sent and received. The
  packets that \<^verbatim>\<open>pcap_next\<close> hands out until it has no more are an argument, and so are the calls that open the
  capture.
\<close>

section \<open>Packets (Linux)\<close>

text \<open>
  The capture's handle, \<open>None\<close> for a null one. A null handle is reported and used all the same, and
  \<^verbatim>\<open>pcap_setnonblock\<close> has no meaning for it. Its own failure is only reported: the flag says whether the
  capture does not block.
\<close>

record 'h pcap_api =
  pcap_open_live :: "string \<Rightarrow> nat \<Rightarrow> nat \<Rightarrow> nat \<Rightarrow> 'h option"
  pcap_setnonblock :: "'h \<Rightarrow> nat \<Rightarrow> int"

definition PCAP_ERRBUF_SIZE :: nat where "PCAP_ERRBUF_SIZE = 256"

definition PcapHandler_new :: "'h option" where
  "PcapHandler_new = None"

definition PcapHandler_destroy :: "('h \<Rightarrow> 'k \<Rightarrow> 'k) \<Rightarrow> 'h option \<Rightarrow> 'k \<Rightarrow> 'k" where
  "PcapHandler_destroy pcap_close handle k = (case handle of None \<Rightarrow> k | Some h \<Rightarrow> pcap_close h k)"

definition setup_network :: "'h pcap_api \<Rightarrow> 'h option \<Rightarrow> ('h \<times> bool) result" where
  "setup_network api handle =
     (case pcap_open_live api ''ens33'' PCAP_ERRBUF_SIZE 1 1000 of
        None \<Rightarrow> Inl (Undefined ''pcap_setnonblock on a null handle'')
      | Some h \<Rightarrow> Inr (h, 0 \<le> pcap_setnonblock api h 1))"

text \<open>The captured bytes, which may be fewer than the length on the wire, and that length.\<close>

record packet =
  pk_data :: string
  pk_len :: u32

text \<open>The headers are read by casts: a read behind the captured bytes has no meaning.\<close>

definition bytes_at :: "string \<Rightarrow> nat \<Rightarrow> nat \<Rightarrow> string result" where
  "bytes_at data pos n =
     (if pos + n \<le> length data then Inr (take n (drop pos data)) else Inl (Undefined ''packet bounds''))"

text \<open>A port as \<^verbatim>\<open>ntohs\<close> gives it, an address as it lies in memory.\<close>

definition port_at :: "string \<Rightarrow> nat \<Rightarrow> u16 result" where
  "port_at data pos = bindR (bytes_at data pos 2) (\<lambda>b. Inr (load_bytes (rev b)))"

definition address_at :: "string \<Rightarrow> nat \<Rightarrow> u32 result" where
  "address_at data pos = bindR (bytes_at data pos 4) (\<lambda>b. Inr (load_bytes b))"

definition IPPROTO_TCP :: nat where "IPPROTO_TCP = 6"

definition network_stat_of :: "(u32 \<rightharpoonup> NetworkStat) \<Rightarrow> u32 \<Rightarrow> NetworkStat" where
  "network_stat_of m pid = (case m pid of None \<Rightarrow> NetworkStat_default | Some s \<Rightarrow> s)"

definition add_send :: "u32 \<Rightarrow> u32 \<Rightarrow> (u32 \<rightharpoonup> NetworkStat) \<Rightarrow> (u32 \<rightharpoonup> NetworkStat)" where
  "add_send pid len m =
     (let network_usage = network_stat_of m pid
      in m(pid \<mapsto> network_usage\<lparr>network_send :=
           Some (value_or (network_send network_usage) 0 + ucast len)\<rparr>))"

definition add_recv :: "u32 \<Rightarrow> u32 \<Rightarrow> (u32 \<rightharpoonup> NetworkStat) \<Rightarrow> (u32 \<rightharpoonup> NetworkStat)" where
  "add_recv pid len m =
     (let network_usage = network_stat_of m pid
      in m(pid \<mapsto> network_usage\<lparr>network_recv :=
           Some (value_or (network_recv network_usage) 0 + ucast len)\<rparr>))"

fun process_packets_loop ::
  "u32 \<Rightarrow> (u16 \<rightharpoonup> u32) \<Rightarrow> packet list \<Rightarrow> (u32 \<rightharpoonup> NetworkStat) \<Rightarrow> (u32 \<rightharpoonup> NetworkStat) result" where
  "process_packets_loop local_ip port_to_pid_map [] m = Inr m"
| "process_packets_loop local_ip port_to_pid_map (p # ps) m =
     bindR (bytes_at (pk_data p) 23 1) (\<lambda>ip_p.
       if ip_p \<noteq> [char_of IPPROTO_TCP] then process_packets_loop local_ip port_to_pid_map ps m
       else
         bindR (bytes_at (pk_data p) 14 1) (\<lambda>ip_hl.
           let tcp_hdr = 14 + of_char (hd ip_hl) mod 16 * 4
           in bindR (port_at (pk_data p) tcp_hdr) (\<lambda>src_port.
              bindR (port_at (pk_data p) (tcp_hdr + 2)) (\<lambda>dst_port.
              bindR (address_at (pk_data p) 26) (\<lambda>ip_src.
                if ip_src = local_ip then
                  (case port_to_pid_map src_port of
                     None \<Rightarrow> process_packets_loop local_ip port_to_pid_map ps m
                   | Some pid \<Rightarrow>
                       process_packets_loop local_ip port_to_pid_map ps (add_send pid (pk_len p) m))
                else
                  (case port_to_pid_map dst_port of
                     None \<Rightarrow> process_packets_loop local_ip port_to_pid_map ps m
                   | Some pid \<Rightarrow>
                       process_packets_loop local_ip port_to_pid_map ps (add_recv pid (pk_len p) m)))))))"

definition process_packets ::
  "u32 \<Rightarrow> (u16 \<rightharpoonup> u32) \<Rightarrow> packet list \<Rightarrow> (u32 \<rightharpoonup> NetworkStat) result" where
  "process_packets local_ip port_to_pid_map ps = process_packets_loop local_ip port_to_pid_map ps Map.empty"

section \<open>Which process a packet counts for\<close>

text \<open>
  The account of one packet: nothing for a packet that is no TCP or belongs to no known port, else
  the process, whether it sent the packet, and the length.
\<close>

definition account :: "u32 \<Rightarrow> (u16 \<rightharpoonup> u32) \<Rightarrow> packet \<Rightarrow> (u32 \<times> bool \<times> u32) option result" where
  "account local_ip ports p =
     (if length (pk_data p) < 24 then Inl (Undefined ''packet bounds'')
      else if pk_data p ! 23 \<noteq> char_of (6::nat) then Inr None
      else let tcp = 14 + of_char (pk_data p ! 14) mod 16 * 4
           in if length (pk_data p) < 30 \<or> length (pk_data p) < tcp + 4 then Inl (Undefined ''packet bounds'')
              else let out = (load_bytes (take 4 (drop 26 (pk_data p))) = local_ip);
                       port = load_bytes (rev (take 2 (drop (if out then tcp else tcp + 2) (pk_data p))))
                   in Inr (map_option (\<lambda>pid. (pid, out, pk_len p)) (ports port)))"

definition charge :: "(u32 \<times> bool \<times> u32) option \<Rightarrow> (u32 \<rightharpoonup> NetworkStat) \<Rightarrow> (u32 \<rightharpoonup> NetworkStat)" where
  "charge a m = (case a of None \<Rightarrow> m | Some (pid, out, len) \<Rightarrow> (if out then add_send pid len m else add_recv pid len m))"

lemma bytes_at_Inr: "bytes_at d p n = Inr b \<longleftrightarrow> p + n \<le> length d \<and> b = take n (drop p d)"
  by (auto simp: bytes_at_def)

lemma take_1_drop: "i < length d \<Longrightarrow> take 1 (drop i d) = [d ! i]"
  by (metis Cons_nth_drop_Suc One_nat_def take0 take_Suc_Cons)

lemma process_packets_account:
  "process_packets_loop local_ip ports (p # ps) m =
     bindR (account local_ip ports p) (\<lambda>a. process_packets_loop local_ip ports ps (charge a m))"
proof -
  let ?d = "pk_data p"
  let ?tcp = "14 + of_char (?d ! 14) mod 16 * 4 :: nat"
  consider "length ?d < 24" | "24 \<le> length ?d" "?d ! 23 \<noteq> char_of (6::nat)"
    | "24 \<le> length ?d" "?d ! 23 = char_of (6::nat)" "length ?d < 30 \<or> length ?d < ?tcp + 4"
    | "30 \<le> length ?d" "?tcp + 4 \<le> length ?d" "?d ! 23 = char_of (6::nat)" by linarith
  then show ?thesis
  proof cases
    case 1
    then show ?thesis by (simp add: account_def bytes_at_def)
  next
    case 2
    then show ?thesis
      using take_1_drop [of 23 ?d] by (simp add: account_def bytes_at_def IPPROTO_TCP_def charge_def)
  next
    case 3
    then have t: "take (Suc 0) (drop 23 ?d) = [?d ! 23]" "take (Suc 0) (drop 14 ?d) = [?d ! 14]"
      using take_1_drop [of 23 ?d] take_1_drop [of 14 ?d] by simp_all
    from 3 show ?thesis
      by (auto simp: account_def bytes_at_def IPPROTO_TCP_def t port_at_def address_at_def Let_def)
  next
    case 4
    then have t: "take (Suc 0) (drop 23 ?d) = [?d ! 23]" "take (Suc 0) (drop 14 ?d) = [?d ! 14]"
      using take_1_drop [of 23 ?d] take_1_drop [of 14 ?d] by simp_all
    from 4 show ?thesis
      by (simp add: account_def bytes_at_def IPPROTO_TCP_def t port_at_def address_at_def Let_def
          charge_def not_less split: option.split)
  qed
qed

text \<open>What is charged to a process is the sum of its packets, in both directions.\<close>

fun accounts :: "u32 \<Rightarrow> (u16 \<rightharpoonup> u32) \<Rightarrow> packet list \<Rightarrow> (u32 \<times> bool \<times> u32) list result" where
  "accounts local_ip ports [] = Inr []"
| "accounts local_ip ports (p # ps) =
     bindR (account local_ip ports p) (\<lambda>a. bindR (accounts local_ip ports ps) (\<lambda>as.
       Inr (case a of None \<Rightarrow> as | Some x \<Rightarrow> x # as)))"

definition charged :: "u32 \<Rightarrow> bool \<Rightarrow> (u32 \<times> bool \<times> u32) list \<Rightarrow> u64" where
  "charged pid out as = sum_list (map (\<lambda>(_, _, len). ucast len) (filter (\<lambda>(q, o', _). q = pid \<and> o' = out) as))"

definition sent :: "(u32 \<rightharpoonup> NetworkStat) \<Rightarrow> u32 \<Rightarrow> u64" where
  "sent m pid = value_or (network_send (network_stat_of m pid)) 0"

definition received :: "(u32 \<rightharpoonup> NetworkStat) \<Rightarrow> u32 \<Rightarrow> u64" where
  "received m pid = value_or (network_recv (network_stat_of m pid)) 0"

lemma sent_charge:
  "sent (add_send q len m) pid = sent m pid + (if q = pid then ucast len else 0)"
  "sent (add_recv q len m) pid = sent m pid"
  "received (add_recv q len m) pid = received m pid + (if q = pid then ucast len else 0)"
  "received (add_send q len m) pid = received m pid"
  by (simp_all add: sent_def received_def add_send_def add_recv_def network_stat_of_def Let_def)

lemma charged_Cons:
  "charged pid out ((q, o', len) # as) = (if q = pid \<and> o' = out then ucast len else 0) + charged pid out as"
  by (simp add: charged_def)

lemma process_packets_loop_charged:
  "accounts local_ip ports ps = Inr as \<Longrightarrow>
     \<exists>m'. process_packets_loop local_ip ports ps m = Inr m' \<and>
       sent m' pid = sent m pid + charged pid True as \<and>
       received m' pid = received m pid + charged pid False as"
proof (induction ps arbitrary: m as)
  case Nil
  then show ?case by (simp add: charged_def)
next
  case (Cons p ps)
  then obtain a as' where a: "account local_ip ports p = Inr a" and as': "accounts local_ip ports ps = Inr as'"
    and as: "as = (case a of None \<Rightarrow> as' | Some x \<Rightarrow> x # as')"
    by (auto simp: bindR_Inr_iff)
  from Cons.IH [OF as', of "charge a m"] a as show ?case
    unfolding process_packets_account
    by (auto simp: charge_def charged_Cons sent_charge algebra_simps split: option.splits)
qed

section \<open>Properties\<close>

text \<open>
  C20. No byte is lost or charged twice: after all packets have been taken, what a process is said to
  have sent and received is the sum of the lengths of exactly those packets that carry TCP, leave
  from the local address with a source port of the process, or arrive with a destination port of it.
\<close>

theorem packets_conserved:
  assumes "accounts local_ip ports ps = Inr as"
  shows "\<exists>m. process_packets local_ip ports ps = Inr m \<and>
    (\<forall>pid. sent m pid = charged pid True as \<and> received m pid = charged pid False as)"
proof -
  obtain m where m: "process_packets_loop local_ip ports ps Map.empty = Inr m"
    using process_packets_loop_charged [OF assms] by blast
  have "sent m pid = charged pid True as \<and> received m pid = charged pid False as" for pid
    using process_packets_loop_charged [OF assms, of Map.empty pid] m
    by (simp add: sent_def received_def network_stat_of_def NetworkStat_default_def)
  with m show ?thesis by (auto simp: process_packets_def)
qed

definition demo_packet :: packet where
  "demo_packet =
     \<lparr>pk_data = replicate 14 (CHR 0x00) @ [CHR 0x45] @ replicate 8 (CHR 0x00) @ [CHR 0x06] @ replicate 2 (CHR 0x00) @
        [CHR 0x0A, CHR 0x00, CHR 0x00, CHR 0x01] @ replicate 4 (CHR 0x00) @
        [CHR 0x00, CHR 0x50, CHR 0x01, CHR 0x00], pk_len = 60\<rparr>"

lemma packets_conserved_witness:
  "\<exists>m. process_packets 0x0100000A [80 \<mapsto> 7] [demo_packet, demo_packet] = Inr m \<and> sent m 7 = 120 \<and> received m 7 = 0"
proof -
  let ?d = "pk_data demo_packet"
  have d: "length ?d = 38" "?d ! 23 = CHR 0x06" "?d ! 14 = CHR 0x45"
    "take 4 (drop 26 ?d) = [CHR 0x0A, CHR 0x00, CHR 0x00, CHR 0x01]"
    "take 2 (drop 34 ?d) = [CHR 0x00, CHR 0x50]"
    by (simp_all add: demo_packet_def nth_append)
  have w: "load_bytes [CHR 0x0A, CHR 0x00, CHR 0x00, CHR 0x01] = (0x0100000A :: u32)"
    "load_bytes [CHR 0x50, CHR 0x00] = (80 :: u16)" "(char_of (6::nat) :: char) = CHR 0x06"
    by (simp_all add: load_bytes_def char_of_def bit_iff_odd)
  have "account 0x0100000A [80 \<mapsto> 7] demo_packet = Inr (Some (7, True, pk_len demo_packet))"
    by (simp add: account_def d w)
  then have a: "accounts 0x0100000A [80 \<mapsto> 7] [demo_packet, demo_packet] = Inr [(7, True, 60), (7, True, 60)]"
    by (simp add: demo_packet_def)
  show ?thesis
    using packets_conserved [OF a] by (auto simp: charged_def)
qed

end
