(* ===== verification/Proc_Parsing.thy ===== *)
theory Proc_Parsing
  imports Process_Stat Std_Stream
begin

text \<open>
  The Linux part of \<^verbatim>\<open>src/client/process_table.cpp\<close> that reads \<^verbatim>\<open>/proc\<close>: the reusable buffer
  and the hand-written scanners over it, the socket links and the table of connections. What the
  kernel answers is an argument: \<open>proc_read\<close> gives what one \<^verbatim>\<open>read\<close> of a file returns (\<open>None\<close>
  when it cannot be opened or read), the other fields the directories and the text of
  \<^verbatim>\<open>/proc/net/tcp\<close>. A scanner that leaves the buffer has no meaning.
\<close>

section \<open>The buffer\<close>

definition BUFFER_SIZE :: nat where "BUFFER_SIZE = 4096"

definition NUL :: char where "NUL = CHR 0x00"

definition empty_buffer :: string where
  "empty_buffer = replicate BUFFER_SIZE NUL"

record procfs =
  proc_read :: "string \<rightharpoonup> string"
  proc_dir :: "string list option"
  proc_fds :: "u32 \<Rightarrow> string option list"
  proc_net_tcp :: "string option"

text \<open>The number of bytes, \<open>None\<close> for a negative result, and the buffer afterwards.\<close>

definition read_file :: "procfs \<Rightarrow> string \<Rightarrow> string \<Rightarrow> nat option \<times> string" where
  "read_file os path buffer =
     (case proc_read os path of
        None \<Rightarrow> (None, buffer)
      | Some d \<Rightarrow>
          let got = take (BUFFER_SIZE - 1) d
          in (Some (length got),
              if 0 < length got then got @ NUL # drop (length got + 1) buffer else buffer))"

definition slice :: "string \<Rightarrow> nat \<Rightarrow> nat \<Rightarrow> string" where
  "slice s i j = take (j - i) (drop i s)"

definition pid_path :: "u32 \<Rightarrow> string \<Rightarrow> string" where
  "pid_path pid name = ''/proc/'' @ show_nat (unat pid) @ name"

definition read_failed :: "u32 \<Rightarrow> string \<Rightarrow> exn" where
  "read_failed pid name = Runtime_error (''read '' @ show_nat (unat pid) @ name @ '' failed'')"

section \<open>Program name and arguments\<close>

definition read_program_name :: "procfs \<Rightarrow> u32 \<Rightarrow> string \<Rightarrow> string result \<times> string" where
  "read_program_name os pid buffer =
     (case read_file os (pid_path pid ''/comm'') buffer of
        (None, b) \<Rightarrow> (Inl (read_failed pid '' comm''), b)
      | (Some comm_read, b) \<Rightarrow> (Inr (slice b 0 comm_read), b))"

fun cmdline_loop :: "string \<Rightarrow> nat \<Rightarrow> nat \<Rightarrow> nat \<Rightarrow> string list \<Rightarrow> string list" where
  "cmdline_loop b 0 p now args = args"
| "cmdline_loop b (Suc todo) p now args =
     (if b ! p = NUL then cmdline_loop b todo (p + 1) (p + 1) (args @ [slice b now p])
      else cmdline_loop b todo (p + 1) now args)"

definition parse_cmdline :: "procfs \<Rightarrow> u32 \<Rightarrow> string \<Rightarrow> string list result \<times> string" where
  "parse_cmdline os pid buffer =
     (case read_file os (pid_path pid ''/cmdline'') buffer of
        (None, b) \<Rightarrow> (Inl (read_failed pid '' cmdline''), b)
      | (Some cmdline_read, b) \<Rightarrow> (Inr (cmdline_loop b cmdline_read 0 0 []), b))"

text \<open>\<^verbatim>\<open>path::filename\<close>: what follows the last slash.\<close>

definition path_filename :: "string \<Rightarrow> string" where
  "path_filename s = rev (takeWhile (\<lambda>c. c \<noteq> CHR ''/'') (rev s))"

definition read_process_metadata :: "procfs \<Rightarrow> u32 \<Rightarrow> string \<Rightarrow> ProcessListing result \<times> string" where
  "read_process_metadata os pid buffer =
     (case parse_cmdline os pid buffer of
        (Inl e, b) \<Rightarrow> (Inl e, b)
      | (Inr cmdline, b) \<Rightarrow>
          (if cmdline = [] then
             (case read_program_name os pid b of
                (Inl e, b') \<Rightarrow> (Inl e, b')
              | (Inr program_name, b') \<Rightarrow> (Inr (ProcessListing_new pid program_name cmdline), b'))
           else (Inr (ProcessListing_new pid (path_filename (hd cmdline)) cmdline), b)))"

section \<open>Scanners\<close>

text \<open>\<^verbatim>\<open>while (*p != c) ++p;\<close>\<close>

function skip_to :: "char \<Rightarrow> string \<Rightarrow> nat \<Rightarrow> nat result" where
  "skip_to c b p =
     (if length b \<le> p then Inl (Undefined ''buffer bounds'')
      else if b ! p = c then Inr p
      else skip_to c b (p + 1))"
  by auto
termination by (relation "measure (\<lambda>(c, b, p). length b - p)") auto

declare skip_to.simps [simp del]

text \<open>The \<^verbatim>\<open>do ... while (open_para > 0)\<close> over the name in parentheses.\<close>

function skip_parens :: "string \<Rightarrow> int \<Rightarrow> nat \<Rightarrow> nat result" where
  "skip_parens b open_para p =
     (if length b \<le> p then Inl (Undefined ''buffer bounds'')
      else let open_para = (if b ! p = CHR ''('' then open_para + 1
                            else if b ! p = CHR '')'' then open_para - 1 else open_para)
           in if 0 < open_para then skip_parens b open_para (p + 1) else Inr (p + 1))"
  by auto
termination by (relation "measure (\<lambda>(b, n, p). length b - p)") auto

declare skip_parens.simps [simp del]

lemma skip_to_bounds: "skip_to c b p = Inr q \<Longrightarrow> p \<le> q \<and> q < length b \<and> b ! q = c"
proof (induction c b p rule: skip_to.induct)
  case (1 c b p)
  then show ?case
    by (subst (asm) (2) skip_to.simps) (auto split: if_splits)
qed

lemma skip_to_less: "skip_to c b p = Inr q \<Longrightarrow> b ! p \<noteq> c \<Longrightarrow> p < q \<and> q < length b"
  using skip_to_bounds [of c b p q] by (metis le_neq_implies_less)

text \<open>
  The loop over the fields of a line that both \<^verbatim>\<open>read_pid_stat_cpu_mem\<close> and \<^verbatim>\<open>read_stat_cpu\<close>
  have: blanks are skipped, a NUL before a field is an error, and each field, up to the next blank,
  is handed to \<open>step\<close> with its number.
\<close>

function fields_loop ::
  "string \<Rightarrow> nat \<Rightarrow> (nat \<Rightarrow> string \<Rightarrow> 's \<Rightarrow> 's) \<Rightarrow> string \<Rightarrow> nat \<Rightarrow> nat \<Rightarrow> 's \<Rightarrow> 's result" where
  "fields_loop err last_field step b field p s =
     (if last_field < field then Inr s
      else if length b \<le> p then Inl (Undefined ''buffer bounds'')
      else if b ! p = NUL then Inl (Runtime_error err)
      else if b ! p = CHR '' '' then fields_loop err last_field step b field (p + 1) s
      else case skip_to (CHR '' '') b p of
             Inl e \<Rightarrow> Inl e
           | Inr q \<Rightarrow> fields_loop err last_field step b (field + 1) q (step field (slice b p q) s))"
  by auto
termination
  by (relation "measure (\<lambda>(err, l, step, b, field, p, s). length b - p)")
     (auto dest: skip_to_less intro!: diff_less_mono2 elim: order.strict_trans2)

declare fields_loop.simps [simp del]

section \<open>Processor and memory\<close>

record CpuMemStat =
  cm_total_cpu_usage :: u64
  cm_mem_usage :: u64

definition pid_stat_step :: "u64 \<Rightarrow> nat \<Rightarrow> string \<Rightarrow> CpuMemStat \<Rightarrow> CpuMemStat" where
  "pid_stat_step page_size field w s =
     (if field = 14 then s\<lparr>cm_total_cpu_usage := from_chars w (cm_total_cpu_usage s)\<rparr>
      else if field = 24 then s\<lparr>cm_mem_usage := from_chars w (cm_mem_usage s) * page_size\<rparr>
      else s)"

definition read_pid_stat_cpu_mem :: "u64 \<Rightarrow> procfs \<Rightarrow> u32 \<Rightarrow> string \<Rightarrow> CpuMemStat result \<times> string" where
  "read_pid_stat_cpu_mem page_size os pid buffer =
     (case read_file os (pid_path pid ''/stat'') buffer of
        (None, b) \<Rightarrow> (Inl (read_failed pid '' stat''), b)
      | (Some stat_read, b) \<Rightarrow>
          (bindR (skip_to (CHR '' '') b 0) (\<lambda>p.
           bindR (skip_parens b 0 (p + 1)) (\<lambda>p.
             fields_loop (''error while parsing '' @ show_nat (unat pid) @ '' stat'') 52
               (pid_stat_step page_size) b 3 (p + 1)
               \<lparr>cm_total_cpu_usage = 0, cm_mem_usage = 0\<rparr>)), b))"

text \<open>\<open>mem\<close> is what the local \<^verbatim>\<open>number\<close> holds when a field is reached.\<close>

definition stat_step :: "(nat \<Rightarrow> u64) \<Rightarrow> nat \<Rightarrow> string \<Rightarrow> CpuStat \<Rightarrow> CpuStat" where
  "stat_step mem field w s =
     (if 2 \<le> field \<and> field \<le> 11 then
        let number = from_chars w (mem field);
            s = s\<lparr>cpu_usage := cpu_usage s + number\<rparr>
        in if field = 4 then s\<lparr>cpu_idle := number\<rparr> else s
      else s)"

definition read_stat_cpu :: "(nat \<Rightarrow> u64) \<Rightarrow> procfs \<Rightarrow> string \<Rightarrow> CpuStat result \<times> string" where
  "read_stat_cpu mem os buffer =
     (case read_file os ''/proc/stat'' buffer of
        (None, b) \<Rightarrow> (Inl (Runtime_error ''read /proc/stat failed''), b)
      | (Some stat_read, b) \<Rightarrow>
          (fields_loop ''error while parsing /proc/stat'' 11 (stat_step mem) b 1 0 CpuStat_default, b))"

section \<open>Disk\<close>

fun io_loop :: "(nat \<Rightarrow> u64) \<Rightarrow> string \<Rightarrow> nat \<Rightarrow> nat \<Rightarrow> nat \<Rightarrow> DiskStat \<Rightarrow> DiskStat result" where
  "io_loop mem b 0 line p s = Inr s"
| "io_loop mem b (Suc todo) line p s =
     (if line = 5 \<or> line = 6 then
        bindR (skip_to (CHR '' '') b p) (\<lambda>p.
        let now = p + 1
        in bindR (skip_to (CHR 0x0A) b now) (\<lambda>p.
           let number = from_chars (slice b now p) (mem line);
               s = (if line = 5 then s\<lparr>disk_read := Some number\<rparr> else s\<lparr>disk_write := Some number\<rparr>)
           in io_loop mem b todo (line + 1) (p + 1) s))
      else
        bindR (skip_to (CHR 0x0A) b p) (\<lambda>p. io_loop mem b todo (line + 1) (p + 1) s))"

definition read_pid_io :: "(nat \<Rightarrow> u64) \<Rightarrow> procfs \<Rightarrow> u32 \<Rightarrow> string \<Rightarrow> DiskStat result \<times> string" where
  "read_pid_io mem os pid buffer =
     (case read_file os (pid_path pid ''/io'') buffer of
        (None, b) \<Rightarrow> (Inr DiskStat_default, b)
      | (Some io_read, b) \<Rightarrow> (io_loop mem b 6 1 0 DiskStat_default, b))"

section \<open>Sockets\<close>

text \<open>
  \<^verbatim>\<open>from_chars\<close> is given the range from offset 8 to \<open>size - 9\<close>; a range that ends before it
  begins has no meaning. \<open>mem\<close> is what the local \<^verbatim>\<open>number\<close> holds.
\<close>

definition parse_socket_inode :: "u64 \<Rightarrow> string \<Rightarrow> u64 result" where
  "parse_socket_inode mem link =
     (if take 8 link \<noteq> ''socket:['' then Inr 0
      else if length link < 9 + 8 then Inl (Undefined ''from_chars range'')
      else Inr (from_chars (slice link 8 (length link - 9)) mem))"

text \<open>The links of \<^verbatim>\<open>/proc/pid/fd\<close>; \<open>None\<close> is a link that cannot be read.\<close>

fun socket_loop :: "u64 list \<Rightarrow> string option list \<Rightarrow> u32 list \<Rightarrow> u32 list result" where
  "socket_loop mem [] sockets = Inr sockets"
| "socket_loop mem (None # entries) sockets = socket_loop (tl mem) entries sockets"
| "socket_loop mem (Some link # entries) sockets =
     bindR (parse_socket_inode (hd mem) link) (\<lambda>number.
       let inode = (ucast number :: u32)
       in socket_loop (tl mem) entries (if inode \<noteq> 0 then sockets @ [inode] else sockets))"

definition get_socket_inode_list :: "u64 list \<Rightarrow> procfs \<Rightarrow> u32 \<Rightarrow> u32 list result" where
  "get_socket_inode_list mem os pid = socket_loop mem (proc_fds os pid) []"

section \<open>The table of connections\<close>

record SocketInode =
  si_inode :: u32
  si_local_ip :: u32
  si_local_port :: u16
  si_rem_ip :: u32
  si_rem_port :: u16

definition hex_val :: "char \<Rightarrow> nat option" where
  "hex_val c =
     (let n = of_char c :: nat
      in if 48 \<le> n \<and> n \<le> 57 then Some (n - 48)
         else if 65 \<le> n \<and> n \<le> 70 then Some (n - 55)
         else if 97 \<le> n \<and> n \<le> 102 then Some (n - 87)
         else None)"

text \<open>The digits of base \<open>base\<close> (10 or 16).\<close>

definition is_base_digit :: "nat \<Rightarrow> char \<Rightarrow> bool" where
  "is_base_digit base c = (case hex_val c of None \<Rightarrow> False | Some v \<Rightarrow> v < base)"

definition nat_of_base :: "nat \<Rightarrow> string \<Rightarrow> nat" where
  "nat_of_base base ds = foldl (\<lambda>a c. a * base + the (hex_val c)) 0 ds"

text \<open>
  \<^verbatim>\<open>is >> std::hex >> value\<close> and \<^verbatim>\<open>is >> std::dec >> value\<close> for an unsigned type, over the old
  value: as \<open>extract_u64\<close>, in the given base; a hexadecimal number may begin with 0x.
\<close>

definition extract_base :: "nat \<Rightarrow> 'a::len word \<Rightarrow> istream \<Rightarrow> 'a word \<times> istream" where
  "extract_base base old s =
     (if \<not> good s then (old, s\<lparr>failbit := True\<rparr>)
      else let r = dropWhile is_space (inbuf s)
        in if r = [] then (old, s\<lparr>inbuf := [], eofbit := True, failbit := True\<rparr>)
           else let neg = (hd r = CHR ''-'');
                    t = (if hd r = CHR ''-'' \<or> hd r = CHR ''+'' then tl r else r);
                    t = (if base = 16 \<and> (take 2 t = ''0x'' \<or> take 2 t = ''0X'') then drop 2 t else t);
                    ds = takeWhile (is_base_digit base) t;
                    rest = dropWhile (is_base_digit base) t;
                    v = nat_of_base base ds;
                    s' = s\<lparr>inbuf := rest, eofbit := (rest = [])\<rparr>
             in if ds = [] then (0, s'\<lparr>failbit := True\<rparr>)
                else if 2 ^ LENGTH('a) \<le> v then (- 1, s'\<lparr>failbit := True\<rparr>)
                else (if neg then - of_nat v else of_nat v, s'))"

text \<open>\<^verbatim>\<open>is >> string\<close> and \<^verbatim>\<open>is >> char\<close>, of which only the stream is used.\<close>

definition skip_word :: "istream \<Rightarrow> istream" where
  "skip_word s =
     (if \<not> good s then s\<lparr>failbit := True\<rparr>
      else let r = dropWhile is_space (inbuf s)
        in if r = [] then s\<lparr>inbuf := [], eofbit := True, failbit := True\<rparr>
           else let rest = dropWhile (\<lambda>c. \<not> is_space c) r
             in s\<lparr>inbuf := rest, eofbit := (rest = [])\<rparr>)"

definition skip_char :: "istream \<Rightarrow> istream" where
  "skip_char s =
     (if \<not> good s then s\<lparr>failbit := True\<rparr>
      else let r = dropWhile is_space (inbuf s)
        in if r = [] then s\<lparr>inbuf := [], eofbit := True, failbit := True\<rparr>
           else s\<lparr>inbuf := tl r\<rparr>)"

text \<open>One line, \<open>None\<close> for a connection of the loopback interface. \<open>m\<close> is the uninitialised local.\<close>

definition parse_tcp_line :: "SocketInode \<Rightarrow> string \<Rightarrow> SocketInode option" where
  "parse_tcp_line m line =
     (let iss = skip_word (stream_of line);
          (local_ip, iss) = extract_base 16 (si_local_ip m) iss
      in if local_ip AND 0xff = 127 then None
         else let iss = skip_char iss;
                  (local_port, iss) = extract_base 16 (si_local_port m) iss;
                  (rem_ip, iss) = extract_base 16 (si_rem_ip m) iss;
                  iss = skip_char iss;
                  (rem_port, iss) = extract_base 16 (si_rem_port m) iss;
                  iss = (skip_word ^^ 6) iss;
                  (inode, iss) = extract_base 10 (si_inode m) iss
              in Some \<lparr>si_inode = inode, si_local_ip = local_ip, si_local_port = local_port,
                       si_rem_ip = rem_ip, si_rem_port = rem_port\<rparr>)"

function tcp_loop ::
  "SocketInode list \<Rightarrow> string \<Rightarrow> istream \<Rightarrow> (u32 \<rightharpoonup> SocketInode) \<Rightarrow> (u32 \<rightharpoonup> SocketInode)" where
  "tcp_loop m line tcp ret =
     (case getline (CHR 0x0A) line tcp of
        (line', tcp') \<Rightarrow>
          if failbit tcp' then ret
          else tcp_loop (tl m) line' tcp'
                 (case parse_tcp_line (hd m) line' of
                    None \<Rightarrow> ret
                  | Some inode \<Rightarrow> ret(si_inode inode \<mapsto> inode)))"
  by pat_completeness auto
termination
  by (relation "measure (\<lambda>(m, line, tcp, ret). length (inbuf tcp))")
     (auto simp: getline_def length_dropWhile_tl_less simp del: length_tl split: if_splits)

declare tcp_loop.simps [simp del]

text \<open>\<open>m\<close> holds the uninitialised local of each round.\<close>

definition parse_net_tcp :: "SocketInode list \<Rightarrow> procfs \<Rightarrow> (u32 \<rightharpoonup> SocketInode)" where
  "parse_net_tcp m os =
     (case proc_net_tcp os of
        None \<Rightarrow> Map.empty
      | Some text \<Rightarrow>
          (case getline (CHR 0x0A) [] (stream_of text) of (line, tcp) \<Rightarrow> tcp_loop m line tcp Map.empty))"

section \<open>The processes\<close>

text \<open>\<open>mem\<close> is what the local \<^verbatim>\<open>pid\<close> of each round holds.\<close>

fun pids_loop :: "u32 list \<Rightarrow> string list \<Rightarrow> u32 list \<Rightarrow> u32 list" where
  "pids_loop mem [] pids = pids"
| "pids_loop mem (name # names) pids =
     (if name \<noteq> [] \<and> is_digit (hd name)
      then pids_loop (tl mem) names (pids @ [from_chars name (hd mem)])
      else pids_loop (tl mem) names pids)"

definition list_pids :: "u32 list \<Rightarrow> procfs \<Rightarrow> u32 list result" where
  "list_pids mem os =
     (case proc_dir os of
        None \<Rightarrow> Inl Filesystem_error
      | Some names \<Rightarrow> Inr (pids_loop mem names []))"

end
