(* ===== verification/Process_Table.thy ===== *)
theory Process_Table
  imports Network_Processing Double Proc_Parsing
begin

text \<open>
  \<^verbatim>\<open>src/client/process_table.hpp\<close> and the Linux build of \<^verbatim>\<open>process_table.cpp\<close>: the tables of the
  running processes and \<^verbatim>\<open>update_table\<close>. The iteration order of an \<^verbatim>\<open>unordered_map\<close> is
  unspecified, so it is an argument: \<open>ord\<close> lists the keys of a table, \<open>first\<close> gives the key of
  \<^verbatim>\<open>begin()\<close> (\<open>None\<close> for an empty map). The contents of uninitialised locals are a record of
  their own.
\<close>

section \<open>State\<close>

record ProcessLastStat =
  ls_total_cpu_usage :: u64
  ls_disk_stat :: DiskStat

definition ProcessLastStat_default :: ProcessLastStat where
  "ProcessLastStat_default = \<lparr>ls_total_cpu_usage = 0, ls_disk_stat = DiskStat_default\<rparr>"

text \<open>The members of the object, the static \<^verbatim>\<open>last_cpu\<close> and the static buffer.\<close>

record ProcessTable =
  list_table :: "u32 \<rightharpoonup> ProcessListing"
  stat_table :: "u32 \<rightharpoonup> ProcessStat"
  last_stat_table :: "u32 \<rightharpoonup> ProcessLastStat"
  last_cpu :: CpuStat
  read_buffer :: string

definition ProcessTable_new :: ProcessTable where
  "ProcessTable_new =
     \<lparr>list_table = Map.empty, stat_table = Map.empty, last_stat_table = Map.empty,
      last_cpu = CpuStat_default, read_buffer = empty_buffer\<rparr>"

record uninit =
  un_stat :: "nat \<Rightarrow> u64"
  un_pids :: "u32 list"
  un_tcp :: "SocketInode list"
  un_inode :: "u32 \<Rightarrow> u64 list"
  un_io :: "u32 \<Rightarrow> nat \<Rightarrow> u64"
  un_listing :: "u32 \<Rightarrow> u32"

section \<open>Ports\<close>

fun port_map_inodes ::
  "(u32 \<rightharpoonup> SocketInode) \<Rightarrow> u32 \<Rightarrow> u32 list \<Rightarrow> (u16 \<rightharpoonup> u32) \<Rightarrow> (u16 \<rightharpoonup> u32)" where
  "port_map_inodes inode_list_all pid [] m = m"
| "port_map_inodes inode_list_all pid (inode # inodes) m =
     port_map_inodes inode_list_all pid inodes
       (case inode_list_all inode of None \<Rightarrow> m | Some s \<Rightarrow> m(si_local_port s \<mapsto> pid))"

fun port_map_pids ::
  "uninit \<Rightarrow> procfs \<Rightarrow> (u32 \<rightharpoonup> SocketInode) \<Rightarrow> u32 list \<Rightarrow> (u16 \<rightharpoonup> u32) \<Rightarrow> (u16 \<rightharpoonup> u32) result" where
  "port_map_pids un os inode_list_all [] m = Inr m"
| "port_map_pids un os inode_list_all (pid # pids) m =
     bindR (get_socket_inode_list (un_inode un pid) os pid) (\<lambda>inode_list_of_pid.
       if inode_list_of_pid = [] then port_map_pids un os inode_list_all pids m
       else port_map_pids un os inode_list_all pids
              (port_map_inodes inode_list_all pid inode_list_of_pid m))"

section \<open>One process\<close>

text \<open>The time that passed; 0 is replaced by 1.\<close>

definition cpu_delta :: "CpuStat \<Rightarrow> CpuStat \<Rightarrow> CpuStat" where
  "cpu_delta now_cpu prev =
     (let usage = cpu_usage now_cpu - cpu_usage prev;
          idle = cpu_idle now_cpu - cpu_idle prev
      in \<lparr>cpu_usage = (if usage = 0 then 1 else usage), cpu_idle = (if idle = 0 then 1 else idle)\<rparr>)"

definition disk_delta :: "DiskStat \<Rightarrow> DiskStat \<Rightarrow> DiskStat" where
  "disk_delta disk_stat prev =
     \<lparr>disk_read = map_option (\<lambda>r. r - value_or (disk_read prev) 0) (disk_read disk_stat),
      disk_write = map_option (\<lambda>w. w - value_or (disk_write prev) 0) (disk_write disk_stat)\<rparr>"

definition listing_of :: "uninit \<Rightarrow> ProcessTable \<Rightarrow> u32 \<Rightarrow> ProcessListing" where
  "listing_of un pt pid =
     (case list_table pt pid of None \<Rightarrow> ProcessListing_default (un_listing un pid) | Some l \<Rightarrow> l)"

definition stat_entry :: "ProcessTable \<Rightarrow> u32 \<Rightarrow> ProcessStat" where
  "stat_entry pt pid = (case stat_table pt pid of None \<Rightarrow> ProcessStat_default | Some s \<Rightarrow> s)"

definition last_stat_entry :: "ProcessTable \<Rightarrow> u32 \<Rightarrow> ProcessLastStat" where
  "last_stat_entry pt pid =
     (case last_stat_table pt pid of None \<Rightarrow> ProcessLastStat_default | Some s \<Rightarrow> s)"

text \<open>
  The part of the \<^verbatim>\<open>try\<close> block behind the two reads of \<^verbatim>\<open>/proc\<close>: the new statistics and the
  new values to compare with next time.
\<close>

definition new_stats ::
  "CpuStat \<Rightarrow> (u32 \<rightharpoonup> NetworkStat) \<Rightarrow> u32 \<Rightarrow> CpuMemStat \<Rightarrow> DiskStat \<Rightarrow> ProcessLastStat \<Rightarrow>
     (ProcessStat \<times> ProcessLastStat) result" where
  "new_stats delta net pid cpu_mem_stat disk_stat prev =
     bindR (current_cpu_percent (cm_total_cpu_usage cpu_mem_stat - ls_total_cpu_usage prev)
             (cpu_usage delta) (cpu_idle delta)) (\<lambda>percent.
       Inr (\<lparr>cpu_usage_percent = percent, mem_usage = cm_mem_usage cpu_mem_stat,
             disk_usage = disk_delta disk_stat (ls_disk_stat prev),
             network_usage = network_stat_of net pid\<rparr>,
            \<lparr>ls_total_cpu_usage = cm_total_cpu_usage cpu_mem_stat, ls_disk_stat = disk_stat\<rparr>))"

text \<open>
  The body of the \<^verbatim>\<open>try\<close> block, from the two reads on and as a whole. The boolean of the result is
  whether the process was marked as seen; the references into the tables create default entries
  before anything can throw.
\<close>

definition measure_pid ::
  "u64 \<Rightarrow> uninit \<Rightarrow> procfs \<Rightarrow> CpuStat \<Rightarrow> (u32 \<rightharpoonup> NetworkStat) \<Rightarrow> u32 \<Rightarrow> ProcessTable \<Rightarrow>
     bool result \<times> ProcessTable" where
  "measure_pid page_size un os delta net pid pt =
     (case read_pid_stat_cpu_mem page_size os pid (read_buffer pt) of
        (Inl e, b) \<Rightarrow> (Inl e, pt\<lparr>read_buffer := b\<rparr>)
      | (Inr cpu_mem_stat, b) \<Rightarrow>
          (case read_pid_io (un_io un pid) os pid b of
             (Inl e, b) \<Rightarrow> (Inl e, pt\<lparr>read_buffer := b\<rparr>)
           | (Inr disk_stat, b) \<Rightarrow>
               (case new_stats delta net pid cpu_mem_stat disk_stat (last_stat_entry pt pid) of
                  Inl e \<Rightarrow> (Inl e, pt\<lparr>read_buffer := b\<rparr>)
                | Inr (stat, prev) \<Rightarrow>
                    (Inr True, pt\<lparr>stat_table := (stat_table pt)(pid \<mapsto> stat),
                                  last_stat_table := (last_stat_table pt)(pid \<mapsto> prev),
                                  read_buffer := b\<rparr>))))"

definition update_pid ::
  "u64 \<Rightarrow> uninit \<Rightarrow> procfs \<Rightarrow> CpuStat \<Rightarrow> (u32 \<rightharpoonup> NetworkStat) \<Rightarrow> u32 \<Rightarrow> ProcessTable \<Rightarrow>
     bool result \<times> ProcessTable" where
  "update_pid page_size un os delta net pid pt =
     (let listing = listing_of un pt pid;
          pt = pt\<lparr>list_table := (list_table pt)(pid \<mapsto> listing)\<rparr>
      in case (if pl_args listing = [] then read_process_metadata os pid (read_buffer pt)
               else (Inr listing, read_buffer pt)) of
           (Inl e, b) \<Rightarrow> (Inl e, pt\<lparr>read_buffer := b\<rparr>)
         | (Inr listing, b) \<Rightarrow>
             let pt = pt\<lparr>list_table := (list_table pt)(pid \<mapsto> listing), read_buffer := b\<rparr>
             in if pl_args listing = [] then (Inr False, pt)
                else measure_pid page_size un os delta net pid
                       (pt\<lparr>stat_table := (stat_table pt)(pid \<mapsto> stat_entry pt pid),
                           last_stat_table := (last_stat_table pt)(pid \<mapsto> last_stat_entry pt pid)\<rparr>))"

text \<open>The loop prints what is derived from \<^verbatim>\<open>std::exception\<close> and goes on.\<close>

fun update_pids ::
  "u64 \<Rightarrow> uninit \<Rightarrow> procfs \<Rightarrow> CpuStat \<Rightarrow> (u32 \<rightharpoonup> NetworkStat) \<Rightarrow> u32 list \<Rightarrow> (u32 \<Rightarrow> bool) \<Rightarrow>
     ProcessTable \<Rightarrow> (u32 \<Rightarrow> bool) result \<times> ProcessTable" where
  "update_pids page_size un os delta net [] seen pt = (Inr seen, pt)"
| "update_pids page_size un os delta net (pid # pids) seen pt =
     (case update_pid page_size un os delta net pid pt of
        (Inl e, pt') \<Rightarrow>
          (if is_std_exception e then update_pids page_size un os delta net pids seen pt'
           else (Inl e, pt'))
      | (Inr marked, pt') \<Rightarrow>
          update_pids page_size un os delta net pids (if marked then seen(pid := True) else seen) pt')"

fun erase_loop :: "(u32 \<Rightarrow> bool) \<Rightarrow> u32 list \<Rightarrow> ProcessTable \<Rightarrow> ProcessTable" where
  "erase_loop seen [] pt = pt"
| "erase_loop seen (pid # pids) pt =
     (if seen pid = False then
        erase_loop seen pids
          (pt\<lparr>stat_table := (stat_table pt)(pid := None),
              last_stat_table := (last_stat_table pt)(pid := None),
              list_table := (list_table pt)(pid := None)\<rparr>)
      else erase_loop seen pids pt)"

section \<open>The update\<close>

definition update_table ::
  "((u32 \<rightharpoonup> ProcessListing) \<Rightarrow> u32 list) \<Rightarrow> ((u32 \<rightharpoonup> SocketInode) \<Rightarrow> u32 option) \<Rightarrow> u64 \<Rightarrow> uninit \<Rightarrow>
     procfs \<Rightarrow> packet list \<Rightarrow> ProcessTable \<Rightarrow> unit result \<times> ProcessTable" where
  "update_table ord first page_size un os packets pt =
     (case read_stat_cpu (un_stat un) os (read_buffer pt) of
        (Inl e, b) \<Rightarrow> (Inl e, pt\<lparr>read_buffer := b\<rparr>)
      | (Inr now_cpu, b) \<Rightarrow>
          let delta = cpu_delta now_cpu (last_cpu pt);
              pt = pt\<lparr>last_cpu := now_cpu, read_buffer := b\<rparr>
          in case list_pids (un_pids un) os of
               Inl e \<Rightarrow> (Inl e, pt)
             | Inr pids \<Rightarrow>
                 let inode_list_all = parse_net_tcp (un_tcp un) os
                 in case port_map_pids un os inode_list_all pids Map.empty of
                      Inl e \<Rightarrow> (Inl e, pt)
                    | Inr port_to_pid_map \<Rightarrow>
                        case first inode_list_all of
                          None \<Rightarrow> (Inl (Undefined ''begin of an empty map''), pt)
                        | Some i \<Rightarrow>
                            let local_ip = si_local_ip (the (inode_list_all i))
                            in case process_packets local_ip port_to_pid_map packets of
                                 Inl e \<Rightarrow> (Inl e, pt)
                               | Inr net \<Rightarrow>
                                   (case update_pids page_size un os delta net pids (\<lambda>_. False) pt of
                                      (Inl e, pt) \<Rightarrow> (Inl e, pt)
                                    | (Inr seen, pt) \<Rightarrow>
                                        (Inr (), erase_loop seen (ord (list_table pt)) pt)))"

end
