(* ===== verification/Process_Views.thy ===== *)
theory Process_Views
  imports Process_Table "HOL-Library.Multiset"
begin

text \<open>
  The rest of \<^verbatim>\<open>process_table.cpp\<close>: the comparators, the sorted view, the table on the screen and
  the sums per program. \<^verbatim>\<open>std::partial_sort\<close> leaves open where elements go that compare as equal,
  so it is an argument under its documented contract, the locale \<open>partial_sorter\<close>; the key a
  comparator stands for is a type of its own with a linear order.
\<close>

section \<open>Comparators\<close>

datatype ProcessSortType =
  SORT_CPU | SORT_MEM | SORT_DISK_READ | SORT_DISK_WRITE | SORT_DISK_TOTAL
  | SORT_NETWORK_RECV | SORT_NETWORK_SEND | SORT_NETWORK_TOTAL

record ProcessFullStat =
  fs_pid :: u32
  fs_meta :: ProcessListing
  fs_stat :: ProcessStat

text \<open>The case that appears for four optional counters, and the one for the two totals.\<close>

definition optional_greater :: "u64 option \<Rightarrow> u64 option \<Rightarrow> u32 \<Rightarrow> u32 \<Rightarrow> bool" where
  "optional_greater l r lpid rpid =
     (if l \<noteq> None \<and> r = None then True
      else if l = None \<and> r \<noteq> None then False
      else if l \<noteq> None \<and> r \<noteq> None \<and> the l \<noteq> the r then the r < the l
      else lpid < rpid)"

definition total_greater ::
  "u64 option \<Rightarrow> u64 option \<Rightarrow> u64 option \<Rightarrow> u64 option \<Rightarrow> u32 \<Rightarrow> u32 \<Rightarrow> bool" where
  "total_greater l1 l2 r1 r2 lpid rpid =
     (let left_ok = (l1 \<noteq> None \<or> l2 \<noteq> None);
          right_ok = (r1 \<noteq> None \<or> r2 \<noteq> None)
      in if \<not> left_ok \<and> \<not> right_ok then rpid < lpid
         else if left_ok \<noteq> right_ok then left_ok \<and> \<not> right_ok
         else value_or r1 0 + value_or r2 0 < value_or l1 0 + value_or l2 0)"

definition get_comparator :: "ProcessSortType \<Rightarrow> ProcessFullStat \<Rightarrow> ProcessFullStat \<Rightarrow> bool" where
  "get_comparator type lhs rhs =
     (let l = fs_stat lhs; r = fs_stat rhs
      in case type of
           SORT_CPU \<Rightarrow>
             if cpu_usage_percent l \<noteq> cpu_usage_percent r then cpu_usage_percent r < cpu_usage_percent l
             else fs_pid lhs < fs_pid rhs
         | SORT_MEM \<Rightarrow>
             if mem_usage l \<noteq> mem_usage r then mem_usage r < mem_usage l else fs_pid lhs < fs_pid rhs
         | SORT_DISK_READ \<Rightarrow>
             optional_greater (disk_read (disk_usage l)) (disk_read (disk_usage r)) (fs_pid lhs) (fs_pid rhs)
         | SORT_DISK_WRITE \<Rightarrow>
             optional_greater (disk_write (disk_usage l)) (disk_write (disk_usage r)) (fs_pid lhs) (fs_pid rhs)
         | SORT_DISK_TOTAL \<Rightarrow>
             total_greater (disk_read (disk_usage l)) (disk_write (disk_usage l))
               (disk_read (disk_usage r)) (disk_write (disk_usage r)) (fs_pid lhs) (fs_pid rhs)
         | SORT_NETWORK_RECV \<Rightarrow>
             optional_greater (network_recv (network_usage l)) (network_recv (network_usage r))
               (fs_pid lhs) (fs_pid rhs)
         | SORT_NETWORK_SEND \<Rightarrow>
             optional_greater (network_send (network_usage l)) (network_send (network_usage r))
               (fs_pid lhs) (fs_pid rhs)
         | SORT_NETWORK_TOTAL \<Rightarrow>
             total_greater (network_recv (network_usage l)) (network_send (network_usage l))
               (network_recv (network_usage r)) (network_send (network_usage r)) (fs_pid lhs) (fs_pid rhs))"

text \<open>
  The key that is compared: rows with a value come before rows without, a larger value before a
  smaller one, and \<open>tie\<close> settles the rest.
\<close>

datatype sort_key = Sort_Key (missing: bool) (amount: nat) (tie: int)

instantiation sort_key :: linorder
begin

definition less_eq_sort_key :: "sort_key \<Rightarrow> sort_key \<Rightarrow> bool" where
  "less_eq_sort_key a b \<longleftrightarrow>
     missing a < missing b \<or> missing a = missing b \<and>
       (amount b < amount a \<or> amount a = amount b \<and> tie a \<le> tie b)"

definition less_sort_key :: "sort_key \<Rightarrow> sort_key \<Rightarrow> bool" where
  "less_sort_key a b \<longleftrightarrow> a \<le> b \<and> \<not> b \<le> a"

instance
  by standard (auto simp: less_eq_sort_key_def less_sort_key_def sort_key.expand)

end

lemma less_sort_key_iff:
  "a < b \<longleftrightarrow> missing a < missing b \<or> missing a = missing b \<and>
     (amount b < amount a \<or> amount a = amount b \<and> tie a < tie b)"
  by (auto simp: less_sort_key_def less_eq_sort_key_def)

definition optional_key :: "u64 option \<Rightarrow> u32 \<Rightarrow> sort_key" where
  "optional_key v pid = Sort_Key (v = None) (unat (value_or v 0)) (uint pid)"

definition total_key :: "u64 option \<Rightarrow> u64 option \<Rightarrow> u32 \<Rightarrow> sort_key" where
  "total_key v w pid =
     (if v = None \<and> w = None then Sort_Key True 0 (- uint pid)
      else Sort_Key False (unat (value_or v 0 + value_or w 0)) 0)"

definition row_key :: "ProcessSortType \<Rightarrow> ProcessFullStat \<Rightarrow> sort_key" where
  "row_key type p =
     (let s = fs_stat p; pid = fs_pid p
      in case type of
           SORT_CPU \<Rightarrow> Sort_Key False (unat (cpu_usage_percent s)) (uint pid)
         | SORT_MEM \<Rightarrow> Sort_Key False (unat (mem_usage s)) (uint pid)
         | SORT_DISK_READ \<Rightarrow> optional_key (disk_read (disk_usage s)) pid
         | SORT_DISK_WRITE \<Rightarrow> optional_key (disk_write (disk_usage s)) pid
         | SORT_DISK_TOTAL \<Rightarrow> total_key (disk_read (disk_usage s)) (disk_write (disk_usage s)) pid
         | SORT_NETWORK_RECV \<Rightarrow> optional_key (network_recv (network_usage s)) pid
         | SORT_NETWORK_SEND \<Rightarrow> optional_key (network_send (network_usage s)) pid
         | SORT_NETWORK_TOTAL \<Rightarrow>
             total_key (network_recv (network_usage s)) (network_send (network_usage s)) pid)"

lemma uint_less_unat:
  fixes a b :: "'a::len word"
  shows "uint a < uint b \<longleftrightarrow> unat a < unat b"
  by (simp flip: word_less_nat_alt word_less_iff_unsigned)

lemma optional_greater_key:
  "optional_greater l r lpid rpid \<longleftrightarrow> optional_key l lpid < optional_key r rpid"
  by (cases l; cases r)
     (auto simp: optional_greater_def optional_key_def less_sort_key_iff uint_less_unat word_less_nat_alt
       unsigned_word_eqI)

lemma total_greater_key:
  "total_greater l1 l2 r1 r2 lpid rpid \<longleftrightarrow> total_key l1 l2 lpid < total_key r1 r2 rpid"
  by (auto simp: total_greater_def total_key_def less_sort_key_iff Let_def uint_less_unat word_less_nat_alt)

lemma get_comparator_key: "get_comparator type a b \<longleftrightarrow> row_key type a < row_key type b"
  by (cases type)
     (auto simp: get_comparator_def row_key_def Let_def optional_greater_key total_greater_key
       less_sort_key_iff uint_less_unat word_less_nat_alt unsigned_word_eqI)

section \<open>The sorted view\<close>

text \<open>
  What \<^verbatim>\<open>std::partial_sort(first, first + m, last, less)\<close> promises for a strict weak order: the
  elements are permuted, the first \<open>m\<close> are in order and nothing behind them belongs before them.
\<close>

locale partial_sorter =
  fixes psort :: "('a \<Rightarrow> 'a \<Rightarrow> bool) \<Rightarrow> nat \<Rightarrow> 'a list \<Rightarrow> 'a list"
    and key :: "'a \<Rightarrow> 'k::linorder"
  assumes permutes: "m \<le> length xs \<Longrightarrow> mset (psort (\<lambda>a b. key a < key b) m xs) = mset xs"
    and front_sorted: "m \<le> length xs \<Longrightarrow> sorted (map key (take m (psort (\<lambda>a b. key a < key b) m xs)))"
    and front_first: "m \<le> length xs \<Longrightarrow> a \<in> set (take m (psort (\<lambda>a b. key a < key b) m xs)) \<Longrightarrow>
      b \<in> set (drop m (psort (\<lambda>a b. key a < key b) m xs)) \<Longrightarrow> key a \<le> key b"
begin

definition best :: "nat \<Rightarrow> 'a list \<Rightarrow> 'a list" where
  "best m xs = take m (psort (\<lambda>a b. key a < key b) m xs)"

definition others :: "nat \<Rightarrow> 'a list \<Rightarrow> 'a list" where
  "others m xs = drop m (psort (\<lambda>a b. key a < key b) m xs)"

lemma best_sorted: "m \<le> length xs \<Longrightarrow> sorted (map key (best m xs))"
  by (simp add: best_def front_sorted)

lemma best_others: "m \<le> length xs \<Longrightarrow> mset (best m xs) + mset (others m xs) = mset xs"
  by (simp add: best_def others_def permutes flip: mset_append)

lemma length_best: "m \<le> length xs \<Longrightarrow> length (best m xs) = m"
  by (metis best_def length_take min.absorb2 permutes mset_eq_length)

lemma best_first: "m \<le> length xs \<Longrightarrow> a \<in> set (best m xs) \<Longrightarrow> b \<in> set (others m xs) \<Longrightarrow> key a \<le> key b"
  unfolding best_def others_def by (rule front_first)

lemma set_best: "m \<le> length xs \<Longrightarrow> set (best m xs) \<subseteq> set xs"
  by (metis best_others set_mset_mset set_mset_union Un_upper1)

text \<open>No row outside the view would have a place before one inside.\<close>

lemma best_left_out:
  assumes "m \<le> length xs" and "x \<in> set xs" and "x \<notin> set (best m xs)" and "a \<in> set (best m xs)"
  shows "key a \<le> key x"
proof -
  have "x \<in> set (others m xs)"
    using assms(1-3) best_others [of m xs] by (metis Un_iff set_mset_mset set_mset_union)
  with assms show ?thesis by (intro best_first)
qed

lemma distinct_best:
  assumes "m \<le> length xs" and "distinct (map f xs)"
  shows "distinct (map f (best m xs))"
proof -
  have "mset (map f (best m xs @ others m xs)) = mset (map f xs)"
    using best_others [OF assms(1)] by (metis mset_append mset_map)
  then have "distinct (map f (best m xs @ others m xs))" using assms(2) by (metis mset_eq_imp_distinct_iff)
  then show ?thesis by simp
qed

end

text \<open>A sorter under the contract: it inserts every element behind those that are not greater.\<close>

fun insert_less :: "('a \<Rightarrow> 'a \<Rightarrow> bool) \<Rightarrow> 'a \<Rightarrow> 'a list \<Rightarrow> 'a list" where
  "insert_less lt x [] = [x]"
| "insert_less lt x (y # ys) = (if lt x y then x # y # ys else y # insert_less lt x ys)"

fun insertion_sort :: "('a \<Rightarrow> 'a \<Rightarrow> bool) \<Rightarrow> 'a list \<Rightarrow> 'a list" where
  "insertion_sort lt [] = []"
| "insertion_sort lt (x # xs) = insert_less lt x (insertion_sort lt xs)"

definition full_sort :: "('a \<Rightarrow> 'a \<Rightarrow> bool) \<Rightarrow> nat \<Rightarrow> 'a list \<Rightarrow> 'a list" where
  "full_sort lt m xs = insertion_sort lt xs"

lemma mset_insertion_sort [simp]: "mset (insertion_sort lt xs) = mset xs"
proof -
  have "mset (insert_less lt x ys) = add_mset x (mset ys)" for x ys
    by (induction lt x ys rule: insert_less.induct) simp_all
  then show ?thesis by (induction lt xs rule: insertion_sort.induct) simp_all
qed

lemma sorted_insertion_sort:
  fixes key :: "'a \<Rightarrow> 'k::linorder"
  shows "sorted (map key (insertion_sort (\<lambda>a b. key a < key b) xs))"
proof -
  have ins: "sorted (map key ys) \<Longrightarrow> sorted (map key (insert_less (\<lambda>a b. key a < key b) x ys))" for x ys
  proof (induction ys)
    case Nil
    then show ?case by simp
  next
    case (Cons y ys)
    have "set (insert_less lt x ys) = insert x (set ys)" for lt
      by (induction lt x ys rule: insert_less.induct) auto
    with Cons show ?case by auto
  qed
  show ?thesis by (induction xs) (simp_all add: ins)
qed

interpretation sorter: partial_sorter full_sort "row_key type" for type
proof
  fix m and xs :: "ProcessFullStat list" and a b
  let ?s = "insertion_sort (\<lambda>a b. row_key type a < row_key type b) xs"
  have s: "sorted (map (row_key type) (take m ?s) @ map (row_key type) (drop m ?s))"
    using sorted_insertion_sort [of "row_key type" xs] by (metis append_take_drop_id map_append)
  show "mset (full_sort (\<lambda>a b. row_key type a < row_key type b) m xs) = mset xs"
    by (simp add: full_sort_def)
  show "sorted (map (row_key type) (take m (full_sort (\<lambda>a b. row_key type a < row_key type b) m xs)))"
    using s by (simp add: full_sort_def sorted_append)
  assume "a \<in> set (take m (full_sort (\<lambda>a b. row_key type a < row_key type b) m xs))"
    and "b \<in> set (drop m (full_sort (\<lambda>a b. row_key type a < row_key type b) m xs))"
  then show "row_key type a \<le> row_key type b" using s by (auto simp: full_sort_def sorted_append)
qed

fun full_stats :: "ProcessTable \<Rightarrow> u32 list \<Rightarrow> ProcessFullStat list result" where
  "full_stats pt [] = Inr []"
| "full_stats pt (pid # pids) =
     (case stat_table pt pid of
        None \<Rightarrow> Inl Out_of_range
      | Some stat \<Rightarrow>
          bindR (full_stats pt pids) (\<lambda>ret.
            Inr (\<lparr>fs_pid = pid, fs_meta = the (list_table pt pid), fs_stat = stat\<rparr> # ret)))"

text \<open>A limit of 0 means all rows.\<close>

definition get_sorted ::
  "((ProcessFullStat \<Rightarrow> ProcessFullStat \<Rightarrow> bool) \<Rightarrow> nat \<Rightarrow> ProcessFullStat list \<Rightarrow> ProcessFullStat list) \<Rightarrow>
     ((u32 \<rightharpoonup> ProcessListing) \<Rightarrow> u32 list) \<Rightarrow> ProcessSortType \<Rightarrow> u32 \<Rightarrow> ProcessTable \<Rightarrow>
     ProcessFullStat list result" where
  "get_sorted psort ord type limit pt =
     bindR (full_stats pt (ord (list_table pt))) (\<lambda>ret.
       let n = of_nat (length ret) :: u32;
           limit = (if limit = 0 then n else min limit n)
       in Inr (take (unat limit) (psort (get_comparator type) (unat limit) ret)))"

section \<open>The table on the screen\<close>

text \<open>
  \<^verbatim>\<open>{:<n}\<close>: the text with blanks up to the width \<open>n\<close>. How wide a text is on the screen and how
  \<^verbatim>\<open>std::format\<close> prints a \<^verbatim>\<open>double\<close> are arguments.
\<close>

definition pad_right :: "(string \<Rightarrow> nat) \<Rightarrow> nat \<Rightarrow> string \<Rightarrow> string" where
  "pad_right width n s = s @ replicate (n - width s) (CHR '' '')"

definition format_row :: "(string \<Rightarrow> nat) \<Rightarrow> string list \<Rightarrow> string" where
  "format_row width cells =
     concat (map2 (\<lambda>(sep, n) s. sep @ pad_right width n s)
       [([], 7), ('' '', 10), ('' '', 13), ('' '', 10), ('' '', 10), ('' '', 10), ('' '', 10),
        ('' '', 20), ('' '', 40)] cells)"

definition show_optional :: "u64 option \<Rightarrow> string" where
  "show_optional v = (case v of None \<Rightarrow> ''N/A'' | Some x \<Rightarrow> show_nat (unat x))"

definition display_line :: "(string \<Rightarrow> nat) \<Rightarrow> (rat \<Rightarrow> string) \<Rightarrow> ProcessFullStat \<Rightarrow> string" where
  "display_line width show_double p =
     (let stat = fs_stat p
      in format_row width
          [show_nat (unat (fs_pid p)),
           show_double (round_double (double_of (ucast (cpu_usage_percent stat)) / double_of (ucast CPU_UNIT))),
           show_nat (unat (mem_usage stat)),
           show_optional (disk_read (disk_usage stat)), show_optional (disk_write (disk_usage stat)),
           show_optional (network_recv (network_usage stat)), show_optional (network_send (network_usage stat)),
           pl_process_name (fs_meta p), get_args_as_string (fs_meta p)])"

definition max_char_per_line :: nat where "max_char_per_line = 140"
definition num_lines :: u32 where "num_lines = 30"

fun display_rows :: "(string \<Rightarrow> nat) \<Rightarrow> (rat \<Rightarrow> string) \<Rightarrow> ProcessFullStat list \<Rightarrow> string \<Rightarrow> string" where
  "display_rows width show_double [] res = res"
| "display_rows width show_double (p # ps) res =
     (let line = display_line width show_double p;
          line = (if max_char_per_line < length line then take max_char_per_line line else line)
      in display_rows width show_double ps (res @ line @ [CHR 0x0A]))"

definition display_header :: "(string \<Rightarrow> nat) \<Rightarrow> string" where
  "display_header width =
     CHR 0x1B # ''[H'' @ CHR 0x1B # ''[J'' @
     format_row width [''pid'', ''cpu'', ''mem'', ''disk read'', ''disk write'', ''net recv'', ''net send'',
       ''programm'', ''cmdline''] @ [CHR 0x0A]"

definition display_table ::
  "((ProcessFullStat \<Rightarrow> ProcessFullStat \<Rightarrow> bool) \<Rightarrow> nat \<Rightarrow> ProcessFullStat list \<Rightarrow> ProcessFullStat list) \<Rightarrow>
     ((u32 \<rightharpoonup> ProcessListing) \<Rightarrow> u32 list) \<Rightarrow> (string \<Rightarrow> nat) \<Rightarrow> (rat \<Rightarrow> string) \<Rightarrow> ProcessTable \<Rightarrow>
     string result" where
  "display_table psort ord width show_double pt =
     bindR (get_sorted psort ord SORT_DISK_TOTAL num_lines pt) (\<lambda>rows.
       Inr (display_rows width show_double rows (display_header width)))"

section \<open>Sums per program\<close>

definition add_stat :: "ProcessStat \<Rightarrow> ProcessStat \<Rightarrow> ProcessStat" where
  "add_stat this_name stat =
     \<lparr>cpu_usage_percent = cpu_usage_percent this_name + cpu_usage_percent stat,
      mem_usage = mem_usage this_name + mem_usage stat,
      disk_usage =
        \<lparr>disk_read = Some (value_or (disk_read (disk_usage this_name)) 0 + value_or (disk_read (disk_usage stat)) 0),
         disk_write = Some (value_or (disk_write (disk_usage this_name)) 0 + value_or (disk_write (disk_usage stat)) 0)\<rparr>,
      network_usage =
        \<lparr>network_recv = Some (value_or (network_recv (network_usage this_name)) 0 +
                              value_or (network_recv (network_usage stat)) 0),
         network_send = Some (value_or (network_send (network_usage this_name)) 0 +
                              value_or (network_send (network_usage stat)) 0)\<rparr>\<rparr>"

fun program_loop ::
  "ProcessTable \<Rightarrow> u32 list \<Rightarrow> (string \<rightharpoonup> ProcessStat) \<Rightarrow> (string \<rightharpoonup> ProcessStat) result" where
  "program_loop pt [] m = Inr m"
| "program_loop pt (pid # pids) m =
     (case stat_table pt pid of
        None \<Rightarrow> Inl Out_of_range
      | Some stat \<Rightarrow>
          let name = pl_process_name (the (list_table pt pid))
          in program_loop pt pids (m(name \<mapsto> add_stat (stat_of m name) stat)))"

definition get_map_program_name_resource ::
  "((u32 \<rightharpoonup> ProcessListing) \<Rightarrow> u32 list) \<Rightarrow> ProcessTable \<Rightarrow> (string \<rightharpoonup> ProcessStat) result" where
  "get_map_program_name_resource ord pt = program_loop pt (ord (list_table pt)) Map.empty"

end
