(* ===== verification/Registry.thy ===== *)
theory Registry
  imports Config
begin

text \<open>
  The Windows build of the configuration: \<^verbatim>\<open>src/common/registry.hpp/.cpp\<close>, the registry form of an
  entry (\<^verbatim>\<open>config_entry.cpp\<close>) and of a configuration (\<^verbatim>\<open>config.cpp\<close>), and the widening and narrowing
  of strings (\<^verbatim>\<open>util.cpp\<close>). The calls of the registry are the fields of a parameter \<open>api\<close>; what
  Windows documents of them is in \<open>Registry_Laws\<close>.
  A key is its path below \<^verbatim>\<open>HKEY_CURRENT_USER\<close>, an error code is 0 for success.
\<close>

section \<open>Wide strings\<close>

text \<open>\<^verbatim>\<open>wchar_t\<close> has 16 bits there and \<^verbatim>\<open>char\<close> is signed, so a byte from 128 on is sign-extended.\<close>

type_synonym wstring = "u16 list"

definition widen :: "char \<Rightarrow> u16" where
  "widen c = scast (of_nat (of_char c) :: u8)"

definition narrow :: "u16 \<Rightarrow> char" where
  "narrow w = char_of (unat w)"

definition to_wstring :: "string \<Rightarrow> wstring" where
  "to_wstring str = map widen str"

definition to_string :: "wstring \<Rightarrow> string" where
  "to_string wstr = map narrow wstr"

lemma narrow_widen [simp]: "narrow (widen c) = c"
proof -
  have eq: "take_bit 8 (scast (b :: u8) :: u16) = ucast b" for b
  proof (rule bit_word_eqI)
    fix n assume "n < LENGTH(16)"
    show "bit (take_bit 8 (scast b :: u16)) n \<longleftrightarrow> bit (ucast b :: u16) n"
    proof (cases "n < 8")
      case True
      then have "min 7 n = n" by simp
      with True \<open>n < LENGTH(16)\<close> show ?thesis by (simp add: bit_simps)
    next
      case False
      then show ?thesis by (auto simp: bit_simps dest: bit_imp_le_length)
    qed
  qed
  have "take_bit 8 (unat (widen c)) = unat (take_bit 8 (widen c))"
    by (simp only: unsigned_take_bit_eq)
  also have "\<dots> = unat (ucast (of_nat (of_char c) :: u8) :: u16)"
    by (simp only: widen_def eq)
  also have "\<dots> = unat (of_nat (of_char c) :: u8)"
    using nat_of_char_less_256 [of c] less_trans [OF nat_of_char_less_256 [of c], of "2 ^ 16"]
    by (simp add: unsigned_ucast_eq unat_of_nat take_bit_nat_eq_self)
  finally have "char_of (unat (widen c)) = (char_of (unat (of_nat (of_char c) :: u8)) :: char)"
    by (metis char_of_take_bit_eq order_refl)
  then show ?thesis by (simp add: narrow_def unat_of_nat)
qed

lemma widen_inject [simp]: "widen c = widen d \<longleftrightarrow> c = d"
  by (metis narrow_widen)

lemma to_string_wstring [simp]: "to_string (to_wstring s) = s"
  by (simp add: to_string_def to_wstring_def comp_def)

lemma length_to_wstring [simp]: "length (to_wstring s) = length s"
  by (simp add: to_wstring_def)

lemma to_wstring_inject [simp]: "to_wstring s = to_wstring t \<longleftrightarrow> s = t"
  by (metis to_string_wstring)

lemma to_wstring_append: "to_wstring (s @ t) = to_wstring s @ to_wstring t"
  by (simp add: to_wstring_def)

text \<open>The memory of a wide string, and the wide characters that lie in a buffer of bytes.\<close>

definition wbytes :: "wstring \<Rightarrow> string" where
  "wbytes ws = concat (map (mem_bytes 2) ws)"

fun wchars :: "string \<Rightarrow> wstring" where
  "wchars (a # b # s) = load_bytes [a, b] # wchars s"
| "wchars _ = []"

lemma length_wbytes [simp]: "length (wbytes ws) = 2 * length ws"
  by (induction ws) (simp_all add: wbytes_def)

lemma load_mem_bytes_u16: "load_bytes (mem_bytes 2 w) = (w :: u16)"
  by (rule load_mem_bytes) simp

lemma mem_bytes_2: "mem_bytes 2 w = [char_of (unat w), char_of (unat (drop_bit 8 w))]"
  by (simp add: mem_bytes_def numeral_2_eq_2)

lemma wchars_wbytes [simp]: "wchars (wbytes ws) = ws"
proof (induction ws)
  case Nil
  then show ?case by (simp add: wbytes_def)
next
  case (Cons w ws)
  then show ?case
    using load_mem_bytes_u16 [of w] by (simp add: wbytes_def mem_bytes_2)
qed

section \<open>The calls of the registry\<close>

type_synonym reg_value = "u32 \<times> string"

text \<open>
  \<^verbatim>\<open>RegCreateKeyExW\<close> gives an error code, a handle and the registry after the call;
  \<^verbatim>\<open>RegSetValueExW\<close> takes the handle (\<open>None\<close> for a null one), the name, the type and the bytes;
  \<^verbatim>\<open>RegQueryValueExW\<close> takes the size of the buffer (\<open>None\<close> for no buffer) and gives the error code,
  the type, the size and the bytes it stores.
\<close>

record ('h, 'r) registry_api =
  RegCreateKeyExW :: "wstring \<Rightarrow> 'r \<Rightarrow> u32 \<times> 'h \<times> 'r"
  RegCloseKey :: "'h \<Rightarrow> 'r \<Rightarrow> 'r"
  RegSetValueExW :: "'h option \<Rightarrow> wstring \<Rightarrow> u32 \<Rightarrow> string \<Rightarrow> 'r \<Rightarrow> u32 \<times> 'r"
  RegQueryValueExW :: "'h option \<Rightarrow> wstring \<Rightarrow> u32 option \<Rightarrow> 'r \<Rightarrow> u32 \<times> u32 \<times> u32 \<times> string"
  RegDeleteTreeW :: "wstring \<Rightarrow> 'r \<Rightarrow> u32 \<times> 'r"

definition REG_SZ :: u32 where "REG_SZ = 1"
definition REG_EXPAND_SZ :: u32 where "REG_EXPAND_SZ = 2"
definition REG_DWORD :: u32 where "REG_DWORD = 4"
definition REG_QWORD :: u32 where "REG_QWORD = 11"

lemmas reg_type_defs = REG_SZ_def REG_EXPAND_SZ_def REG_DWORD_def REG_QWORD_def

section \<open>Keys\<close>

record 'h RegKey =
  hKey :: "'h option"
  sub_key :: wstring

definition open_or_create ::
  "('h, 'r) registry_api \<Rightarrow> 'h RegKey \<Rightarrow> wstring \<Rightarrow> 'r \<Rightarrow> u32 \<times> 'h RegKey \<times> 'r" where
  "open_or_create api key path r =
     (let (res, temp, r') = RegCreateKeyExW api path r
      in if res \<noteq> 0 then (res, key, r')
         else (0, key\<lparr>hKey := Some temp\<rparr>,
               case hKey key of None \<Rightarrow> r' | Some h \<Rightarrow> RegCloseKey api h r'))"

text \<open>The constructor drops the error code; the key is then not \<open>valid\<close>.\<close>

definition RegKey_new :: "('h, 'r) registry_api \<Rightarrow> wstring \<Rightarrow> 'r \<Rightarrow> 'h RegKey \<times> 'r" where
  "RegKey_new api path r =
     (let (_, key, r') = open_or_create api \<lparr>hKey = None, sub_key = path\<rparr> path r in (key, r'))"

definition RegKey_destroy :: "('h, 'r) registry_api \<Rightarrow> 'h RegKey \<Rightarrow> 'r \<Rightarrow> 'r" where
  "RegKey_destroy api key r = (case hKey key of None \<Rightarrow> r | Some h \<Rightarrow> RegCloseKey api h r)"

definition valid :: "'h RegKey \<Rightarrow> bool" where
  "valid key \<longleftrightarrow> hKey key \<noteq> None"

definition get_sub_key :: "'h RegKey \<Rightarrow> string" where
  "get_sub_key key = to_string (sub_key key)"

definition setRaw ::
  "('h, 'r) registry_api \<Rightarrow> 'h RegKey \<Rightarrow> wstring \<Rightarrow> u32 \<Rightarrow> string \<Rightarrow> 'r \<Rightarrow> u32 \<times> 'r" where
  "setRaw api key name type data r = RegSetValueExW api (hKey key) name type data r"

text \<open>The first call asks for the size, the second fills a buffer of that size.\<close>

definition queryRaw ::
  "('h, 'r) registry_api \<Rightarrow> 'h RegKey \<Rightarrow> wstring \<Rightarrow> 'r \<Rightarrow> u32 + u32 \<times> string" where
  "queryRaw api key name r =
     (let (res, type, sz, _) = RegQueryValueExW api (hKey key) name None r
      in if res \<noteq> 0 then Inl res
         else let (res, _, _, data) = RegQueryValueExW api (hKey key) name (Some sz) r
              in if res \<noteq> 0 then Inl res
                 else Inr (type, take (unat sz) (data @ replicate (unat sz - length data) (CHR 0x00))))"

section \<open>Values\<close>

text \<open>The size is cast to a \<^verbatim>\<open>DWORD\<close>; the terminating null is stored too.\<close>

definition set_wstring ::
  "('h, 'r) registry_api \<Rightarrow> 'h RegKey \<Rightarrow> wstring \<Rightarrow> wstring \<Rightarrow> 'r \<Rightarrow> u32 \<times> 'r" where
  "set_wstring api key name v r =
     (let sz = of_nat ((length v + 1) * 2) :: u32
      in setRaw api key name REG_SZ (take (unat sz) (wbytes (v @ [0]))) r)"

definition set_dword ::
  "('h, 'r) registry_api \<Rightarrow> 'h RegKey \<Rightarrow> wstring \<Rightarrow> u32 \<Rightarrow> 'r \<Rightarrow> u32 \<times> 'r" where
  "set_dword api key name v r = setRaw api key name REG_DWORD (mem_bytes 4 v) r"

definition set_qword ::
  "('h, 'r) registry_api \<Rightarrow> 'h RegKey \<Rightarrow> wstring \<Rightarrow> u64 \<Rightarrow> 'r \<Rightarrow> u32 \<times> 'r" where
  "set_qword api key name v r = setRaw api key name REG_QWORD (mem_bytes 8 v) r"

text \<open>A reader gives the error code and the value.\<close>

definition get_wstring ::
  "('h, 'r) registry_api \<Rightarrow> 'h RegKey \<Rightarrow> wstring \<Rightarrow> 'r \<Rightarrow> u32 \<times> wstring option" where
  "get_wstring api key name r =
     (case queryRaw api key name r of
        Inl ec \<Rightarrow> (ec, None)
      | Inr (type, buffer) \<Rightarrow>
          if type \<noteq> REG_SZ \<and> type \<noteq> REG_EXPAND_SZ then (0, None)
          else if buffer = [] then (0, Some [])
          else let data = wchars buffer
               in (0, Some (if data \<noteq> [] \<and> last data = 0 then butlast data else data)))"

definition get_dword ::
  "('h, 'r) registry_api \<Rightarrow> 'h RegKey \<Rightarrow> wstring \<Rightarrow> 'r \<Rightarrow> u32 \<times> u32 option" where
  "get_dword api key name r =
     (case queryRaw api key name r of
        Inl ec \<Rightarrow> (ec, None)
      | Inr (type, buffer) \<Rightarrow>
          if type \<noteq> REG_DWORD \<or> length buffer \<noteq> 4 then (0, None)
          else (0, Some (load_bytes buffer)))"

definition get_qword ::
  "('h, 'r) registry_api \<Rightarrow> 'h RegKey \<Rightarrow> wstring \<Rightarrow> 'r \<Rightarrow> u32 \<times> u64 option" where
  "get_qword api key name r =
     (case queryRaw api key name r of
        Inl ec \<Rightarrow> (ec, None)
      | Inr (type, buffer) \<Rightarrow>
          if type \<noteq> REG_QWORD \<or> length buffer \<noteq> 8 then (0, None)
          else (0, Some (load_bytes buffer)))"

section \<open>Entries and configurations in the registry\<close>

text \<open>No error code of a \<^verbatim>\<open>set\<close> is looked at.\<close>

definition serialize_registry ::
  "('h, 'r) registry_api \<Rightarrow> 'h RegKey \<Rightarrow> ConfigEntry \<Rightarrow> 'r \<Rightarrow> 'r" where
  "serialize_registry api reg_key c r =
     (let (_, r1) = set_wstring api reg_key (to_wstring ''process_name'') (to_wstring (ce_process_name c)) r;
          (_, r2) = set_dword api reg_key (to_wstring ''cpu_usage'') (ce_cpu_usage c) r1;
          (_, r3) = set_qword api reg_key (to_wstring ''mem_usage'') (ce_mem_usage c) r2;
          (_, r4) = set_qword api reg_key (to_wstring ''disk_usage'') (ce_disk_usage c) r3;
          (_, r5) = set_qword api reg_key (to_wstring ''network_usage'') (ce_network_usage c) r4
      in r5)"

text \<open>One field: an error or a missing value makes the return code 1 and leaves the field alone.\<close>

definition take_field :: "u32 \<times> 'v option \<Rightarrow> ('v \<Rightarrow> 'c \<Rightarrow> 'c) \<Rightarrow> int \<times> 'c \<Rightarrow> int \<times> 'c" where
  "take_field q upd cc =
     (case (q, cc) of ((ec, v), (code, c)) \<Rightarrow>
        if ec \<noteq> 0 \<or> v = None then (1, c) else (code, upd (the v) c))"

definition deserialize_registry ::
  "('h, 'r) registry_api \<Rightarrow> 'h RegKey \<Rightarrow> 'r \<Rightarrow> ConfigEntry \<Rightarrow> int \<times> ConfigEntry" where
  "deserialize_registry api reg_key r c =
     (let cc1 = take_field (get_wstring api reg_key (to_wstring ''process_name'') r)
                  (\<lambda>v c. c\<lparr>ce_process_name := to_string v\<rparr>) (0, c);
          cc2 = take_field (get_dword api reg_key (to_wstring ''cpu_usage'') r)
                  (\<lambda>v c. c\<lparr>ce_cpu_usage := v\<rparr>) cc1;
          cc3 = take_field (get_qword api reg_key (to_wstring ''mem_usage'') r)
                  (\<lambda>v c. c\<lparr>ce_mem_usage := v\<rparr>) cc2;
          cc4 = take_field (get_qword api reg_key (to_wstring ''disk_usage'') r)
                  (\<lambda>v c. c\<lparr>ce_disk_usage := v\<rparr>) cc3
      in take_field (get_qword api reg_key (to_wstring ''network_usage'') r)
           (\<lambda>v c. c\<lparr>ce_network_usage := v\<rparr>) cc4)"

definition REGISTRY_PREFIX :: wstring where
  "REGISTRY_PREFIX = to_wstring
     (''Software'' @ CHR 0x5C # ''RemoteMonitoringTool'' @ CHR 0x5C # ''config'')"

definition entry_key :: "nat \<Rightarrow> wstring" where
  "entry_key i = REGISTRY_PREFIX @ to_wstring [CHR 0x5C] @ to_wstring (show_nat i)"

text \<open>The index is an \<^verbatim>\<open>int\<close>.\<close>

fun write_entries ::
  "('h, 'r) registry_api \<Rightarrow> nat \<Rightarrow> ConfigEntry list \<Rightarrow> 'r \<Rightarrow> unit result \<times> 'r" where
  "write_entries api i [] r = (Inr (), r)"
| "write_entries api i (c # cs) r =
     (let (key, r1) = RegKey_new api (entry_key i) r;
          r2 = serialize_registry api key c r1;
          r3 = RegKey_destroy api key r2
      in if 2 ^ 31 \<le> Suc i then (Inl (Undefined ''int overflow''), r3)
         else write_entries api (Suc i) cs r3)"

definition write_config_registry ::
  "('h, 'r) registry_api \<Rightarrow> Config \<Rightarrow> 'r \<Rightarrow> int result \<times> 'r" where
  "write_config_registry api c r =
     (let (_, r1) = RegDeleteTreeW api REGISTRY_PREFIX r;
          (key, r2) = RegKey_new api REGISTRY_PREFIX r1;
          (_, r3) = set_dword api key (to_wstring ''count'') (of_nat (length (config_entries c))) r2;
          r4 = RegKey_destroy api key r3;
          config_entries_to_write = map convert_before_write (config_entries c)
      in case write_entries api 0 config_entries_to_write r4 of
           (Inl e, r5) \<Rightarrow> (Inl e, r5)
         | (Inr _, r5) \<Rightarrow> (Inr 0, r5))"

text \<open>The entries that are read into; the code is 1 when a field of any of them failed.\<close>

fun read_entries ::
  "('h, 'r) registry_api \<Rightarrow> nat \<Rightarrow> ConfigEntry list \<Rightarrow> int \<Rightarrow> 'r \<Rightarrow> int \<times> ConfigEntry list \<times> 'r" where
  "read_entries api i [] code r = (code, [], r)"
| "read_entries api i (c # cs) code r =
     (let (key, r1) = RegKey_new api (entry_key i) r;
          (ret, c') = deserialize_registry api key r1 c;
          r2 = RegKey_destroy api key r1;
          (code', cs', r3) = read_entries api (Suc i) cs (if ret \<noteq> 0 then 1 else code) r2
      in (code', c' # cs', r3))"

text \<open>
  The constructor of an entry sets none of its numbers, so the entries \<^verbatim>\<open>resize\<close> adds have an empty
  name and indeterminate numbers, taken from \<open>mem\<close>. The count is cast to an \<^verbatim>\<open>int\<close>; \<^verbatim>\<open>resize\<close>
  takes it back to a \<^verbatim>\<open>size_t\<close> and throws when it was negative.
\<close>

definition resize_entries :: "(nat \<Rightarrow> ConfigEntry) \<Rightarrow> nat \<Rightarrow> ConfigEntry list \<Rightarrow> ConfigEntry list" where
  "resize_entries mem n cs =
     take n cs @ map (\<lambda>i. (mem i)\<lparr>ce_process_name := []\<rparr>) [length cs..<n]"

definition read_config_registry ::
  "('h, 'r) registry_api \<Rightarrow> (nat \<Rightarrow> ConfigEntry) \<Rightarrow> Config \<Rightarrow> 'r \<Rightarrow> (int \<times> Config) result \<times> 'r" where
  "read_config_registry api mem c r =
     (let (key, r1) = RegKey_new api REGISTRY_PREFIX r;
          (ec, n_count) = get_dword api key (to_wstring ''count'') r1;
          r2 = RegKey_destroy api key r1
      in if ec \<noteq> 0 \<or> n_count = None then (Inr (1, c), r2)
         else let count = sint (the n_count)
              in if count < 0 then (Inl Length_error, r2)
                 else let (code, es, r3) =
                            read_entries api 0 (resize_entries mem (nat count) (config_entries c)) 0 r2
                      in (Inr (code, c\<lparr>config_entries := map convert_after_read es\<rparr>), r3))"

end
