(* ===== verification/Etw_Decoder.thy ===== *)
theory Etw_Decoder
  imports Network_Processing Registry
begin

text \<open>
  The Windows part of \<^verbatim>\<open>src/client/network_processing.hpp/.cpp\<close>: how an event of the kernel's network
  provider is decoded with the TDH library and charged to its process. The two calls of TDH and
  \<^verbatim>\<open>inet_pton\<close> are parameters; the trace session that delivers the events is in \<open>Windows_Client\<close>.
\<close>

section \<open>What TDH gives\<close>

record event_property =
  ep_in_type :: u16
  ep_out_type :: u16
  ep_length :: u16

text \<open>The two names \<^verbatim>\<open>TeiString\<close> finds in the buffer, and the properties of the event.\<close>

record trace_info =
  ti_keyword :: wstring
  ti_opcode :: wstring
  ti_properties :: "event_property list"

record event_record =
  er_flags :: u16
  er_user_data :: string
  er_rest :: string   \<comment> \<open>the rest of the header\<close>

text \<open>
  \<^verbatim>\<open>TdhGetEventInformation\<close> takes the event, the search path if there is one and the size of the
  buffer, and gives the status, the size it needs and what the buffer then shows.
  \<^verbatim>\<open>TdhFormatProperty\<close> takes the event information, the size of a pointer, the property's types and
  length, the number of bytes that are left, those bytes, the size of the buffer in bytes and its
  old contents; it gives the status, the size it needs, the new contents and the bytes consumed.
\<close>

record tdh_api =
  TdhGetEventInformation :: "event_record \<Rightarrow> wstring option \<Rightarrow> u32 \<Rightarrow> u32 \<times> u32 \<times> trace_info"
  TdhFormatProperty :: "trace_info \<Rightarrow> u8 \<Rightarrow> u16 \<Rightarrow> u16 \<Rightarrow> u16 \<Rightarrow> u16 \<Rightarrow> string \<Rightarrow> u32 \<Rightarrow> wstring \<Rightarrow>
    u32 \<times> u32 \<times> wstring \<times> u16"

definition ERROR_INSUFFICIENT_BUFFER :: u32 where "ERROR_INSUFFICIENT_BUFFER = 122"
definition EVENT_HEADER_FLAG_32_BIT_HEADER :: u16 where "EVENT_HEADER_FLAG_32_BIT_HEADER = 0x20"
definition EVENT_HEADER_FLAG_64_BIT_HEADER :: u16 where "EVENT_HEADER_FLAG_64_BIT_HEADER = 0x40"
definition TDH_OUTTYPE_NULL :: u16 where "TDH_OUTTYPE_NULL = 0"
definition TDH_OUTTYPE_NOPRINT :: u16 where "TDH_OUTTYPE_NOPRINT = 301"

section \<open>Packets\<close>

record NetworkPacketInfo =
  np_pid :: u32
  np_size :: u32
  np_local_addr :: u32
  np_local_port :: u16
  np_remote_addr :: u32
  np_remote_port :: u16
  np_receive :: bool

definition NetworkPacketInfo_default :: NetworkPacketInfo where
  "NetworkPacketInfo_default =
     \<lparr>np_pid = 0, np_size = 0, np_local_addr = 0, np_local_port = 0, np_remote_addr = 0,
      np_remote_port = 0, np_receive = False\<rparr>"

text \<open>\<open>inet\<close> is \<^verbatim>\<open>inet_pton\<close> for \<^verbatim>\<open>AF_INET\<close>; it sees the string up to the first null.\<close>

definition ip_string_to_uint32 :: "(string \<Rightarrow> u32 option) \<Rightarrow> string \<Rightarrow> u32 result" where
  "ip_string_to_uint32 inet ip =
     (case inet (takeWhile (\<lambda>c. c \<noteq> CHR 0x00) ip) of
        Some ip_addr \<Rightarrow> Inr ip_addr
      | None \<Rightarrow> Inl (Runtime_error (''ip_string_to_uint32: invalid ip address: '' @ ip)))"

section \<open>Decoding\<close>

text \<open>The search path, if there is one, and the size of the buffer for the event information.\<close>

record DecoderContext =
  dc_tdhContext :: "wstring option"
  dc_teiBuffer_size :: u32

definition DecoderContext_new :: "wstring option \<Rightarrow> DecoderContext" where
  "DecoderContext_new szTmfSearchPath = \<lparr>dc_tdhContext = szTmfSearchPath, dc_teiBuffer_size = 0\<rparr>"

text \<open>
  The loop that formats one property: the buffer grows until the text fits. \<open>fmt\<close> is the call for
  this property; its result is the buffer and the number of bytes consumed.
\<close>

definition resize_buffer :: "nat \<Rightarrow> wstring \<Rightarrow> wstring" where
  "resize_buffer n buf = take n buf @ replicate (n - length buf) 0"

lemma length_resize_buffer [simp]: "length (resize_buffer n buf) = n"
  by (simp add: resize_buffer_def)

function format_loop :: "(u32 \<Rightarrow> wstring \<Rightarrow> u32 \<times> u32 \<times> wstring \<times> u16) \<Rightarrow> wstring \<Rightarrow> wstring \<times> u16" where
  "format_loop fmt buf =
     (let (status, cbBuffer, buf', cbUsed) = fmt (of_nat (2 * length buf)) buf
      in if status = ERROR_INSUFFICIENT_BUFFER \<and> length buf < unat cbBuffer div 2
         then format_loop fmt (resize_buffer (unat cbBuffer div 2) buf')
         else (buf', cbUsed))"
  by pat_completeness auto
termination
proof (relation "measure (\<lambda>(fmt, buf). 2 ^ 31 - length buf)", goal_cases)
  case 1
  then show ?case by simp
next
  case (2 fmt buf x status y cbBuffer z buf' cbUsed)
  have "unat cbBuffer < 2 ^ 32" using unsigned_less [of cbBuffer, where ?'a = nat] by simp
  then have "unat cbBuffer div 2 < 2 ^ 31" by simp
  moreover from 2 have "length buf < unat cbBuffer div 2" by blast
  ultimately have "2 ^ 31 - unat cbBuffer div 2 < 2 ^ 31 - length buf" by linarith
  then show ?case by simp
qed

declare format_loop.simps [simp del]

definition pointer_size :: "u16 \<Rightarrow> u8" where
  "pointer_size flags =
     (if flags AND EVENT_HEADER_FLAG_32_BIT_HEADER \<noteq> 0 then 4
      else if flags AND EVENT_HEADER_FLAG_64_BIT_HEADER \<noteq> 0 then 8 else 8)"

text \<open>What the property with this index is used for.\<close>

definition store_property ::
  "(string \<Rightarrow> u32 option) \<Rightarrow> nat \<Rightarrow> string \<Rightarrow> NetworkPacketInfo \<Rightarrow> NetworkPacketInfo result" where
  "store_property inet prop_index s p =
     (if prop_index = 0 then Inr (p\<lparr>np_pid := from_chars s (np_pid p)\<rparr>)
      else if prop_index = 1 then Inr (p\<lparr>np_size := from_chars s (np_size p)\<rparr>)
      else if prop_index = 2 then
        bindR (ip_string_to_uint32 inet s) (\<lambda>a. Inr (p\<lparr>np_remote_addr := a\<rparr>))
      else if prop_index = 3 then
        bindR (ip_string_to_uint32 inet s) (\<lambda>a. Inr (p\<lparr>np_local_addr := a\<rparr>))
      else if prop_index = 4 then Inr (p\<lparr>np_remote_port := from_chars s (np_remote_port p)\<rparr>)
      else if prop_index = 5 then Inr (p\<lparr>np_local_port := from_chars s (np_local_port p)\<rparr>)
      else Inr p)"

text \<open>\<open>pos\<close> is how far the event's data has been consumed; the difference to its end is a \<^verbatim>\<open>USHORT\<close>.\<close>

definition format_property ::
  "tdh_api \<Rightarrow> trace_info \<Rightarrow> u8 \<Rightarrow> string \<Rightarrow> nat \<Rightarrow> event_property \<Rightarrow> u32 \<Rightarrow> wstring \<Rightarrow> u32 \<times> u32 \<times> wstring \<times> u16" where
  "format_property api tei ptr user_data pos epi =
     TdhFormatProperty api tei ptr (ep_in_type epi)
       (if ep_out_type epi = TDH_OUTTYPE_NOPRINT then TDH_OUTTYPE_NULL else ep_out_type epi)
       (ep_length epi) (of_nat (length user_data) - of_nat pos) (drop pos user_data)"

fun decode_properties ::
  "tdh_api \<Rightarrow> (string \<Rightarrow> u32 option) \<Rightarrow> trace_info \<Rightarrow> u8 \<Rightarrow> string \<Rightarrow> nat \<Rightarrow> wstring \<Rightarrow>
     nat \<Rightarrow> event_property list \<Rightarrow> NetworkPacketInfo \<Rightarrow> NetworkPacketInfo result" where
  "decode_properties api inet tei ptr user_data pos buf prop_index [] p = Inr p"
| "decode_properties api inet tei ptr user_data pos buf prop_index (epi # epis) p =
     (let (buf', cbUsed) = format_loop (format_property api tei ptr user_data pos epi) buf
      in bindR (store_property inet prop_index (to_string buf') p)
           (decode_properties api inet tei ptr user_data (pos + unat cbUsed) buf' (Suc prop_index) epis))"

definition wfind :: "wstring \<Rightarrow> wstring \<Rightarrow> bool" where
  "wfind s sub \<longleftrightarrow> list_ex (\<lambda>i. take (length sub) (drop i s) = sub) [0..<Suc (length s)]"

text \<open>
  \<^verbatim>\<open>get_network_packet\<close>: the status of the calls is looked at only to grow the buffer, and a buffer
  that stayed empty is read all the same. An event that is not of the IPv4 keyword gives the default
  packet; an operation that is neither sending nor receiving keeps the default direction.
\<close>

definition get_network_packet ::
  "tdh_api \<Rightarrow> (string \<Rightarrow> u32 option) \<Rightarrow> event_record \<Rightarrow> DecoderContext \<Rightarrow>
     NetworkPacketInfo result \<times> DecoderContext" where
  "get_network_packet api inet ev ctx =
     (let (status, cb, tei) = TdhGetEventInformation api ev (dc_tdhContext ctx) (dc_teiBuffer_size ctx);
          (tei, ctx) =
            (if status = ERROR_INSUFFICIENT_BUFFER
             then (snd (snd (TdhGetEventInformation api ev (dc_tdhContext ctx) cb)), ctx\<lparr>dc_teiBuffer_size := cb\<rparr>)
             else (tei, ctx))
      in if dc_teiBuffer_size ctx = 0 then (Inl (Undefined ''event information''), ctx)
         else if ti_keyword tei \<noteq> to_wstring ''KERNEL_NETWORK_KEYWORD_IPV4''
         then (Inr NetworkPacketInfo_default, ctx)
         else let network_packet =
                    (if wfind (ti_opcode tei) (to_wstring ''Data sent'')
                     then NetworkPacketInfo_default\<lparr>np_receive := False\<rparr>
                     else if wfind (ti_opcode tei) (to_wstring ''Data received'')
                     then NetworkPacketInfo_default\<lparr>np_receive := True\<rparr>
                     else NetworkPacketInfo_default)
              in (decode_properties api inet tei (pointer_size (er_flags ev)) (er_user_data ev) 0 [] 0
                    (ti_properties tei) network_packet, ctx))"

section \<open>Charging\<close>

definition charge_packet :: "NetworkPacketInfo \<Rightarrow> (u32 \<rightharpoonup> NetworkStat) \<Rightarrow> (u32 \<rightharpoonup> NetworkStat)" where
  "charge_packet network_packet_info m =
     (if np_receive network_packet_info
      then add_recv (np_pid network_packet_info) (np_size network_packet_info) m
      else add_send (np_pid network_packet_info) (np_size network_packet_info) m)"

text \<open>
  \<^verbatim>\<open>OnEvent\<close> on the shared map: an exception of the decoder is reported on the error output only. The
  trace is opened without a user context, so there is no search path.
\<close>

definition OnEvent ::
  "tdh_api \<Rightarrow> (string \<Rightarrow> u32 option) \<Rightarrow> event_record \<Rightarrow> (u32 \<rightharpoonup> NetworkStat) \<Rightarrow> (u32 \<rightharpoonup> NetworkStat) result" where
  "OnEvent api inet ev m =
     (case fst (get_network_packet api inet ev (DecoderContext_new None)) of
        Inr network_packet_info \<Rightarrow> Inr (charge_packet network_packet_info m)
      | Inl e \<Rightarrow> if is_std_exception e then Inr m else Inl e)"

text \<open>The result and the map that is left.\<close>

definition get_pid_network_stat :: "(u32 \<rightharpoonup> NetworkStat) \<Rightarrow> (u32 \<rightharpoonup> NetworkStat) \<times> (u32 \<rightharpoonup> NetworkStat)" where
  "get_pid_network_stat m = (m, Map.empty)"


section \<open>What TDH documents\<close>

text \<open>
  A property with the text \<open>t\<close>: a buffer that is too small is refused with the size needed, and a
  buffer that is large enough receives the text and a null; what lies behind it may be anything.
\<close>

definition shows_text :: "(u32 \<Rightarrow> wstring \<Rightarrow> u32 \<times> u32 \<times> wstring \<times> u16) \<Rightarrow> string \<Rightarrow> u16 \<Rightarrow> bool" where
  "shows_text fmt t used \<longleftrightarrow> length t + 1 < 2 ^ 31 \<and>
     (\<forall>buf. length buf < 2 ^ 31 \<longrightarrow>
        (if length buf < length t + 1
         then \<exists>buf' u. fmt (of_nat (2 * length buf)) buf =
                (ERROR_INSUFFICIENT_BUFFER, of_nat (2 * (length t + 1)), buf', u)
         else \<exists>cb rest. fmt (of_nat (2 * length buf)) buf = (0, cb, to_wstring t @ 0 # rest, used) \<and>
                length (to_wstring t @ 0 # rest) = length buf))"

fun shows_texts :: "tdh_api \<Rightarrow> trace_info \<Rightarrow> u8 \<Rightarrow> string \<Rightarrow> nat \<Rightarrow> event_property list \<Rightarrow> (string \<times> u16) list \<Rightarrow> bool" where
  "shows_texts api tei ptr user_data pos [] ts = (ts = [])"
| "shows_texts api tei ptr user_data pos (epi # epis) ts = (case ts of [] \<Rightarrow> False
     | (t, used) # ts' \<Rightarrow> shows_text (format_property api tei ptr user_data pos epi) t used \<and>
         shows_texts api tei ptr user_data (pos + unat used) epis ts')"

lemma format_loop_fits:
  assumes "shows_text fmt t used" and "length buf < 2 ^ 31" and "length t + 1 \<le> length buf"
  shows "\<exists>rest. format_loop fmt buf = (to_wstring t @ 0 # rest, used) \<and>
    length (to_wstring t @ 0 # rest) = length buf"
proof -
  from assms obtain cb rest where
    "fmt (of_nat (2 * length buf)) buf = (0, cb, to_wstring t @ 0 # rest, used)"
    "length (to_wstring t @ 0 # rest) = length buf"
    unfolding shows_text_def by (metis not_le)
  then show ?thesis
    by (subst format_loop.simps) (simp add: ERROR_INSUFFICIENT_BUFFER_def)
qed

lemma format_loop_shows:
  assumes s: "shows_text fmt t used" and b: "length buf < 2 ^ 31"
  shows "\<exists>rest. format_loop fmt buf = (to_wstring t @ 0 # rest, used) \<and>
    length (to_wstring t @ 0 # rest) < 2 ^ 31"
proof (cases "length buf < length t + 1")
  case False
  with format_loop_fits [OF s b] b show ?thesis by auto
next
  case True
  with s b obtain buf' u where f: "fmt (of_nat (2 * length buf)) buf =
      (ERROR_INSUFFICIENT_BUFFER, of_nat (2 * (length t + 1)), buf', u)"
    unfolding shows_text_def by metis
  have t: "length t + 1 < 2 ^ 31" using s by (simp add: shows_text_def)
  then have n: "unat (of_nat (2 * (length t + 1)) :: u32) div 2 = length t + 1"
    by (subst unat_of_nat) simp
  have "format_loop fmt buf = format_loop fmt (resize_buffer (length t + 1) buf')"
    using f n True by (subst format_loop.simps) simp
  with format_loop_fits [OF s, of "resize_buffer (length t + 1) buf'"] t show ?thesis by auto
qed

text \<open>A reader of the text stops at the null, whatever an earlier property left behind it.\<close>

lemma from_chars_null [simp]: "from_chars (s @ CHR 0x00 # rest) old = from_chars s old"
proof -
  have "takeWhile is_digit (s @ CHR 0x00 # rest) = takeWhile is_digit s"
    by (induction s) (auto simp: is_digit_def)
  then show ?thesis by (simp add: from_chars_def)
qed

lemma narrow_0 [simp]: "narrow 0 = CHR 0x00"
  by (simp add: narrow_def char_of_def)

lemma to_string_null: "to_string (to_wstring t @ 0 # rest) = t @ CHR 0x00 # to_string rest"
  using to_string_wstring [of t] by (simp add: to_string_def)

lemma ip_string_null:
  "CHR 0x00 \<notin> set t \<Longrightarrow> ip_string_to_uint32 inet t = Inr a \<Longrightarrow>
     ip_string_to_uint32 inet (t @ CHR 0x00 # rest) = Inr a"
  by (simp add: ip_string_to_uint32_def takeWhile_neq_append takeWhile_neq_none split: option.splits)

lemma store_property_null:
  assumes "CHR 0x00 \<notin> set t" and "store_property inet i t p = Inr q"
  shows "store_property inet i (t @ CHR 0x00 # rest) p = Inr q"
proof (cases "i = 2 \<or> i = 3")
  case True
  with assms(2) obtain a where "ip_string_to_uint32 inet t = Inr a"
    by (auto simp: store_property_def bindR_Inr_iff)
  with True assms(2) ip_string_null [OF assms(1) this, of rest] show ?thesis
    by (auto simp: store_property_def)
next
  case False
  with assms(2) show ?thesis by (auto simp: store_property_def split: if_splits)
qed

fun store_texts :: "(string \<Rightarrow> u32 option) \<Rightarrow> nat \<Rightarrow> string list \<Rightarrow> NetworkPacketInfo \<Rightarrow> NetworkPacketInfo result" where
  "store_texts inet i [] p = Inr p"
| "store_texts inet i (t # ts) p = bindR (store_property inet i t p) (store_texts inet (Suc i) ts)"

lemma decode_properties_texts:
  "shows_texts api tei ptr user_data pos epis ts \<Longrightarrow> length buf < 2 ^ 31 \<Longrightarrow>
   list_all (\<lambda>(t, _). CHR 0x00 \<notin> set t) ts \<Longrightarrow> store_texts inet i (map fst ts) p = Inr q \<Longrightarrow>
   decode_properties api inet tei ptr user_data pos buf i epis p = Inr q"
proof (induction epis arbitrary: pos buf i p ts)
  case Nil
  then show ?case by simp
next
  case (Cons epi epis)
  then obtain t used ts' where ts: "ts = (t, used) # ts'"
    and s: "shows_text (format_property api tei ptr user_data pos epi) t used"
    and s': "shows_texts api tei ptr user_data (pos + unat used) epis ts'"
    by (auto split: list.splits)
  obtain p' where p': "store_property inet i t p = Inr p'"
    and rest: "store_texts inet (Suc i) (map fst ts') p' = Inr q"
    using Cons.prems(4) by (auto simp: ts bindR_Inr_iff)
  obtain r where f: "format_loop (format_property api tei ptr user_data pos epi) buf = (to_wstring t @ 0 # r, used)"
    and l: "length (to_wstring t @ 0 # r) < 2 ^ 31"
    using format_loop_shows [OF s Cons.prems(2)] by blast
  have "store_property inet i (to_string (to_wstring t @ 0 # r)) p = Inr p'"
    unfolding to_string_null by (rule store_property_null [OF _ p']) (use Cons.prems(3) ts in simp)
  with Cons.IH [OF s' l _ rest] Cons.prems(3) show ?case
    by (simp add: f ts)
qed

lemma store_texts_packet:
  assumes "inet dst = Some d" and "inet src = Some s"
    and "CHR 0x00 \<notin> set dst" and "CHR 0x00 \<notin> set src"
  shows "store_texts inet 0 [show_nat (unat pid), show_nat (unat sz), dst, src, show_nat (unat dport),
      show_nat (unat sport)] p =
    Inr (p\<lparr>np_pid := pid, np_size := sz, np_remote_addr := d, np_local_addr := s,
           np_remote_port := dport, np_local_port := sport\<rparr>)"
  using assms
  by (simp add: store_property_def ip_string_to_uint32_def takeWhile_neq_none)

section \<open>Sums of events\<close>

fun on_events ::
  "tdh_api \<Rightarrow> (string \<Rightarrow> u32 option) \<Rightarrow> event_record list \<Rightarrow> (u32 \<rightharpoonup> NetworkStat) \<Rightarrow> (u32 \<rightharpoonup> NetworkStat) result" where
  "on_events api inet [] m = Inr m"
| "on_events api inet (ev # evs) m = bindR (OnEvent api inet ev m) (on_events api inet evs)"

text \<open>The packet an event counts as; none for one the decoder throws on.\<close>

definition packet_of :: "tdh_api \<Rightarrow> (string \<Rightarrow> u32 option) \<Rightarrow> event_record \<Rightarrow> NetworkPacketInfo option result" where
  "packet_of api inet ev =
     (case fst (get_network_packet api inet ev (DecoderContext_new None)) of
        Inr p \<Rightarrow> Inr (Some p)
      | Inl e \<Rightarrow> if is_std_exception e then Inr None else Inl e)"

lemma OnEvent_packet_of:
  "OnEvent api inet ev m = bindR (packet_of api inet ev) (\<lambda>po. Inr (case po of None \<Rightarrow> m | Some p \<Rightarrow> charge_packet p m))"
  by (simp add: OnEvent_def packet_of_def split: sum.split)

definition packets_of :: "tdh_api \<Rightarrow> (string \<Rightarrow> u32 option) \<Rightarrow> event_record list \<Rightarrow> NetworkPacketInfo list" where
  "packets_of api inet evs =
     List.map_filter (\<lambda>ev. case packet_of api inet ev of Inr po \<Rightarrow> po | Inl _ \<Rightarrow> None) evs"

definition packet_sum :: "bool \<Rightarrow> u32 \<Rightarrow> NetworkPacketInfo list \<Rightarrow> u64" where
  "packet_sum recv pid ps = sum_list (map (ucast \<circ> np_size) (filter (\<lambda>p. np_pid p = pid \<and> np_receive p = recv) ps))"

lemma sent_charge_packet:
  "sent (charge_packet p m) pid = sent m pid + packet_sum False pid [p]"
  "received (charge_packet p m) pid = received m pid + packet_sum True pid [p]"
  by (simp_all add: charge_packet_def sent_charge packet_sum_def)

lemma packet_sum_Cons: "packet_sum recv pid (p # ps) = packet_sum recv pid [p] + packet_sum recv pid ps"
  by (simp add: packet_sum_def)

lemma on_events_sum:
  assumes "list_all (\<lambda>ev. \<exists>po. packet_of api inet ev = Inr po) evs"
  shows "\<exists>m'. on_events api inet evs m = Inr m' \<and>
    (\<forall>pid. sent m' pid = sent m pid + packet_sum False pid (packets_of api inet evs) \<and>
           received m' pid = received m pid + packet_sum True pid (packets_of api inet evs))"
  using assms
proof (induction evs arbitrary: m)
  case Nil
  then show ?case by (simp add: packets_of_def packet_sum_def map_filter_simps)
next
  case (Cons ev evs)
  then obtain po where po: "packet_of api inet ev = Inr po" by auto
  let ?m = "case po of None \<Rightarrow> m | Some p \<Rightarrow> charge_packet p m"
  obtain m' where m': "on_events api inet evs ?m = Inr m'" and
    s: "\<forall>pid. sent m' pid = sent ?m pid + packet_sum False pid (packets_of api inet evs) \<and>
           received m' pid = received ?m pid + packet_sum True pid (packets_of api inet evs)"
    using Cons.IH [of ?m] Cons.prems by auto
  have ps: "packets_of api inet (ev # evs) = (case po of None \<Rightarrow> [] | Some p \<Rightarrow> [p]) @ packets_of api inet evs"
    by (simp add: packets_of_def map_filter_simps po split: option.split)
  show ?case
  proof (intro exI [of _ m'] conjI allI)
    show "on_events api inet (ev # evs) m = Inr m'" using m' by (simp add: OnEvent_packet_of po)
    fix pid
    show "sent m' pid = sent m pid + packet_sum False pid (packets_of api inet (ev # evs))"
      and "received m' pid = received m pid + packet_sum True pid (packets_of api inet (ev # evs))"
      using spec [OF s, of pid] packet_sum_Cons [of _ pid _ "packets_of api inet evs"]
      by (cases po; simp add: ps sent_charge_packet add.assoc)+
  qed
qed

section \<open>Properties\<close>

definition ipv4_keyword :: wstring where
  "ipv4_keyword = to_wstring ''KERNEL_NETWORK_KEYWORD_IPV4''"

text \<open>TDH finds the event's information once the buffer has the size it asked for.\<close>

definition known_event :: "tdh_api \<Rightarrow> event_record \<Rightarrow> trace_info \<Rightarrow> bool" where
  "known_event api ev tei \<longleftrightarrow>
     (case TdhGetEventInformation api ev None 0 of (status, cb, _) \<Rightarrow>
        status = ERROR_INSUFFICIENT_BUFFER \<and> cb \<noteq> 0 \<and>
        snd (snd (TdhGetEventInformation api ev None cb)) = tei)"

lemma get_network_packet_known:
  assumes "known_event api ev tei"
  shows "fst (get_network_packet api inet ev (DecoderContext_new None)) =
    (if ti_keyword tei \<noteq> ipv4_keyword then Inr NetworkPacketInfo_default
     else decode_properties api inet tei (pointer_size (er_flags ev)) (er_user_data ev) 0 [] 0
            (ti_properties tei)
            (NetworkPacketInfo_default\<lparr>np_receive :=
               \<not> wfind (ti_opcode tei) (to_wstring ''Data sent'') \<and>
               wfind (ti_opcode tei) (to_wstring ''Data received'')\<rparr>))"
  using assms
  by (auto simp: known_event_def get_network_packet_def DecoderContext_new_def ipv4_keyword_def
      Let_def NetworkPacketInfo_default_def split: prod.splits)

lemma get_network_packet_decoded:
  assumes "known_event api ev tei" and "ti_keyword tei = ipv4_keyword"
    and "shows_texts api tei (pointer_size (er_flags ev)) (er_user_data ev) 0 (ti_properties tei) ts"
    and "map fst ts = [show_nat (unat pid), show_nat (unat sz), dst, src, show_nat (unat dport), show_nat (unat sport)]"
    and "inet dst = Some d" and "inet src = Some s"
    and "CHR 0x00 \<notin> set dst" and "CHR 0x00 \<notin> set src"
  shows "fst (get_network_packet api inet ev (DecoderContext_new None)) =
      Inr \<lparr>np_pid = pid, np_size = sz, np_local_addr = s, np_local_port = sport, np_remote_addr = d,
           np_remote_port = dport,
           np_receive = (\<not> wfind (ti_opcode tei) (to_wstring ''Data sent'') \<and>
             wfind (ti_opcode tei) (to_wstring ''Data received''))\<rparr>"
proof -
  let ?p = "NetworkPacketInfo_default\<lparr>np_receive := \<not> wfind (ti_opcode tei) (to_wstring ''Data sent'') \<and>
      wfind (ti_opcode tei) (to_wstring ''Data received'')\<rparr>"
  have "CHR 0x00 \<notin> set t" if "t \<in> set (map fst ts)" for t
    using that assms(7,8) unfolding assms(4) by (auto simp: not_in_show_nat is_digit_def)
  then have n: "list_all (\<lambda>(t, _). CHR 0x00 \<notin> set t) ts" by (fastforce simp: list_all_iff)
  have "store_texts inet 0 (map fst ts) ?p = Inr (?p\<lparr>np_pid := pid, np_size := sz, np_remote_addr := d,
      np_local_addr := s, np_remote_port := dport, np_local_port := sport\<rparr>)"
    unfolding assms(4) by (rule store_texts_packet [OF assms(5-8)])
  from decode_properties_texts [OF assms(3) _ n this, of "[]"] show ?thesis
    using get_network_packet_known [OF assms(1), of inet] assms(2)
    by (simp add: NetworkPacketInfo_default_def)
qed


text \<open>
  Events are charged exactly: whatever they are, as long as TDH finds each one's information,
  what a process is said to have sent and received is the sum of the sizes of the packets that were
  decoded for it; an event on which the decoder throws counts nothing, and one of another keyword
  counts 0 bytes for process 0.
\<close>

lemma etw_events_charged:
  assumes "list_all (\<lambda>ev. \<exists>tei. known_event api ev tei) evs"
  shows "\<exists>m. on_events api inet evs Map.empty = Inr m \<and>
    (\<forall>pid. sent m pid = packet_sum False pid (packets_of api inet evs) \<and>
           received m pid = packet_sum True pid (packets_of api inet evs)) \<and>
    (\<forall>ev tei. known_event api ev tei \<longrightarrow> ti_keyword tei \<noteq> ipv4_keyword \<longrightarrow>
       packet_of api inet ev = Inr (Some NetworkPacketInfo_default))"
proof -
  have store: "store_property inet i t p = Inl e \<Longrightarrow> is_std_exception e" for i t p e
    by (auto simp: store_property_def ip_string_to_uint32_def bindR_Inl_iff split: if_splits option.splits)
  have dec: "decode_properties api inet tei ptr ud pos buf i epis p = Inl e \<Longrightarrow> is_std_exception e"
    for tei ptr ud pos buf i epis p e
    by (induction epis arbitrary: pos buf i p) (auto simp: bindR_Inl_iff store split: prod.splits)
  have "\<exists>po. packet_of api inet ev = Inr po" if "known_event api ev tei" for ev tei
    using get_network_packet_known [OF that, of inet] dec
    by (auto simp: packet_of_def split: sum.split)
  then have "list_all (\<lambda>ev. \<exists>po. packet_of api inet ev = Inr po) evs"
    using assms by (auto simp: list_all_iff)
  from on_events_sum [OF this, of Map.empty] show ?thesis
    using get_network_packet_known
    by (auto simp: packet_of_def sent_def received_def network_stat_of_def NetworkStat_default_def)
qed

text \<open>A concrete library: the type of a property is the index of its text; each takes four bytes.\<close>

definition etw_demo_texts :: "string list" where
  "etw_demo_texts = [''1234'', ''1400'', ''10.0.0.2'', ''10.0.0.1'', ''443'', ''51000'']"

definition etw_demo_info :: trace_info where
  "etw_demo_info = \<lparr>ti_keyword = ipv4_keyword, ti_opcode = to_wstring ''Data received. '',
     ti_properties = map (\<lambda>i. \<lparr>ep_in_type = i, ep_out_type = 0, ep_length = 4\<rparr>) [0, 1, 2, 3, 4, 5]\<rparr>"

definition etw_demo_tdh :: tdh_api where
  "etw_demo_tdh =
     \<lparr>TdhGetEventInformation = (\<lambda>ev path sz. if sz < 64 then (122, 64, etw_demo_info) else (0, 64, etw_demo_info)),
      TdhFormatProperty = (\<lambda>tei ptr in_type out_type len left user_data cb buf.
        let t = etw_demo_texts ! unat in_type
        in if length buf < length t + 1 then (122, of_nat (2 * (length t + 1)), buf, 0)
           else (0, cb, to_wstring t @ 0 # drop (length t + 1) buf, 4))\<rparr>"

definition etw_demo_inet :: "string \<Rightarrow> u32 option" where
  "etw_demo_inet s = (if s = ''10.0.0.1'' then Some 0x0100000A else if s = ''10.0.0.2'' then Some 0x0200000A else None)"

definition etw_demo_event :: event_record where
  "etw_demo_event = \<lparr>er_flags = 0x40, er_user_data = replicate 24 (CHR 0x00), er_rest = []\<rparr>"

lemma etw_demo_known: "known_event etw_demo_tdh etw_demo_event etw_demo_info"
  by (simp add: known_event_def etw_demo_tdh_def ERROR_INSUFFICIENT_BUFFER_def)

lemma etw_demo_shows:
  assumes "length (etw_demo_texts ! unat (ep_in_type epi)) < 100"
  shows "shows_text (format_property etw_demo_tdh tei ptr ud pos epi) (etw_demo_texts ! unat (ep_in_type epi)) 4"
  using assms by (auto simp: shows_text_def format_property_def etw_demo_tdh_def Let_def ERROR_INSUFFICIENT_BUFFER_def)

lemma etw_demo_shows_texts:
  "shows_texts etw_demo_tdh etw_demo_info 8 (er_user_data etw_demo_event) 0 (ti_properties etw_demo_info) (map (\<lambda>t. (t, 4)) etw_demo_texts)"
proof -
  have s: "shows_text (format_property etw_demo_tdh tei ptr ud pos \<lparr>ep_in_type = i, ep_out_type = 0, ep_length = 4\<rparr>)
      (etw_demo_texts ! unat i) 4" if "length (etw_demo_texts ! unat i) < 100" for tei ptr ud pos i
    using etw_demo_shows [of "\<lparr>ep_in_type = i, ep_out_type = 0, ep_length = 4\<rparr>"] that by simp
  show ?thesis
    using s [of 0] s [of 1] s [of 2] s [of 3] s [of 4] s [of 5]
    by (simp add: etw_demo_info_def etw_demo_texts_def)
qed

lemma etw_demo_facts:
  "ti_keyword etw_demo_info = ipv4_keyword"
  "pointer_size (er_flags etw_demo_event) = 8"
  "map fst (map (\<lambda>t. (t, 4 :: u16)) etw_demo_texts) =
      [show_nat (unat (1234 :: u32)), show_nat (unat (1400 :: u32)), ''10.0.0.2'', ''10.0.0.1'',
       show_nat (unat (443 :: u16)), show_nat (unat (51000 :: u16))]"
  "etw_demo_inet ''10.0.0.2'' = Some 0x0200000A" "etw_demo_inet ''10.0.0.1'' = Some 0x0100000A"
  "CHR 0x00 \<notin> set ''10.0.0.2''" "CHR 0x00 \<notin> set ''10.0.0.1''"
  "\<not> wfind (ti_opcode etw_demo_info) (to_wstring ''Data sent'')"
  "wfind (ti_opcode etw_demo_info) (to_wstring ''Data received'')"
  by (simp_all add: etw_demo_info_def pointer_size_def etw_demo_event_def EVENT_HEADER_FLAG_32_BIT_HEADER_def
      etw_demo_texts_def show_nat.simps digit_chars etw_demo_inet_def wfind_def to_wstring_def upt_rec)

lemmas etw_demo_premises =
  etw_demo_known etw_demo_facts(1) etw_demo_shows_texts [folded etw_demo_facts(2)] etw_demo_facts(3-7)


lemma etw_events_charged_witness:
  "\<exists>m. on_events etw_demo_tdh etw_demo_inet [etw_demo_event, etw_demo_event] Map.empty = Inr m \<and>
     received m 1234 = 2800 \<and> sent m 1234 = 0"
proof -
  have "list_all (\<lambda>ev. \<exists>tei. known_event etw_demo_tdh ev tei) [etw_demo_event, etw_demo_event]"
    using etw_demo_known by auto
  moreover have "packet_of etw_demo_tdh etw_demo_inet etw_demo_event =
     Inr (Some \<lparr>np_pid = 1234, np_size = 1400, np_local_addr = 0x0100000A, np_local_port = 51000,
          np_remote_addr = 0x0200000A, np_remote_port = 443, np_receive = True\<rparr>)"
    using get_network_packet_decoded [OF etw_demo_premises] etw_demo_facts(8,9) by (simp add: packet_of_def)
  ultimately show ?thesis
    using etw_events_charged [of etw_demo_tdh "[etw_demo_event, etw_demo_event]" etw_demo_inet]
    by (auto simp: packets_of_def map_filter_simps packet_sum_def)
qed

end
