(* ===== verification/Process_Table_Windows.thy ===== *)
theory Process_Table_Windows
  imports Process_Table Etw_Decoder
begin

text \<open>
  The Windows build of \<^verbatim>\<open>process_table.cpp\<close>. What the system calls answer is an argument; \<open>None\<close> is
  a call that fails. The list of processes is that of the snapshot.
\<close>

section \<open>Answers of the system\<close>

record FILETIME =
  dwLowDateTime :: u32
  dwHighDateTime :: u32

definition filetime_to_uint64_t :: "FILETIME \<Rightarrow> u64" where
  "filetime_to_uint64_t ft = push_bit 32 (ucast (dwHighDateTime ft)) OR ucast (dwLowDateTime ft)"

text \<open>Kernel and user time.\<close>

definition total_cpu_of :: "(FILETIME \<times> FILETIME) option \<Rightarrow> u64" where
  "total_cpu_of ft =
     (case ft of
        None \<Rightarrow> 0
      | Some (kernel_time, user_time) \<Rightarrow> filetime_to_uint64_t kernel_time + filetime_to_uint64_t user_time)"

definition get_system_total_cpu :: "(FILETIME \<times> FILETIME) option \<Rightarrow> u64" where
  "get_system_total_cpu ft = total_cpu_of ft"

text \<open>What is asked of an open process.\<close>

record open_process =
  op_name :: string
  op_times :: "(FILETIME \<times> FILETIME) option"
  op_memory :: "u64 option"
  op_io :: "(u64 \<times> u64) option"

definition get_process_total_cpu :: "open_process \<Rightarrow> u64" where
  "get_process_total_cpu h = total_cpu_of (op_times h)"

definition get_process_memory :: "open_process \<Rightarrow> u64" where
  "get_process_memory h = (case op_memory h of None \<Rightarrow> 0 | Some n \<Rightarrow> n)"

definition get_process_total_disk_usage :: "open_process \<Rightarrow> DiskStat" where
  "get_process_total_disk_usage h =
     (case op_io h of
        None \<Rightarrow> DiskStat_default
      | Some (r, w) \<Rightarrow> \<lparr>disk_read = Some r, disk_write = Some w\<rparr>)"

definition get_process_name :: "open_process \<Rightarrow> string" where
  "get_process_name h = op_name h"

section \<open>Connections\<close>

record tcp_row =
  dwOwningPid :: u32
  dwLocalAddr :: u32
  dwLocalPort :: u32
  dwRemoteAddr :: u32
  dwRemotePort :: u32

record SocketPid =
  sp_pid :: u32
  sp_local_ip :: u32
  sp_local_port :: u16
  sp_rem_ip :: u32
  sp_rem_port :: u16

definition ntohs :: "u16 \<Rightarrow> u16" where
  "ntohs w = load_bytes (rev (mem_bytes 2 w))"

fun socket_pid_loop :: "tcp_row list \<Rightarrow> SocketPid list \<Rightarrow> SocketPid list" where
  "socket_pid_loop [] list_socket_pid = list_socket_pid"
| "socket_pid_loop (row # rows) list_socket_pid =
     (let socket_pid = \<lparr>sp_pid = dwOwningPid row, sp_local_ip = dwLocalAddr row,
                        sp_local_port = ntohs (ucast (dwLocalPort row)), sp_rem_ip = dwRemoteAddr row,
                        sp_rem_port = ntohs (ucast (dwRemotePort row))\<rparr>
      in if sp_local_ip socket_pid = 0 then socket_pid_loop rows list_socket_pid
         else if sp_local_ip socket_pid AND 0xff = 127 then socket_pid_loop rows list_socket_pid
         else socket_pid_loop rows (list_socket_pid @ [socket_pid]))"

definition get_list_socket_pid :: "tcp_row list option \<Rightarrow> SocketPid list" where
  "get_list_socket_pid table = (case table of None \<Rightarrow> [] | Some rows \<Rightarrow> socket_pid_loop rows [])"

section \<open>The update\<close>

text \<open>The bytes of the network are taken off, as the counters of the process include them.\<close>

definition take_off :: "u64 option \<Rightarrow> u64 option \<Rightarrow> u64 option" where
  "take_off disk net =
     (case (disk, net) of (Some d, Some n) \<Rightarrow> Some (d - min d n) | _ \<Rightarrow> disk)"

definition windows_cpu_percent :: "u64 \<Rightarrow> u64 \<Rightarrow> u32 result" where
  "windows_cpu_percent current_cpu_delta system_cpu_delta =
     u32_of_double (round_double (total_cpu_percent current_cpu_delta system_cpu_delta * double_of (ucast CPU_UNIT)))"

definition windows_stats ::
  "u64 \<Rightarrow> (u32 \<rightharpoonup> NetworkStat) \<Rightarrow> u32 \<Rightarrow> open_process \<Rightarrow> ProcessLastStat \<Rightarrow>
     (ProcessStat \<times> ProcessLastStat) result" where
  "windows_stats system_cpu_delta net pid h prev =
     (let total_cpu = get_process_total_cpu h;
          mem = get_process_memory h;
          disk_stat = get_process_total_disk_usage h
      in bindR (windows_cpu_percent (total_cpu - ls_total_cpu_usage prev) system_cpu_delta) (\<lambda>percent.
           let network = network_stat_of net pid;
               delta = disk_delta disk_stat (ls_disk_stat prev)
           in Inr (\<lparr>cpu_usage_percent = percent, mem_usage = mem,
                    disk_usage = \<lparr>disk_read = take_off (disk_read delta) (network_recv network),
                                  disk_write = take_off (disk_write delta) (network_send network)\<rparr>,
                    network_usage = network\<rparr>,
                   \<lparr>ls_total_cpu_usage = total_cpu, ls_disk_stat = disk_stat\<rparr>)))"

text \<open>One process; \<open>h\<close> is what \<^verbatim>\<open>OpenProcess\<close> gives. Nothing here throws a \<^verbatim>\<open>std::exception\<close>.\<close>

definition windows_update_pid ::
  "(u32 \<Rightarrow> u32) \<Rightarrow> u64 \<Rightarrow> (u32 \<rightharpoonup> NetworkStat) \<Rightarrow> u32 \<Rightarrow> open_process option \<Rightarrow> ProcessTable \<Rightarrow>
     ProcessTable result" where
  "windows_update_pid mem system_cpu_delta net pid h pt =
     (let listing = (case list_table pt pid of None \<Rightarrow> ProcessListing_default (mem pid) | Some l \<Rightarrow> l);
          pt = pt\<lparr>list_table := (list_table pt)(pid \<mapsto> listing),
                 stat_table := (stat_table pt)(pid \<mapsto> stat_entry pt pid),
                 last_stat_table := (last_stat_table pt)(pid \<mapsto> last_stat_entry pt pid)\<rparr>
      in case h of
           None \<Rightarrow> Inr pt
         | Some hProcess \<Rightarrow>
             let listing = (if pl_process_name listing = []
                            then ProcessListing_new pid (get_process_name hProcess) [] else listing)
             in bindR (windows_stats system_cpu_delta net pid hProcess (last_stat_entry pt pid)) (\<lambda>(stat, prev).
                  Inr (pt\<lparr>list_table := (list_table pt)(pid \<mapsto> listing),
                          stat_table := (stat_table pt)(pid \<mapsto> stat),
                          last_stat_table := (last_stat_table pt)(pid \<mapsto> prev)\<rparr>)))"

fun windows_update_pids ::
  "(u32 \<Rightarrow> u32) \<Rightarrow> u64 \<Rightarrow> (u32 \<rightharpoonup> NetworkStat) \<Rightarrow> (u32 \<Rightarrow> open_process option) \<Rightarrow> u32 list \<Rightarrow>
     (u32 \<Rightarrow> bool) \<Rightarrow> ProcessTable \<Rightarrow> ((u32 \<Rightarrow> bool) \<times> ProcessTable) result" where
  "windows_update_pids mem system_cpu_delta net opened [] seen pt = Inr (seen, pt)"
| "windows_update_pids mem system_cpu_delta net opened (pid # pids) seen pt =
     bindR (windows_update_pid mem system_cpu_delta net pid (opened pid) pt) (\<lambda>pt'.
       windows_update_pids mem system_cpu_delta net opened pids (seen(pid := True)) pt')"

text \<open>
  \<open>last_system_cpu\<close> is the static variable, \<open>pid_network\<close> the map that ETW fills. The port map of the
  code is built from the connections but read by nobody.
\<close>

definition update_table_windows ::
  "((u32 \<rightharpoonup> ProcessListing) \<Rightarrow> u32 list) \<Rightarrow> (u32 \<Rightarrow> u32) \<Rightarrow> (FILETIME \<times> FILETIME) option \<Rightarrow> u32 list \<Rightarrow>
     (u32 \<Rightarrow> open_process option) \<Rightarrow> u64 \<times> (u32 \<rightharpoonup> NetworkStat) \<times> ProcessTable \<Rightarrow>
     (u64 \<times> (u32 \<rightharpoonup> NetworkStat) \<times> ProcessTable) result" where
  "update_table_windows ord mem system_times pids opened st =
     (case st of (last_system_cpu, pid_network, pt) \<Rightarrow>
        let system_cpu = get_system_total_cpu system_times;
            delta = system_cpu - last_system_cpu;
            system_cpu_delta = (if delta = 0 then 1 else delta);
            (net, pid_network') = get_pid_network_stat pid_network
        in bindR (windows_update_pids mem system_cpu_delta net opened pids (\<lambda>_. False) pt) (\<lambda>(seen, pt').
             Inr (system_cpu, pid_network', erase_loop seen (ord (list_table pt')) pt')))"

section \<open>What the update keeps\<close>

lemma take_off_le: "take_off (Some d) n = Some d' \<Longrightarrow> d' \<le> d"
  by (cases n) (auto simp: take_off_def word_sub_le)

lemma take_off_exact: "take_off (Some d) (Some n) = Some (if d \<le> n then 0 else d - n)"
  by (auto simp: take_off_def min_def)

lemma unat_ucast_u32 [simp]: "unat (ucast (w :: u32) :: u64) = unat w"
  using unsigned_less [of w, where ?'a = nat] by (simp add: unsigned_ucast_eq take_bit_nat_eq_self)

lemma filetime_value:
  "unat (filetime_to_uint64_t ft) = unat (dwHighDateTime ft) * 2 ^ 32 + unat (dwLowDateTime ft)"
proof -
  let ?h = "ucast (dwHighDateTime ft) :: u64" and ?l = "ucast (dwLowDateTime ft) :: u64"
  have "push_bit 32 ?h AND ?l = 0"
    by (rule bit_word_eqI) (auto simp: bit_simps dest: bit_imp_le_length)
  then have "filetime_to_uint64_t ft = push_bit 32 ?h + ?l"
    by (simp add: filetime_to_uint64_t_def disjunctive_add_eq_or)
  moreover have hl: "unat (dwHighDateTime ft) < 2 ^ 32" "unat (dwLowDateTime ft) < 2 ^ 32"
    using unsigned_less [of "dwHighDateTime ft", where ?'a = nat]
      unsigned_less [of "dwLowDateTime ft", where ?'a = nat] by simp_all
  moreover have "unat (push_bit 32 ?h) = unat (dwHighDateTime ft) * 2 ^ 32"
    using hl(1) by (simp add: push_bit_eq_mult unat_word_ariths)
  ultimately show ?thesis
    by (simp add: unat_word_ariths)
qed

end
