(* ===== verification/Proc_Laws.thy ===== *)
theory Proc_Laws
  imports Proc_Parsing
begin

text \<open>
  What the scanners of \<open>Proc_Parsing\<close> return on the texts the kernel writes: the arguments and
  the name of a program, its processor time and memory, its bytes read and written, the system's
  processor time, the inode of a socket link and the lines of \<^verbatim>\<open>/proc/net/tcp\<close>.
\<close>

named_theorems scan_simps \<open>evaluation of the scanners\<close>

section \<open>Scanning a known text\<close>

lemma drop_add_append: "drop p b = w @ r \<Longrightarrow> drop (p + length w) b = r"
  by (metis add.commute append_eq_conv_conj drop_drop)

lemma drop_Suc_Cons: "drop p b = c # r \<Longrightarrow> drop (Suc p) b = r"
  by (metis drop_Suc list.sel(3) tl_drop)

lemma drop_Cons_nth: "drop p b = c # r \<Longrightarrow> p < length b \<and> b ! p = c"
  by (metis drop_all list.distinct(1) not_le nth_via_drop)

lemma slice_append [scan_simps]: "drop p b = w @ r \<Longrightarrow> slice b p (p + length w) = w"
  by (simp add: slice_def)

lemma skip_to_append: "drop p b = w @ c # r \<Longrightarrow> c \<notin> set w \<Longrightarrow> skip_to c b p = Inr (p + length w)"
proof (induction w arbitrary: p)
  case Nil
  then show ?case using drop_Cons_nth [of p b c r] by (subst skip_to.simps) simp
next
  case (Cons x w)
  then have "drop (Suc p) b = w @ c # r" by (metis append_Cons drop_Suc_Cons)
  then show ?case
    using Cons.IH [of "Suc p"] Cons.prems drop_Cons_nth [of p b x "w @ c # r"]
    by (subst skip_to.simps) auto
qed

lemma skip_to_off: "c \<notin> set (drop p b) \<Longrightarrow> skip_to c b p = Inl (Undefined ''buffer bounds'')"
proof (induction c b p rule: skip_to.induct)
  case (1 c b p)
  show ?case
  proof (cases "length b \<le> p")
    case True
    then show ?thesis by (subst skip_to.simps) simp
  next
    case False
    then have d: "drop p b = b ! p # drop (p + 1) b" by (simp add: Cons_nth_drop_Suc)
    with 1 have "b ! p \<noteq> c" "c \<notin> set (drop (p + 1) b)" by auto
    with 1 False show ?thesis by (subst skip_to.simps) simp
  qed
qed

text \<open>Fields, each with its number, as the loop hands them to \<open>step\<close>.\<close>

fun steps :: "(nat \<Rightarrow> string \<Rightarrow> 's \<Rightarrow> 's) \<Rightarrow> nat \<Rightarrow> string list \<Rightarrow> 's \<Rightarrow> 's" where
  "steps step f [] s = s"
| "steps step f (w # ws) s = steps step (Suc f) ws (step f w s)"

definition field_word :: "string \<Rightarrow> bool" where
  "field_word w \<longleftrightarrow> w \<noteq> [] \<and> hd w \<noteq> NUL \<and> CHR '' '' \<notin> set w"

definition blank_after :: "string list \<Rightarrow> string" where
  "blank_after ws = concat (map (\<lambda>w. w @ '' '') ws)"

lemma blank_after_simps [simp]:
  "blank_after [] = []" "blank_after (w # ws) = w @ CHR '' '' # blank_after ws"
  by (simp_all add: blank_after_def)

lemma blank_after_append [simp]: "blank_after (vs @ ws) = blank_after vs @ blank_after ws"
  by (simp add: blank_after_def)

lemma fields_loop_blank:
  "drop p b = CHR '' '' # r \<Longrightarrow> f \<le> last_field \<Longrightarrow>
     fields_loop err last_field step b f p s = fields_loop err last_field step b f (Suc p) s"
  using drop_Cons_nth [of p b "CHR '' ''" r] by (subst fields_loop.simps) (simp add: NUL_def)

lemma fields_loop_word:
  assumes "drop p b = w @ CHR '' '' # r" and "field_word w" and "f \<le> last_field"
  shows "fields_loop err last_field step b f p s =
           fields_loop err last_field step b (Suc f) (p + length w) (step f w s)"
proof -
  from assms(2) obtain c w' where w: "w = c # w'" "c \<noteq> NUL" "c \<noteq> CHR '' ''"
    by (cases w) (auto simp: field_word_def)
  then have c: "p < length b" "b ! p = c" using assms(1) drop_Cons_nth [of p b c] by auto
  have "skip_to (CHR '' '') b p = Inr (p + length w)"
    using assms by (intro skip_to_append) (auto simp: field_word_def)
  then show ?thesis
    using c w(2,3) assms slice_append [OF assms(1)] by (subst fields_loop.simps) simp
qed

lemma fields_loop_words:
  "drop p b = blank_after ws @ r \<Longrightarrow> list_all field_word ws \<Longrightarrow> f + length ws = Suc last_field \<Longrightarrow>
     fields_loop err last_field step b f p s = Inr (steps step f ws s)"
proof (induction ws arbitrary: p f s)
  case Nil
  then show ?case by (subst fields_loop.simps) simp
next
  case (Cons w ws)
  then have d: "drop p b = w @ CHR '' '' # blank_after ws @ r" by simp
  have le: "f \<le> last_field" using Cons.prems by simp
  have d': "drop (p + length w) b = CHR '' '' # blank_after ws @ r" by (rule drop_add_append [OF d])
  have "fields_loop err last_field step b (Suc f) (p + length w) (step f w s) =
      Inr (steps step (Suc f) ws (step f w s))"
  proof (cases "Suc f \<le> last_field")
    case True
    show ?thesis
      unfolding fields_loop_blank [OF d' True]
      using Cons.prems drop_Suc_Cons [OF d'] by (intro Cons.IH) simp_all
  next
    case False
    then have "ws = []" using Cons.prems by (cases ws) simp_all
    with False show ?thesis by (subst fields_loop.simps) simp
  qed
  then show ?case
    unfolding fields_loop_word [OF d conjunct1 [OF Cons.prems(2) [unfolded list.pred_inject]] le] by simp
qed

lemma fields_loop_off:
  "drop p b = blank_after ws @ x \<Longrightarrow> list_all field_word ws \<Longrightarrow> field_word x \<Longrightarrow>
     f + length ws \<le> last_field \<Longrightarrow>
     fields_loop err last_field step b f p s = Inl (Undefined ''buffer bounds'')"
proof (induction ws arbitrary: p f s)
  case Nil
  then obtain c x' where x: "x = c # x'" "c \<noteq> NUL" "c \<noteq> CHR '' ''" by (cases x) (auto simp: field_word_def)
  have "skip_to (CHR '' '') b p = Inl (Undefined ''buffer bounds'')"
    using Nil by (intro skip_to_off) (simp add: field_word_def)
  then show ?case
    using Nil x drop_Cons_nth [of p b c x'] by (subst fields_loop.simps) simp
next
  case (Cons w ws)
  then have d: "drop p b = w @ CHR '' '' # blank_after ws @ x" by simp
  have le: "f \<le> last_field" "Suc f \<le> last_field" using Cons.prems by simp_all
  have d': "drop (p + length w) b = CHR '' '' # blank_after ws @ x" by (rule drop_add_append [OF d])
  show ?case
    unfolding fields_loop_word [OF d conjunct1 [OF Cons.prems(2) [unfolded list.pred_inject]] le(1)]
      fields_loop_blank [OF d' le(2)]
    using Cons.prems drop_Suc_Cons [OF d'] by (intro Cons.IH) simp_all
qed

lemma steps_append: "steps step f (vs @ ws) s = steps step (f + length vs) ws (steps step f vs s)"
  by (induction vs arbitrary: f s) simp_all

lemma steps_id:
  "(\<And>k w s. f \<le> k \<Longrightarrow> k < f + length ws \<Longrightarrow> step k w s = s) \<Longrightarrow> steps step f ws s = s"
  by (induction ws arbitrary: f) simp_all

lemma read_file_Some:
  "proc_read os path = Some d \<Longrightarrow> d \<noteq> [] \<Longrightarrow> length d < BUFFER_SIZE \<Longrightarrow>
     read_file os path buffer = (Some (length d), d @ NUL # drop (length d + 1) buffer)"
  by (simp add: read_file_def Let_def BUFFER_SIZE_def)

section \<open>Processor time and memory\<close>

text \<open>A program name whose parentheses close in the order they open.\<close>

fun closed_parens :: "int \<Rightarrow> string \<Rightarrow> bool" where
  "closed_parens d [] = (d = 1)"
| "closed_parens d (c # cs) =
     (let d' = (if c = CHR ''('' then d + 1 else if c = CHR '')'' then d - 1 else d)
      in 0 < d' \<and> closed_parens d' cs)"

lemma skip_parens_closed:
  "drop p b = name @ CHR '')'' # r \<Longrightarrow> closed_parens d name \<Longrightarrow>
     skip_parens b d p = Inr (Suc (p + length name))"
proof (induction name arbitrary: p d)
  case Nil
  then show ?case using drop_Cons_nth [of p b "CHR '')''" r] by (subst skip_parens.simps) simp
next
  case (Cons c name)
  then have b: "p < length b" "b ! p = c" using drop_Cons_nth [of p b c "name @ CHR '')'' # r"] by auto
  have "drop (Suc p) b = name @ CHR '')'' # r" using Cons.prems(1) by (metis append_Cons drop_Suc_Cons)
  with Cons.IH [of "Suc p"] Cons.prems(2) b show ?case
    by (subst skip_parens.simps) (simp add: Let_def split: if_splits)
qed

text \<open>With one parenthesis more open than will ever be closed, the scan leaves the buffer.\<close>

lemma skip_parens_open:
  "CHR '')'' \<notin> set (drop p b) \<Longrightarrow> 0 < d \<Longrightarrow> skip_parens b d p = Inl (Undefined ''buffer bounds'')"
proof (induction b d p rule: skip_parens.induct)
  case (1 b d p)
  show ?case
  proof (cases "length b \<le> p")
    case True
    then show ?thesis by (subst skip_parens.simps) simp
  next
    case False
    then have dr: "drop p b = b ! p # drop (p + 1) b" by (simp add: Cons_nth_drop_Suc)
    with 1 have "b ! p \<noteq> CHR '')''" "CHR '')'' \<notin> set (drop (p + 1) b)" by auto
    with 1 False show ?thesis by (subst skip_parens.simps) (simp add: Let_def)
  qed
qed

lemma skip_parens_pass:
  "drop p b = w @ r \<Longrightarrow> CHR ''('' \<notin> set w \<Longrightarrow> CHR '')'' \<notin> set w \<Longrightarrow> 0 < d \<Longrightarrow>
     skip_parens b d p = skip_parens b d (p + length w)"
proof (induction w arbitrary: p)
  case Nil
  then show ?case by simp
next
  case (Cons c w)
  then have b: "p < length b" "b ! p = c" using drop_Cons_nth [of p b c "w @ r"] by auto
  have d: "drop (Suc p) b = w @ r" using Cons.prems(1) by (metis append_Cons drop_Suc_Cons)
  from Cons.IH [OF d] Cons.prems(2-4) b show ?case
    by (subst skip_parens.simps) (auto simp: Let_def)
qed

lemma skip_parens_char:
  "drop p b = c # r \<Longrightarrow> d' = (if c = CHR ''('' then d + 1 else if c = CHR '')'' then d - 1 else d) \<Longrightarrow>
     0 < d' \<Longrightarrow> skip_parens b d p = skip_parens b d' (Suc p)"
  using drop_Cons_nth [of p b c r] by (subst skip_parens.simps) (auto simp: Let_def)

text \<open>The line of \<^verbatim>\<open>/proc/pid/stat\<close>: number, name, and the fields from the third on.\<close>

definition stat_line :: "u32 \<Rightarrow> string \<Rightarrow> string list \<Rightarrow> string \<Rightarrow> string" where
  "stat_line pid name ws last_word =
     show_nat (unat pid) @ '' ('' @ name @ '') '' @ blank_after ws @ last_word @ [CHR 0x0A]"

lemma stat_line_skip:
  assumes "b = stat_line pid name ws x @ r" and "closed_parens 1 name"
  shows "bindR (skip_to (CHR '' '') b 0) (\<lambda>p. bindR (skip_parens b 0 (p + 1)) f) =
           f (length (show_nat (unat pid)) + length name + 3)"
    and "drop (length (show_nat (unat pid)) + length name + 4) b = blank_after ws @ x @ CHR 0x0A # r"
proof -
  let ?n = "length (show_nat (unat pid))"
  have d0: "drop 0 b = show_nat (unat pid) @ CHR '' '' # CHR ''('' # name @ '') '' @ blank_after ws @ x @ CHR 0x0A # r"
    using assms(1) by (simp add: stat_line_def)
  then have s0: "skip_to (CHR '' '') b 0 = Inr ?n"
    using skip_to_append [OF d0] by (simp add: not_in_show_nat)
  have d1: "drop (Suc ?n) b = CHR ''('' # name @ '') '' @ blank_after ws @ x @ CHR 0x0A # r"
    using drop_add_append [OF d0] by (simp add: drop_Suc_Cons)
  have d2: "drop (Suc (Suc ?n)) b = name @ CHR '')'' # CHR '' '' # blank_after ws @ x @ CHR 0x0A # r"
    using drop_Suc_Cons [OF d1] by simp
  have "skip_parens b 0 (Suc ?n) = skip_parens b 1 (Suc (Suc ?n))"
    by (rule skip_parens_char [OF d1]) simp_all
  also have "\<dots> = Inr (?n + length name + 3)"
    using skip_parens_closed [OF d2 assms(2)] by simp
  finally show "bindR (skip_to (CHR '' '') b 0) (\<lambda>p. bindR (skip_parens b 0 (p + 1)) f) =
      f (?n + length name + 3)"
    by (simp add: s0)
  have d3: "drop (?n + length name + 3) b = CHR '' '' # blank_after ws @ x @ CHR 0x0A # r"
    using drop_Suc_Cons [OF drop_add_append [OF d2]] by (simp add: eval_nat_numeral)
  show "drop (?n + length name + 4) b = blank_after ws @ x @ CHR 0x0A # r"
    using drop_Suc_Cons [OF d3] by (simp add: eval_nat_numeral)
qed

lemma pid_stat_steps:
  assumes "length u = 11" and "length v = 9" and "length z = 28"
  shows "steps (pid_stat_step page_size) 3 (u @ show_nat (unat utime) # v @ show_nat (unat rss) # z)
           \<lparr>cm_total_cpu_usage = 0, cm_mem_usage = 0\<rparr> =
         \<lparr>cm_total_cpu_usage = utime, cm_mem_usage = rss * page_size\<rparr>"
proof -
  have a: "steps (pid_stat_step page_size) 3 u s = s" for s
    using assms(1) by (intro steps_id) (simp add: pid_stat_step_def)
  have b: "steps (pid_stat_step page_size) 15 v s = s" for s
    using assms(2) by (intro steps_id) (simp add: pid_stat_step_def)
  have c: "steps (pid_stat_step page_size) 25 z s = s" for s
    using assms(3) by (intro steps_id) (simp add: pid_stat_step_def)
  show ?thesis
    using assms by (simp add: steps_append a b c) (simp add: pid_stat_step_def)
qed

lemma read_pid_stat_line:
  assumes os: "proc_read os (pid_path pid ''/stat'') = Some line" "length line < BUFFER_SIZE"
    and line: "line = stat_line pid name ws x" and name: "closed_parens 1 name"
  shows "fst (read_pid_stat_cpu_mem page_size os pid buffer) =
           fields_loop (''error while parsing '' @ show_nat (unat pid) @ '' stat'') 52
             (pid_stat_step page_size) (line @ NUL # drop (length line + 1) buffer) 3
             (length (show_nat (unat pid)) + length name + 4)
             \<lparr>cm_total_cpu_usage = 0, cm_mem_usage = 0\<rparr>"
proof -
  have "line \<noteq> []" by (simp add: line stat_line_def)
  then have read: "read_file os (pid_path pid ''/stat'') buffer =
      (Some (length line), line @ NUL # drop (length line + 1) buffer)"
    using os read_file_Some [of os _ line] by simp
  have b: "line @ NUL # drop (length line + 1) buffer =
      stat_line pid name ws x @ NUL # drop (length line + 1) buffer" by (simp add: line)
  have "length (show_nat (unat pid)) + length name + 3 + 1 =
      length (show_nat (unat pid)) + length name + 4" by simp
  then show ?thesis
    unfolding read_pid_stat_cpu_mem_def read option.case prod.case stat_line_skip(1) [OF b name]
    by (simp only: fst_conv)
qed

lemma read_pid_stat_closed:
  assumes os: "proc_read os (pid_path pid ''/stat'') = Some line" "length line < BUFFER_SIZE"
    and line: "line = stat_line pid name ws x" and name: "closed_parens 1 name"
    and ws: "ws = u @ show_nat (unat utime) # v @ show_nat (unat rss) # z"
      "length u = 11" "length v = 9" "length z = 27" "list_all field_word ws" "field_word x"
  shows "fst (read_pid_stat_cpu_mem page_size os pid buffer) =
     (if CHR '' '' \<in> set (drop (length line + 1) buffer)
      then Inr \<lparr>cm_total_cpu_usage = utime, cm_mem_usage = rss * page_size\<rparr>
      else Inl (Undefined ''buffer bounds''))"
proof -
  let ?stale = "drop (length line + 1) buffer"
  let ?b = "line @ NUL # ?stale"
  have b: "?b = stat_line pid name ws x @ NUL # ?stale" by (simp add: line)
  note d = stat_line_skip(2) [OF b name]
  note r = read_pid_stat_line [OF os line name]
  have len: "length ws = 49" using ws(1-4) by simp
  show ?thesis
  proof (cases "CHR '' '' \<in> set ?stale")
    case True
    then obtain s1 s2 where s: "?stale = s1 @ CHR '' '' # s2" "CHR '' '' \<notin> set s1" by (meson split_list_first)
    let ?x = "x @ CHR 0x0A # NUL # s1"
    have x: "field_word ?x" using ws(6) s(2) by (auto simp: field_word_def NUL_def)
    have "drop (length (show_nat (unat pid)) + length name + 4) ?b = blank_after (ws @ [?x]) @ s2"
      using d s(1) by simp
    then have "fst (read_pid_stat_cpu_mem page_size os pid buffer) =
        Inr (steps (pid_stat_step page_size) 3 (ws @ [?x]) \<lparr>cm_total_cpu_usage = 0, cm_mem_usage = 0\<rparr>)"
      unfolding r by (rule fields_loop_words) (use ws(5) x len in simp_all)
    also have "\<dots> = Inr \<lparr>cm_total_cpu_usage = utime, cm_mem_usage = rss * page_size\<rparr>"
      using pid_stat_steps [OF ws(2,3), of "z @ [?x]"] ws(1,4) by simp
    finally show ?thesis using True by simp
  next
    case False
    have x: "field_word (x @ CHR 0x0A # NUL # ?stale)"
      using ws(6) False by (auto simp: field_word_def NUL_def)
    have "fst (read_pid_stat_cpu_mem page_size os pid buffer) = Inl (Undefined ''buffer bounds'')"
      unfolding r by (rule fields_loop_off [where ws = ws]) (use d ws(5) x len in simp_all)
    then show ?thesis using False by simp
  qed
qed

lemma read_pid_stat_open:
  assumes os: "proc_read os (pid_path pid ''/stat'') = Some line" "length line < BUFFER_SIZE"
    and line: "line = stat_line pid (a @ ''('' @ c) ws x"
    and plain: "set (a @ c) \<inter> {CHR ''('', CHR '')''} = {}"
    and rest: "CHR '')'' \<notin> set (blank_after ws @ x @ drop (length line + 1) buffer)"
  shows "fst (read_pid_stat_cpu_mem page_size os pid buffer) = Inl (Undefined ''buffer bounds'')"
proof -
  let ?n = "length (show_nat (unat pid))"
  define b where "b = line @ NUL # drop (length line + 1) buffer"
  have read: "read_file os (pid_path pid ''/stat'') buffer = (Some (length line), b)"
    using os read_file_Some [of os _ line] by (simp add: b_def line stat_line_def)
  define t where "t = CHR '' '' # blank_after ws @ x @ CHR 0x0A # NUL # drop (length line + 1) buffer"
  have d0: "drop 0 b = show_nat (unat pid) @ CHR '' '' # CHR ''('' # a @ CHR ''('' # c @ CHR '')'' # t"
    by (simp add: b_def line stat_line_def t_def)
  then have s0: "skip_to (CHR '' '') b 0 = Inr ?n"
    using skip_to_append [OF d0] by (simp add: not_in_show_nat)
  have d1: "drop (Suc ?n) b = CHR ''('' # a @ CHR ''('' # c @ CHR '')'' # t"
    using drop_add_append [OF d0] by (simp add: drop_Suc_Cons)
  note d2 = drop_Suc_Cons [OF d1] note d3 = drop_add_append [OF d2] note d4 = drop_Suc_Cons [OF d3]
  note d5 = drop_add_append [OF d4] note d6 = drop_Suc_Cons [OF d5]
  have "CHR '')'' \<notin> set t" using rest by (simp add: t_def NUL_def)
  then have "skip_parens b 1 (Suc (Suc (Suc (Suc ?n) + length a) + length c)) =
      Inl (Undefined ''buffer bounds'')"
    using d6 by (intro skip_parens_open) simp_all
  then have "skip_parens b 0 (Suc ?n) = Inl (Undefined ''buffer bounds'')"
    using skip_parens_char [OF d1 refl] skip_parens_pass [OF d2] skip_parens_char [OF d3 refl]
      skip_parens_pass [OF d4] skip_parens_char [OF d5 refl] plain by auto
  then show ?thesis by (simp add: read_pid_stat_cpu_mem_def read s0)
qed

section \<open>The processor time of the system\<close>

text \<open>
  The first line of \<^verbatim>\<open>/proc/stat\<close> with its ten numbers (user, nice, system, idle, iowait, irq,
  softirq, steal, guest, guest_nice) and the first word of the next line.
\<close>

definition cpu_text :: "u64 list \<Rightarrow> string \<Rightarrow> string" where
  "cpu_text ns tail =
     ''cpu  '' @ blank_after (map (\<lambda>n. show_nat (unat n)) (butlast ns)) @
     show_nat (unat (last ns)) @ [CHR 0x0A] @ tail"

lemma field_word_show [simp]: "field_word (show_nat n)"
proof -
  have "hd (show_nat n) \<in> set (show_nat n)" by simp
  moreover have "NUL \<notin> set (show_nat n)" "CHR '' '' \<notin> set (show_nat n)"
    by (intro not_in_show_nat; simp add: NUL_def is_digit_def)+
  ultimately show ?thesis unfolding field_word_def using show_nat_nonempty by metis
qed

lemma from_chars_show_nat_append:
  fixes w :: "'a::len word"
  assumes "\<not> is_digit c"
  shows "from_chars (show_nat (unat w) @ c # r) old = w"
proof -
  have "takeWhile is_digit (show_nat (unat w) @ c # r) = show_nat (unat w)"
    using assms show_nat_digits [of "unat w"] by (simp add: list_all_iff)
  then show ?thesis by (simp add: from_chars_def Let_def)
qed

lemma stat_steps_sum:
  "list_all2 (\<lambda>w n. \<forall>old. from_chars w old = (n :: u64)) ws ns \<Longrightarrow> 2 \<le> f \<Longrightarrow> f + length ws \<le> 12 \<Longrightarrow>
     steps (stat_step mem) f ws s =
       s\<lparr>cpu_usage := cpu_usage s + sum_list ns,
         cpu_idle := (if f \<le> 4 \<and> 4 < f + length ns then ns ! (4 - f) else cpu_idle s)\<rparr>"
proof (induction arbitrary: f s rule: list_all2_induct)
  case Nil
  show ?case by auto
next
  case (Cons w ws n ns)
  have "stat_step mem f w s =
      s\<lparr>cpu_usage := cpu_usage s + n, cpu_idle := (if f = 4 then n else cpu_idle s)\<rparr>"
    using Cons by (simp add: stat_step_def Let_def)
  then have "steps (stat_step mem) f (w # ws) s = steps (stat_step mem) (Suc f) ws
      (s\<lparr>cpu_usage := cpu_usage s + n, cpu_idle := (if f = 4 then n else cpu_idle s)\<rparr>)"
    by simp
  also have "\<dots> = s\<lparr>cpu_usage := cpu_usage s + n + sum_list ns,
      cpu_idle := (if Suc f \<le> 4 \<and> 4 < Suc f + length ns then ns ! (4 - Suc f)
                   else if f = 4 then n else cpu_idle s)\<rparr>"
    using Cons.prems by (subst Cons.IH) simp_all
  also have "\<dots> = s\<lparr>cpu_usage := cpu_usage s + sum_list (n # ns),
      cpu_idle := (if f \<le> 4 \<and> 4 < f + length (n # ns) then (n # ns) ! (4 - f) else cpu_idle s)\<rparr>"
    by (auto simp: nth_Cons' not_le add.assoc)
  finally show ?case .
qed

lemma read_stat_cpu_text:
  assumes os: "proc_read os ''/proc/stat'' = Some (cpu_text ns tail)"
    and len: "length (cpu_text ns tail) < BUFFER_SIZE" "length ns = 10" and tail: "CHR '' '' \<in> set tail"
  shows "fst (read_stat_cpu mem os buffer) = Inr \<lparr>cpu_usage = sum_list ns, cpu_idle = ns ! 2\<rparr>"
proof -
  define b where "b = cpu_text ns tail @ NUL # drop (length (cpu_text ns tail) + 1) buffer"
  have ne: "cpu_text ns tail \<noteq> []" by (simp add: cpu_text_def)
  have read: "read_file os ''/proc/stat'' buffer = (Some (length (cpu_text ns tail)), b)"
    unfolding b_def by (rule read_file_Some [OF os ne len(1)])
  obtain t1 t2 where t: "tail = t1 @ CHR '' '' # t2" "CHR '' '' \<notin> set t1" using tail by (meson split_list_first)
  let ?show = "map (\<lambda>n. show_nat (unat n))"
  define ws where "ws = ?show (butlast ns) @ [show_nat (unat (last ns)) @ CHR 0x0A # t1]"
  obtain r where d: "drop 0 b = ''cpu'' @ CHR '' '' # CHR '' '' # blank_after ws @ r"
    using t(1) by (simp add: b_def cpu_text_def ws_def)
  have d1: "drop 3 b = CHR '' '' # CHR '' '' # blank_after ws @ r"
    using drop_add_append [OF d] by (simp add: eval_nat_numeral)
  have d2: "drop 4 b = CHR '' '' # blank_after ws @ r" and d3: "drop 5 b = blank_after ws @ r"
    using drop_Suc_Cons [OF d1] drop_Suc_Cons [OF drop_Suc_Cons [OF d1]] by (simp_all add: eval_nat_numeral)
  have cpu: "field_word ''cpu''" by (simp add: field_word_def NUL_def)
  have w: "list_all field_word ws"
    using t(2) by (auto simp: ws_def list_all_iff field_word_def not_in_show_nat
        dest: field_word_show [unfolded field_word_def, THEN conjunct2, THEN conjunct1, THEN notE])
  have ns: "ns = butlast ns @ [last ns]" using len(2) by (cases ns rule: rev_cases) simp_all
  have "list_all2 (\<lambda>w n. \<forall>old. from_chars w old = n) ws (butlast ns @ [last ns])"
    unfolding ws_def
    by (auto intro!: list_all2_appendI simp: list.rel_map list.rel_refl from_chars_show_nat_append)
  then have all: "list_all2 (\<lambda>w n. \<forall>old. from_chars w old = n) ws ns" using ns by simp
  have le: "(1::nat) \<le> 11" "(2::nat) \<le> 11" by simp_all
  have "length ws = 10" using len(2) by (simp add: ws_def)
  then have f3: "fields_loop err 11 step b 2 5 s = Inr (steps step 2 ws s)" for err step and s :: CpuStat
    by (intro fields_loop_words [OF d3 w]) simp
  have f2: "fields_loop err 11 step b 2 4 s = Inr (steps step 2 ws s)" for err step and s :: CpuStat
    unfolding fields_loop_blank [OF d2 le(2)] by (simp add: f3)
  have f1: "fields_loop err 11 step b 2 3 s = Inr (steps step 2 ws s)" for err step and s :: CpuStat
    unfolding fields_loop_blank [OF d1 le(2)] by (simp add: f2)
  have "fields_loop err 11 step b 1 0 s = Inr (steps step 2 ws (step 1 ''cpu'' s))"
    for err step and s :: CpuStat
    unfolding fields_loop_word [OF d cpu le(1)]
    by (simp add: f1 [unfolded numeral_2_eq_2 numeral_3_eq_3] numeral_2_eq_2)
  moreover have "stat_step mem 1 ''cpu'' s = s" for s by (simp add: stat_step_def)
  ultimately have "fst (read_stat_cpu mem os buffer) = Inr (steps (stat_step mem) 2 ws CpuStat_default)"
    by (simp only: read_stat_cpu_def read prod.case option.case fst_conv)
  also have "\<dots> = Inr \<lparr>cpu_usage = sum_list ns, cpu_idle = ns ! 2\<rparr>"
    using all len(2) list_all2_lengthD [OF all] by (simp add: stat_steps_sum CpuStat_default_def)
  finally show ?thesis .
qed

section \<open>Bytes read and written\<close>

definition io_text :: "string list \<Rightarrow> string \<Rightarrow> u64 \<Rightarrow> string \<Rightarrow> u64 \<Rightarrow> string \<Rightarrow> string" where
  "io_text lines k5 r k6 w tail =
     concat (map (\<lambda>l. l @ [CHR 0x0A]) lines) @ k5 @ '' '' @ show_nat (unat r) @ [CHR 0x0A] @
     k6 @ '' '' @ show_nat (unat w) @ [CHR 0x0A] @ tail"

lemma io_loop_skip:
  "drop p b = concat (map (\<lambda>l. l @ [CHR 0x0A]) lines) @ r \<Longrightarrow> list_all (\<lambda>l. CHR 0x0A \<notin> set l) lines \<Longrightarrow>
     line + length lines \<le> 5 \<Longrightarrow>
     \<exists>q. drop q b = r \<and> io_loop mem b (todo + length lines) line p s = io_loop mem b todo (line + length lines) q s"
proof (induction lines arbitrary: p line)
  case Nil
  then show ?case by auto
next
  case (Cons l lines)
  then have d: "drop p b = l @ CHR 0x0A # concat (map (\<lambda>l. l @ [CHR 0x0A]) lines) @ r" by simp
  have "skip_to (CHR 0x0A) b p = Inr (p + length l)"
    using Cons.prems(2) by (intro skip_to_append [OF d]) simp
  then have "io_loop mem b (todo + length (l # lines)) line p s =
      io_loop mem b (todo + length lines) (Suc line) (Suc (p + length l)) s"
    using Cons.prems(3) by simp
  moreover have "drop (Suc (p + length l)) b = concat (map (\<lambda>l. l @ [CHR 0x0A]) lines) @ r"
    by (rule drop_Suc_Cons [OF drop_add_append [OF d]])
  ultimately show ?case
    using Cons.IH [of "Suc (p + length l)" "Suc line"] Cons.prems(2,3) by simp
qed

lemma io_loop_value:
  assumes "drop p b = k @ '' '' @ show_nat (unat (n :: u64)) @ [CHR 0x0A] @ r" and "CHR '' '' \<notin> set k"
    and "line = 5 \<or> line = 6"
  shows "\<exists>q. drop q b = r \<and> io_loop mem b (Suc todo) line p s =
    io_loop mem b todo (line + 1) q
      (if line = 5 then s\<lparr>disk_read := Some n\<rparr> else s\<lparr>disk_write := Some n\<rparr>)"
proof -
  have d: "drop p b = k @ CHR '' '' # show_nat (unat n) @ CHR 0x0A # r" using assms(1) by simp
  have d1: "drop (Suc (p + length k)) b = show_nat (unat n) @ CHR 0x0A # r"
    by (rule drop_Suc_Cons [OF drop_add_append [OF d]])
  let ?q = "Suc (p + length k) + length (show_nat (unat n))"
  have "skip_to (CHR '' '') b p = Inr (p + length k)" by (rule skip_to_append [OF d assms(2)])
  moreover have "skip_to (CHR 0x0A) b (Suc (p + length k)) = Inr ?q"
    by (rule skip_to_append [OF d1]) (simp add: not_in_show_nat)
  moreover have "drop (Suc ?q) b = r" by (rule drop_Suc_Cons [OF drop_add_append [OF d1]])
  ultimately show ?thesis
    using assms(3) slice_append [OF d1] by (intro exI [of _ "Suc ?q"]) (auto simp: Let_def)
qed

lemma read_pid_io_text:
  assumes os: "proc_read os (pid_path pid ''/io'') = Some (io_text lines k5 r k6 w tail)"
    and len: "length (io_text lines k5 r k6 w tail) < BUFFER_SIZE" "length lines = 4"
    and plain: "list_all (\<lambda>l. CHR 0x0A \<notin> set l) lines" "CHR '' '' \<notin> set k5" "CHR '' '' \<notin> set k6"
  shows "fst (read_pid_io mem os pid buffer) = Inr \<lparr>disk_read = Some r, disk_write = Some w\<rparr>"
proof -
  let ?t = "io_text lines k5 r k6 w tail"
  define b where "b = ?t @ NUL # drop (length ?t + 1) buffer"
  have ne: "?t \<noteq> []" by (simp add: io_text_def)
  have read: "read_file os (pid_path pid ''/io'') buffer = (Some (length ?t), b)"
    unfolding b_def by (rule read_file_Some [OF os ne len(1)])
  have d0: "drop 0 b = concat (map (\<lambda>l. l @ [CHR 0x0A]) lines) @ k5 @ '' '' @ show_nat (unat r) @ [CHR 0x0A] @
      k6 @ '' '' @ show_nat (unat w) @ [CHR 0x0A] @ tail @ NUL # drop (length ?t + 1) buffer"
    by (simp add: b_def) (simp add: io_text_def)
  obtain q1 where q1: "drop q1 b = k5 @ '' '' @ show_nat (unat r) @ [CHR 0x0A] @
      k6 @ '' '' @ show_nat (unat w) @ [CHR 0x0A] @ tail @ NUL # drop (length ?t + 1) buffer"
    and e1: "io_loop mem b (2 + length lines) 1 0 DiskStat_default =
      io_loop mem b 2 (1 + length lines) q1 DiskStat_default"
    using io_loop_skip [OF d0 plain(1), of 1 mem 2 DiskStat_default] len(2) by auto
  obtain q2 where q2: "drop q2 b = k6 @ '' '' @ show_nat (unat w) @ [CHR 0x0A] @
      tail @ NUL # drop (length ?t + 1) buffer"
    and e2: "io_loop mem b (Suc 1) 5 q1 DiskStat_default =
      io_loop mem b 1 6 q2 \<lparr>disk_read = Some r, disk_write = None\<rparr>"
    using io_loop_value [OF q1 plain(2), of 5 mem 1 DiskStat_default] by (auto simp: DiskStat_default_def)
  obtain q3 where e3: "io_loop mem b (Suc 0) 6 q2 \<lparr>disk_read = Some r, disk_write = None\<rparr> =
      io_loop mem b 0 7 q3 \<lparr>disk_read = Some r, disk_write = Some w\<rparr>"
    using io_loop_value [OF q2 plain(3), of 6 mem 0 "\<lparr>disk_read = Some r, disk_write = None\<rparr>"] by auto
  have "io_loop mem b 6 1 0 DiskStat_default = Inr \<lparr>disk_read = Some r, disk_write = Some w\<rparr>"
    using e1 e2 e3 len(2) by (simp add: numeral_2_eq_2)
  then show ?thesis by (simp only: read_pid_io_def read prod.case option.case fst_conv)
qed

section \<open>Arguments and program name\<close>

fun pieces :: "string \<Rightarrow> string \<Rightarrow> string list" where
  "pieces cur [] = []"
| "pieces cur (c # cs) = (if c = NUL then cur # pieces [] cs else pieces (cur @ [c]) cs)"

lemma slice_Suc: "i \<le> j \<Longrightarrow> j < length s \<Longrightarrow> slice s i (Suc j) = slice s i j @ [s ! j]"
  by (simp add: slice_def Suc_diff_le take_Suc_conv_app_nth)

lemma slice_empty [simp]: "slice s i i = []"
  by (simp add: slice_def)

lemma cmdline_loop_pieces:
  "now \<le> p \<Longrightarrow> p + todo \<le> length b \<Longrightarrow>
     cmdline_loop b todo p now args = args @ pieces (slice b now p) (slice b p (p + todo))"
proof (induction todo arbitrary: p now args)
  case 0
  then show ?case by (simp add: slice_def)
next
  case (Suc todo)
  have "slice b p (p + Suc todo) = b ! p # slice b (Suc p) (Suc p + todo)"
    using Suc.prems by (simp add: slice_def Cons_nth_drop_Suc [symmetric])
  then show ?case
    using Suc.IH [of "Suc p" "Suc p"] Suc.IH [of now "Suc p"] Suc.prems
    by (auto simp: slice_Suc)
qed

lemma pieces_terminated:
  "list_all (\<lambda>a. NUL \<notin> set a) args \<Longrightarrow> NUL \<notin> set cur \<Longrightarrow>
     pieces cur (concat (map (\<lambda>a. a @ [NUL]) args)) =
       (case args of [] \<Rightarrow> [] | a # as \<Rightarrow> (cur @ a) # as)"
proof -
  have p: "NUL \<notin> set a \<Longrightarrow> pieces cur (a @ NUL # r) = (cur @ a) # pieces [] r" for a cur r
    by (induction a arbitrary: cur) auto
  show "list_all (\<lambda>a. NUL \<notin> set a) args \<Longrightarrow> NUL \<notin> set cur \<Longrightarrow> ?thesis"
    by (induction args arbitrary: cur) (auto simp: p split: list.split)
qed

lemma parse_cmdline_args:
  assumes os: "proc_read os (pid_path pid ''/cmdline'') = Some (concat (map (\<lambda>a. a @ [NUL]) args))"
    and len: "length (concat (map (\<lambda>a. a @ [NUL]) args)) < BUFFER_SIZE"
    and nul: "list_all (\<lambda>a. NUL \<notin> set a) args"
  shows "fst (parse_cmdline os pid buffer) = Inr args"
proof (cases "args = []")
  case True
  then show ?thesis using os by (simp add: parse_cmdline_def read_file_def Let_def)
next
  case False
  let ?t = "concat (map (\<lambda>a. a @ [NUL]) args)"
  define b where "b = ?t @ NUL # drop (length ?t + 1) buffer"
  have "?t \<noteq> []" using False by (cases args) auto
  then have read: "read_file os (pid_path pid ''/cmdline'') buffer = (Some (length ?t), b)"
    unfolding b_def by (rule read_file_Some [OF os _ len])
  have "cmdline_loop b (length ?t) 0 0 [] = pieces [] ?t"
    by (subst cmdline_loop_pieces) (simp_all add: b_def slice_def)
  also have "\<dots> = args" using pieces_terminated [OF nul, of "[]"] by (simp split: list.split)
  finally show ?thesis by (simp only: parse_cmdline_def read prod.case option.case fst_conv)
qed

lemma path_filename_last: "CHR ''/'' \<notin> set n \<Longrightarrow> path_filename (d @ CHR ''/'' # n) = n"
  by (simp add: path_filename_def takeWhile_neq_append)

lemma path_filename_plain: "CHR ''/'' \<notin> set n \<Longrightarrow> path_filename n = n"
  by (simp add: path_filename_def takeWhile_neq_none)

lemma read_process_metadata_args:
  assumes "proc_read os (pid_path pid ''/cmdline'') = Some (concat (map (\<lambda>a. a @ [NUL]) (a # as)))"
    and "length (concat (map (\<lambda>a. a @ [NUL]) (a # as))) < BUFFER_SIZE"
    and "list_all (\<lambda>a. NUL \<notin> set a) (a # as)"
  shows "fst (read_process_metadata os pid buffer) =
           Inr \<lparr>pl_pid = pid, pl_process_name = path_filename a, pl_args = a # as\<rparr>"
  using parse_cmdline_args [OF assms, of buffer]
  by (cases "parse_cmdline os pid buffer") (simp add: read_process_metadata_def ProcessListing_new_def)

section \<open>Socket links\<close>

definition socket_link :: "u64 \<Rightarrow> string" where
  "socket_link i = ''socket:['' @ show_nat (unat i) @ '']''"

text \<open>
  The link has 9 characters beside the digits, and the range given to \<^verbatim>\<open>from_chars\<close> ends 9 characters
  before the end although 8 of them have been skipped already: it lacks the last 8 digits.
\<close>

lemma parse_socket_inode_link:
  "parse_socket_inode mem (socket_link i) =
     (let ds = show_nat (unat i)
      in if length ds < 8 then Inl (Undefined ''from_chars range'')
         else Inr (from_chars (take (length ds - 8) ds) mem))"
  by (simp add: parse_socket_inode_def socket_link_def slice_def Let_def)

lemma nat_of_digits_bound: "list_all is_digit ds \<Longrightarrow> nat_of_digits ds < 10 ^ length ds"
proof (induction ds rule: rev_induct)
  case Nil
  then show ?case by simp
next
  case (snoc c ds)
  then have "nat_of_digits ds < 10 ^ length ds" and "is_digit c" by simp_all
  moreover from \<open>is_digit c\<close> have "digit_val c \<le> 9" unfolding is_digit_def digit_val_def by linarith
  ultimately show ?case by simp
qed

lemma show_nat_shorter: "length (show_nat n) = Suc k \<Longrightarrow> 0 < k \<Longrightarrow> 10 ^ k \<le> n"
  using length_show_nat [of n "k - 1"] by (cases "n < 10 ^ k") simp_all

lemma parse_socket_inode_never:
  assumes "9 \<le> length (show_nat (unat i))"
  shows "parse_socket_inode mem (socket_link i) \<noteq> Inr i"
proof -
  let ?ds = "show_nat (unat i)"
  obtain k where k: "length ?ds = Suc k" and k8: "8 \<le> k" using assms by (cases "length ?ds") auto
  define t where "t = take (length ?ds - 8) ?ds"
  have d: "list_all is_digit t" unfolding t_def using show_nat_digits [of "unat i"]
    by (auto simp: list_all_iff dest: in_set_takeD)
  have ne: "t \<noteq> []" using assms by (auto simp: t_def)
  have len: "length t \<le> k - 7" using k by (simp add: t_def)
  have "nat_of_digits t < 10 ^ length t" by (rule nat_of_digits_bound [OF d])
  also have "\<dots> \<le> 10 ^ (k - 7)" using len by (intro power_increasing) simp_all
  also have "\<dots> \<le> 10 ^ k" using k8 by (intro power_increasing) simp_all
  also have "\<dots> \<le> unat i" by (rule show_nat_shorter [OF k]) (use k8 in simp)
  finally have lt: "nat_of_digits t < unat i" .
  then have "nat_of_digits t < 2 ^ 64" using unsigned_less [of i, where ?'a = nat] by simp
  moreover have "takeWhile is_digit t = t" using d by (simp add: list_all_iff takeWhile_eq_all_conv)
  ultimately have "from_chars t mem = (of_nat (nat_of_digits t) :: u64)"
    using ne by (simp only: from_chars_def Let_def if_False) simp
  moreover have "unat (of_nat (nat_of_digits t) :: u64) = nat_of_digits t"
    using \<open>nat_of_digits t < 2 ^ 64\<close> by (simp add: unsigned_of_nat take_bit_nat_eq_self)
  ultimately have "from_chars t mem \<noteq> i" using lt by auto
  then show ?thesis using assms unfolding parse_socket_inode_link Let_def t_def by simp
qed

section \<open>Lines of the table of connections\<close>

definition hex_char :: "nat \<Rightarrow> char" where
  "hex_char d = char_of (if d < 10 then 48 + d else 55 + d)"

fun show_hex :: "nat \<Rightarrow> nat \<Rightarrow> string" where
  "show_hex 0 n = []"
| "show_hex (Suc k) n = show_hex k (n div 16) @ [hex_char (n mod 16)]"

lemma hex_val_hex_char [simp]: "d < 16 \<Longrightarrow> hex_val (hex_char d) = Some d"
  by (simp add: hex_val_def hex_char_def Let_def)

lemma show_hex_digits: "list_all (\<lambda>c. \<exists>d < 16. c = hex_char d) (show_hex k n)"
  by (induction k arbitrary: n) (auto intro!: exI [of _ "n mod 16" for n])

lemma show_hex_base: "list_all (is_base_digit 16) (show_hex k n)"
  by (induction k arbitrary: n) (simp_all add: is_base_digit_def)

lemma newline_not_hex: "CHR 0x0A \<notin> set (show_hex k n)"
  using show_hex_base [of k n] by (auto simp: list_all_iff is_base_digit_def hex_val_def)

lemma length_show_hex [simp]: "length (show_hex k n) = k"
  by (induction k arbitrary: n) simp_all

lemma nat_of_base_snoc [simp]: "nat_of_base b (ds @ [c]) = nat_of_base b ds * b + the (hex_val c)"
  by (simp add: nat_of_base_def)

lemma nat_of_show_hex: "nat_of_base 16 (show_hex k n) = n mod 16 ^ k"
proof (induction k arbitrary: n)
  case 0
  then show ?case by (simp add: nat_of_base_def)
next
  case (Suc k)
  then show ?case by (simp add: mod_mult2_eq mult.commute)
qed

lemma not_base_digit [simp]:
  "\<not> is_base_digit b (CHR '':'')" "\<not> is_base_digit b (CHR '' '')"
  "\<not> is_base_digit b (CHR ''x'')" "\<not> is_base_digit b (CHR ''X'')"
  "\<not> is_base_digit b (CHR ''-'')" "\<not> is_base_digit b (CHR ''+'')"
  by (simp_all add: is_base_digit_def hex_val_def)

lemma base_digit_not_space: "is_base_digit b c \<Longrightarrow> \<not> is_space c"
  by (auto simp: is_space_def is_base_digit_def hex_val_def)

lemma extract_base_number:
  fixes old :: "'a::len word"
  assumes ds: "list_all (is_base_digit b) ds" "ds \<noteq> []" "nat_of_base b ds < 2 ^ LENGTH('a)"
    and sp: "list_all is_space sp" and c: "\<not> is_base_digit b c" "c \<noteq> CHR ''x''" "c \<noteq> CHR ''X''"
  shows "extract_base b old (stream_of (sp @ ds @ c # r)) =
           (of_nat (nat_of_base b ds), stream_of (c # r))"
proof -
  obtain d ds' where d: "ds = d # ds'" using ds(2) by (cases ds) auto
  have hd: "is_base_digit b d" "\<not> is_space d" using ds(1) d base_digit_not_space by auto
  define t where "t = ds @ c # r"
  have "dropWhile is_space (sp @ t) = t"
    using sp hd d by (auto simp: list_all_iff dropWhile_append2 t_def)
  moreover have "hd t \<noteq> CHR ''-''" "hd t \<noteq> CHR ''+''" "t \<noteq> []" using hd(1) d by (auto simp: t_def)
  moreover have "take 2 t \<noteq> ''0x''" "take 2 t \<noteq> ''0X''"
    unfolding t_def using d ds(1) c by (cases ds'; auto simp: numeral_2_eq_2)+
  moreover have "takeWhile (is_base_digit b) t = ds" "dropWhile (is_base_digit b) t = c # r"
    unfolding t_def using ds(1) c by (simp_all add: list_all_iff)
  ultimately have "extract_base b old (stream_of (sp @ t)) =
      (of_nat (nat_of_base b ds), stream_of (c # r))"
    using ds(2,3) by (simp add: extract_base_def Let_def stream_of_def good_def not_le)
  then show ?thesis by (simp add: t_def)
qed

lemma skip_word_append:
  "list_all is_space sp \<Longrightarrow> w \<noteq> [] \<Longrightarrow> list_all (\<lambda>c. \<not> is_space c) w \<Longrightarrow> is_space c \<Longrightarrow>
     skip_word (stream_of (sp @ w @ c # r)) = stream_of (c # r)"
proof -
  assume a: "list_all is_space sp" "w \<noteq> []" "list_all (\<lambda>c. \<not> is_space c) w" "is_space c"
  then obtain x w' where w: "w = x # w'" "\<not> is_space x" by (cases w) auto
  have "dropWhile is_space (sp @ w @ c # r) = w @ c # r"
    using a(1) w by (auto simp: list_all_iff dropWhile_append2)
  moreover have "dropWhile (\<lambda>c. \<not> is_space c) (w @ c # r) = c # r"
    using a(3,4) by (simp add: list_all_iff)
  ultimately show ?thesis using w by (simp add: skip_word_def Let_def stream_of_def good_def)
qed

lemma skip_char_Cons: "\<not> is_space c \<Longrightarrow> skip_char (stream_of (c # r)) = stream_of r"
  by (simp add: skip_char_def stream_of_def good_def)

text \<open>The kernel's line: slot, local and remote address in hexadecimal, six words, inode, the rest.\<close>

definition spaced :: "(string \<times> string) list \<Rightarrow> string" where
  "spaced ws = concat (map (\<lambda>(sp, w). CHR '' '' # sp @ w) ws)"

definition tcp_line ::
  "string \<Rightarrow> string \<Rightarrow> SocketInode \<Rightarrow> (string \<times> string) list \<Rightarrow> string \<Rightarrow> string" where
  "tcp_line sp slot s ws tail =
     sp @ slot @ '' '' @ show_hex 8 (unat (si_local_ip s)) @ '':'' @ show_hex 4 (unat (si_local_port s)) @ '' '' @
     show_hex 8 (unat (si_rem_ip s)) @ '':'' @ show_hex 4 (unat (si_rem_port s)) @ spaced ws @ '' '' @
     show_nat (unat (si_inode s)) @ '' '' @ tail"

definition plain_word :: "string \<times> string \<Rightarrow> bool" where
  "plain_word p \<longleftrightarrow> list_all is_space (fst p) \<and> snd p \<noteq> [] \<and> list_all (\<lambda>c. \<not> is_space c) (snd p)"

lemma skip_words:
  "list_all plain_word ws \<Longrightarrow>
     (skip_word ^^ length ws) (stream_of (spaced ws @ CHR '' '' # r)) = stream_of (CHR '' '' # r)"
proof (induction ws)
  case Nil
  then show ?case by (simp add: spaced_def)
next
  case (Cons p ws)
  obtain sp w where p: "p = (sp, w)" by (cases p)
  obtain c t where t: "spaced ws @ CHR '' '' # r = c # t" "is_space c"
    by (cases ws) (auto simp: spaced_def is_space_def)
  have "spaced (p # ws) @ CHR '' '' # r = (CHR '' '' # sp) @ w @ spaced ws @ CHR '' '' # r"
    by (simp add: spaced_def p)
  moreover have "skip_word (stream_of ((CHR '' '' # sp) @ w @ c # t)) = stream_of (c # t)"
    using Cons.prems p t(2) by (intro skip_word_append) (simp_all add: plain_word_def is_space_def)
  ultimately have "skip_word (stream_of (spaced (p # ws) @ CHR '' '' # r)) =
      stream_of (spaced ws @ CHR '' '' # r)"
    using t(1) by simp
  then show ?case using Cons by (simp add: funpow_Suc_right del: funpow.simps)
qed

lemma is_base_digit_10: "is_base_digit 10 c \<longleftrightarrow> is_digit c"
  by (auto simp: is_base_digit_def hex_val_def is_digit_def Let_def)

lemma nat_of_base_10: "list_all is_digit ds \<Longrightarrow> nat_of_base 10 ds = nat_of_digits ds"
  by (induction ds rule: rev_induct)
     (simp_all add: nat_of_base_def nat_of_digits_def hex_val_def is_digit_def digit_val_def)

lemma extract_hex:
  fixes old w :: "'a::len word"
  assumes "0 < k" and "LENGTH('a) = 4 * k" and "list_all is_space sp"
    and "\<not> is_base_digit 16 c" "c \<noteq> CHR ''x''" "c \<noteq> CHR ''X''"
  shows "extract_base 16 old (stream_of (sp @ show_hex k (unat w) @ c # r)) = (w, stream_of (c # r))"
proof -
  have "(16::nat) ^ k = 2 ^ LENGTH('a)" using assms(2) by (simp add: power_mult)
  then have n: "nat_of_base 16 (show_hex k (unat w)) = unat w"
    using unsigned_less [of w, where ?'a = nat] by (simp add: nat_of_show_hex)
  have ne: "show_hex k (unat w) \<noteq> []" using assms(1) by (metis length_0_conv length_show_hex not_less0)
  show ?thesis
    using extract_base_number [OF show_hex_base ne _ assms(3-6), where old = old and r = r]
      unsigned_less [of w, where ?'a = nat] by (simp add: n)
qed

lemma extract_dec:
  fixes old w :: u32
  assumes "list_all is_space sp"
  shows "extract_base 10 old (stream_of (sp @ show_nat (unat w) @ CHR '' '' # r)) =
    (w, stream_of (CHR '' '' # r))"
proof -
  have "nat_of_base 10 (show_nat (unat w)) = unat w" by (simp add: nat_of_base_10 show_nat_digits)
  moreover have "list_all (is_base_digit 10) (show_nat (unat w))"
    using show_nat_digits by (simp add: is_base_digit_10 list_all_iff)
  ultimately show ?thesis
    using extract_base_number [of 10 "show_nat (unat w)" sp "CHR '' ''" old r] assms
      unsigned_less [of w, where ?'a = nat] by simp
qed

lemma parse_tcp_line_line:
  assumes "list_all is_space sp" and "slot \<noteq> []" and "list_all (\<lambda>c. \<not> is_space c) slot"
    and "list_all plain_word ws" and "length ws = 6"
  shows "parse_tcp_line m (tcp_line sp slot s ws tail) =
           (if si_local_ip s AND 0xff = 127 then None else Some s)"
proof -
  let ?sp = "[CHR '' '']"
  define t5 where "t5 = show_nat (unat (si_inode s)) @ CHR '' '' # tail"
  define t4 where "t4 = spaced ws @ CHR '' '' # t5"
  obtain c t4' where c: "t4 = c # t4'" "is_space c" "\<not> is_base_digit 16 c" "c \<noteq> CHR ''x''" "c \<noteq> CHR ''X''"
    using assms(5) by (cases ws) (auto simp: t4_def spaced_def is_space_def)
  define t3 where "t3 = show_hex 4 (unat (si_rem_port s)) @ t4"
  define t2 where "t2 = show_hex 8 (unat (si_rem_ip s)) @ CHR '':'' # t3"
  define t1 where "t1 = show_hex 4 (unat (si_local_port s)) @ CHR '' '' # t2"
  define t0 where "t0 = show_hex 8 (unat (si_local_ip s)) @ CHR '':'' # t1"
  have line: "tcp_line sp slot s ws tail = sp @ slot @ CHR '' '' # t0"
    by (simp add: tcp_line_def t0_def t1_def t2_def t3_def t4_def t5_def)
  have blank: "is_space (CHR '' '')" and colon: "\<not> is_space (CHR '':'')" by (simp_all add: is_space_def)
  have s0: "skip_word (stream_of (tcp_line sp slot s ws tail)) = stream_of (CHR '' '' # t0)"
    unfolding line using assms(1-3) blank by (intro skip_word_append)
  have e0: "extract_base 16 old (stream_of (CHR '' '' # t0)) = (si_local_ip s, stream_of (CHR '':'' # t1))" for old
    using extract_hex [of 8 ?sp "CHR '':''" old "si_local_ip s" t1] blank by (simp add: t0_def)
  have e1: "extract_base 16 old (stream_of t1) = (si_local_port s, stream_of (CHR '' '' # t2))" for old
    using extract_hex [of 4 "[]" "CHR '' ''" old "si_local_port s" t2] by (simp add: t1_def)
  have e2: "extract_base 16 old (stream_of (CHR '' '' # t2)) = (si_rem_ip s, stream_of (CHR '':'' # t3))" for old
    using extract_hex [of 8 ?sp "CHR '':''" old "si_rem_ip s" t3] blank by (simp add: t2_def)
  have e3: "extract_base 16 old (stream_of t3) = (si_rem_port s, stream_of t4)" for old
    using extract_hex [of 4 "[]" c old "si_rem_port s" t4'] c by (simp add: t3_def)
  have w: "(skip_word ^^ 6) (stream_of t4) = stream_of (CHR '' '' # t5)"
    using skip_words [OF assms(4), of t5] assms(5) by (simp add: t4_def)
  have e5: "extract_base 10 old (stream_of (CHR '' '' # t5)) = (si_inode s, stream_of (CHR '' '' # tail))" for old
    using extract_dec [of ?sp old "si_inode s" tail] blank by (simp add: t5_def)
  show ?thesis
    unfolding parse_tcp_line_def s0 Let_def e0 prod.case skip_char_Cons [OF colon] e1 e2 e3 w e5 by simp
qed

lemma tcp_loop_lines:
  "list_all (\<lambda>l. CHR 0x0A \<notin> set l) lines \<Longrightarrow> list_all (\<lambda>l. \<forall>m. parse_tcp_line m l = f l) lines \<Longrightarrow>
     tcp_loop ms old (stream_of (concat (map (\<lambda>l. l @ [CHR 0x0A]) lines))) ret =
       foldl (\<lambda>m l. case f l of None \<Rightarrow> m | Some i \<Rightarrow> m(si_inode i \<mapsto> i)) ret lines"
proof (induction lines arbitrary: ms old ret)
  case Nil
  then show ?case by (subst tcp_loop.simps) (simp add: getline_last)
next
  case (Cons l lines)
  have "getline (CHR 0x0A) old (stream_of (concat (map (\<lambda>l. l @ [CHR 0x0A]) (l # lines)))) =
      (l, stream_of (concat (map (\<lambda>l. l @ [CHR 0x0A]) lines)))"
    using Cons.prems(1) getline_delim [of "CHR 0x0A" l] by simp
  then show ?case using Cons by (subst tcp_loop.simps) (simp add: option.case_eq_if)
qed

lemma parse_net_tcp_lines:
  assumes "proc_net_tcp os = Some (concat (map (\<lambda>l. l @ [CHR 0x0A]) (header # lines)))"
    and "list_all (\<lambda>l. CHR 0x0A \<notin> set l) (header # lines)"
    and "list_all (\<lambda>l. \<forall>m. parse_tcp_line m l = f l) lines"
  shows "parse_net_tcp ms os =
    foldl (\<lambda>m l. case f l of None \<Rightarrow> m | Some i \<Rightarrow> m(si_inode i \<mapsto> i)) Map.empty lines"
  using assms tcp_loop_lines [of lines f ms header Map.empty] getline_delim [of "CHR 0x0A" header "[]"]
  by (simp add: parse_net_tcp_def)

section \<open>The list of processes\<close>

definition pid_name :: "string \<Rightarrow> bool" where
  "pid_name n \<longleftrightarrow> n \<noteq> [] \<and> is_digit (hd n)"

lemma pids_loop_numbers:
  "list_all (\<lambda>n. pid_name n \<longrightarrow> (\<exists>p :: u32. n = show_nat (unat p))) names \<Longrightarrow>
     pids_loop mem names acc = acc @ map (\<lambda>n. from_chars n 0) (filter pid_name names)"
  by (induction names arbitrary: mem acc) (auto simp: pid_name_def)

section \<open>Properties\<close>

text \<open>Answers for concrete runs: every file reads as the same text.\<close>

definition reads_as :: "string \<Rightarrow> procfs" where
  "reads_as content = \<lparr>proc_read = (\<lambda>_. Some content), proc_dir = Some [], proc_fds = (\<lambda>_. []), proc_net_tcp = Some content\<rparr>"

lemma reads_as_simps [simp]:
  "proc_read (reads_as content) p = Some content" "proc_net_tcp (reads_as content) = Some content"
  by (simp_all add: reads_as_def)

text \<open>
  A command line of up to 4095 bytes is read back argument by argument, whatever the reused
  buffer held, and the program is named by the last component of the first argument.
\<close>

lemma process_metadata_read:
  assumes "proc_read os (pid_path pid ''/cmdline'') = Some (concat (map (\<lambda>a. a @ [NUL]) (a # as)))"
    and "length (concat (map (\<lambda>a. a @ [NUL]) (a # as))) < BUFFER_SIZE"
    and "list_all (\<lambda>a. NUL \<notin> set a) (a # as)"
  shows "fst (read_process_metadata os pid buffer) =
           Inr \<lparr>pl_pid = pid, pl_process_name = path_filename a, pl_args = a # as\<rparr>"
  by (rule read_process_metadata_args [OF assms])

lemma process_metadata_read_witness:
  "fst (read_process_metadata (reads_as (''/bin/ls'' @ [NUL] @ ''-l'' @ [NUL])) 7 empty_buffer) =
     Inr \<lparr>pl_pid = 7, pl_process_name = ''ls'', pl_args = [''/bin/ls'', ''-l'']\<rparr>"
proof -
  have "path_filename ''/bin/ls'' = ''ls''" by (simp add: path_filename_def)
  then show ?thesis
    using process_metadata_read [of "reads_as (''/bin/ls'' @ [NUL] @ ''-l'' @ [NUL])" 7 "''/bin/ls''" "[''-l'']" empty_buffer]
    by (simp add: NUL_def BUFFER_SIZE_def)
qed

text \<open>
  C39. From a line of \<^verbatim>\<open>/proc/pid/stat\<close> whose name has matching parentheses, fields 14 and 24 are
  read right, the second in pages. But the scan of the 52nd and last field looks for a blank that the
  line does not have: it goes on over the line break and the terminating NUL into what earlier
  reads left in the buffer, and off the buffer when no blank is left there.
\<close>

theorem pid_stat_read:
  assumes os: "proc_read os (pid_path pid ''/stat'') = Some (stat_line pid name ws x)"
    and len: "length (stat_line pid name ws x) < BUFFER_SIZE" and name: "closed_parens 1 name"
    and ws: "ws = u @ show_nat (unat utime) # v @ show_nat (unat rss) # z"
      "length u = 11" "length v = 9" "length z = 27" "list_all field_word ws" "field_word x"
  shows "fst (read_pid_stat_cpu_mem page_size os pid buffer) =
     (if CHR '' '' \<in> set (drop (length (stat_line pid name ws x) + 1) buffer)
      then Inr \<lparr>cm_total_cpu_usage = utime, cm_mem_usage = rss * page_size\<rparr>
      else Inl (Undefined ''buffer bounds''))"
  by (rule read_pid_stat_closed [OF os len refl name ws])

lemma pid_stat_read_witness:
  "let line = stat_line 7 ''a(b)'' (replicate 11 ''1'' @ ''5'' # replicate 9 ''2'' @ ''3'' # replicate 27 ''0'') ''4''
   in fst (read_pid_stat_cpu_mem 4096 (reads_as line) 7 (replicate 4096 (CHR '' ''))) =
        Inr \<lparr>cm_total_cpu_usage = 5, cm_mem_usage = 12288\<rparr> \<and>
      fst (read_pid_stat_cpu_mem 4096 (reads_as line) 7 empty_buffer) = Inl (Undefined ''buffer bounds'')"
proof -
  define ws where "ws = replicate 11 ''1'' @ ''5'' # replicate 9 ''2'' @ ''3'' # replicate 27 ''0''"
  define line where "line = stat_line 7 ''a(b)'' ws ''4''"
  have n: "show_nat 7 = ''7''" "show_nat 5 = ''5''" "show_nat 3 = ''3''"
    by (simp_all add: show_nat.simps digit_chars)
  have len: "length line < BUFFER_SIZE" and tail: "length line + 1 < 4096"
    by (simp_all add: line_def stat_line_def blank_after_def ws_def n BUFFER_SIZE_def length_concat sum_list_replicate)
  have ws: "ws = replicate 11 ''1'' @ show_nat (unat (5 :: u64)) # replicate 9 ''2'' @ show_nat (unat (3 :: u64)) # replicate 27 ''0''"
    by (simp add: ws_def n)
  have words: "list_all field_word ws" "field_word ''4''"
    by (simp_all add: ws_def field_word_def NUL_def list_all_iff)
  have run: "fst (read_pid_stat_cpu_mem 4096 (reads_as line) 7 buffer) =
      (if CHR '' '' \<in> set (drop (length line + 1) buffer)
       then Inr \<lparr>cm_total_cpu_usage = 5, cm_mem_usage = 3 * 4096\<rparr> else Inl (Undefined ''buffer bounds''))" for buffer
    using pid_stat_read [of "reads_as line" 7 "''a(b)''" ws "''4''", OF _ _ _ ws] len words
    by (simp add: line_def)
  have "CHR '' '' \<in> set (drop (length line + 1) (replicate 4096 (CHR '' '')))" using tail by simp
  moreover have "CHR '' '' \<notin> set (drop (length line + 1) empty_buffer)" by (simp add: empty_buffer_def NUL_def)
  ultimately show ?thesis using run by (simp add: Let_def line_def ws_def)
qed

text \<open>
  A program may have any name: with one opening parenthesis in it that is not closed, the scan
  for the end of the name runs over the whole line and leaves the buffer.
\<close>

lemma pid_stat_open_paren:
  assumes os: "proc_read os (pid_path pid ''/stat'') = Some (stat_line pid (a @ ''('' @ c) ws x)"
    and len: "length (stat_line pid (a @ ''('' @ c) ws x) < BUFFER_SIZE"
    and plain: "set (a @ c) \<inter> {CHR ''('', CHR '')''} = {}"
    and rest: "CHR '')'' \<notin> set (blank_after ws @ x @ drop (length (stat_line pid (a @ ''('' @ c) ws x) + 1) buffer)"
  shows "fst (read_pid_stat_cpu_mem page_size os pid buffer) = Inl (Undefined ''buffer bounds'')"
  by (rule read_pid_stat_open [OF os len refl plain rest])

lemma pid_stat_open_paren_witness:
  "fst (read_pid_stat_cpu_mem 4096 (reads_as (stat_line 7 '':('' [''S'', ''1''] ''0'')) 7 empty_buffer) =
     Inl (Undefined ''buffer bounds'')"
proof -
  have "show_nat 7 = ''7''" by (simp add: show_nat.simps digit_chars)
  then show ?thesis
    using pid_stat_open_paren [of "reads_as (stat_line 7 '':('' [''S'', ''1''] ''0'')" 7 "'':''" "[]" "[''S'', ''1'']" "''0''"
        empty_buffer 4096]
    by (simp add: stat_line_def BUFFER_SIZE_def empty_buffer_def NUL_def)
qed

text \<open>
  The system's processor time is the sum of the ten numbers of the first line; but what is stored
  as idle time is the fourth field, which is the third number, the time in system mode, whatever the
  idle time (the fourth number) is.
\<close>

lemma stat_cpu_idle:
  assumes "proc_read os ''/proc/stat'' = Some (cpu_text ns tail)"
    and "length (cpu_text ns tail) < BUFFER_SIZE" "length ns = 10" and "CHR '' '' \<in> set tail"
  shows "fst (read_stat_cpu mem os buffer) = Inr \<lparr>cpu_usage = sum_list ns, cpu_idle = ns ! 2\<rparr>"
  by (rule read_stat_cpu_text [OF assms])

lemma stat_cpu_idle_witness:
  "fst (read_stat_cpu (\<lambda>_. 0) (reads_as (cpu_text [1, 2, 3, 4, 0, 0, 0, 0, 0, 0] ''cpu0 1'')) empty_buffer) =
     Inr \<lparr>cpu_usage = 10, cpu_idle = 3\<rparr>"
proof -
  have "show_nat 0 = ''0''" "show_nat (Suc 0) = ''1''" "show_nat 2 = ''2''" "show_nat 3 = ''3''" "show_nat 4 = ''4''"
    by (simp_all add: show_nat.simps digit_chars)
  then show ?thesis
    using stat_cpu_idle [of "reads_as (cpu_text [1, 2, 3, 4, 0, 0, 0, 0, 0, 0] ''cpu0 1'')"
        "[1, 2, 3, 4, 0, 0, 0, 0, 0, 0]" "''cpu0 1''" "\<lambda>_. 0" empty_buffer]
    by (simp add: cpu_text_def BUFFER_SIZE_def)
qed

text \<open>
  The inode of a socket link is never read right: with fewer than 8 digits the range given to
  \<^verbatim>\<open>from_chars\<close> ends before it begins, with 8 digits it is empty and the uninitialised local is
  returned, and with more digits the last 8 are missing.
\<close>

lemma socket_inode_wrong:
  "parse_socket_inode mem (socket_link i) =
     (let ds = show_nat (unat i)
      in if length ds < 8 then Inl (Undefined ''from_chars range'')
         else if length ds = 8 then Inr mem
         else Inr (from_chars (take (length ds - 8) ds) mem)) \<and>
   (parse_socket_inode mem (socket_link i) = Inr i \<longleftrightarrow> length (show_nat (unat i)) = 8 \<and> mem = i)"
proof -
  have p: "parse_socket_inode mem (socket_link i) =
     (let ds = show_nat (unat i)
      in if length ds < 8 then Inl (Undefined ''from_chars range'')
         else if length ds = 8 then Inr mem
         else Inr (from_chars (take (length ds - 8) ds) mem))"
    by (simp add: parse_socket_inode_link Let_def from_chars_def)
  then show ?thesis
    using parse_socket_inode_never [of i mem] by (auto simp: Let_def not_less le_Suc_eq)
qed

text \<open>
  The table of connections is read back: of lines in the kernel's form, every connection whose
  local address is not in 127.0.0.0/8 is entered under its inode with its addresses and ports, a
  later line replacing an earlier one; the header and what the locals held have no influence.
\<close>

lemma net_tcp_read_back:
  assumes "proc_net_tcp os = Some (concat (map (\<lambda>l. l @ [CHR 0x0A])
             (header # map (\<lambda>(slot, s, ws, tail). tcp_line [] slot s ws tail) rows)))"
    and "CHR 0x0A \<notin> set header"
    and "list_all (\<lambda>(slot, s, ws, tail). slot \<noteq> [] \<and> list_all (\<lambda>c. \<not> is_space c) slot \<and>
           list_all plain_word ws \<and> length ws = 6 \<and> CHR 0x0A \<notin> set (tcp_line [] slot s ws tail)) rows"
  shows "parse_net_tcp ms os =
    map_of (rev (map (\<lambda>s. (si_inode s, s))
      (filter (\<lambda>s. si_local_ip s AND 0xff \<noteq> 127) (map (\<lambda>(slot, s, ws, tail). s) rows))))"
proof -
  let ?line = "\<lambda>(slot, s, ws, tail). tcp_line [] slot s ws tail"
  let ?row = "\<lambda>(slot, s, ws, tail). s :: SocketInode"
  let ?f = "parse_tcp_line undefined"
  have parse: "parse_tcp_line m (?line r) = (if si_local_ip (?row r) AND 0xff = 127 then None else Some (?row r))"
    if "r \<in> set rows" for m r
    using that assms(3) by (auto simp: list_all_iff parse_tcp_line_line)
  have "parse_net_tcp ms os =
      foldl (\<lambda>m l. case ?f l of None \<Rightarrow> m | Some i \<Rightarrow> m(si_inode i \<mapsto> i)) Map.empty (map ?line rows)"
    using assms(2,3) by (intro parse_net_tcp_lines [OF assms(1)]) (auto simp: list_all_iff parse)
  also have "\<dots> = map_of (rev (map (\<lambda>s. (si_inode s, s))
      (filter (\<lambda>s. si_local_ip s AND 0xff \<noteq> 127) (map ?row rows))))"
    using parse by (induction rows rule: rev_induct) simp_all
  finally show ?thesis .
qed

lemma net_tcp_read_back_witness:
  "parse_net_tcp [] (reads_as (''sl'' @ [CHR 0x0A] @
       tcp_line [] ''0:'' \<lparr>si_inode = 77, si_local_ip = 0x0100007F, si_local_port = 80, si_rem_ip = 0, si_rem_port = 0\<rparr>
         (replicate 6 ([], ''0'')) ''1'' @ [CHR 0x0A] @
       tcp_line [] ''1:'' \<lparr>si_inode = 88, si_local_ip = 0x0200A8C0, si_local_port = 22, si_rem_ip = 5, si_rem_port = 6\<rparr>
         (replicate 6 ([], ''0'')) ''1'' @ [CHR 0x0A])) =
     [88 \<mapsto> \<lparr>si_inode = 88, si_local_ip = 0x0200A8C0, si_local_port = 22, si_rem_ip = 5, si_rem_port = 6\<rparr>]"
proof -
  let ?a = "\<lparr>si_inode = 77, si_local_ip = 0x0100007F, si_local_port = 80, si_rem_ip = 0, si_rem_port = 0\<rparr>"
  let ?b = "\<lparr>si_inode = 88, si_local_ip = 0x0200A8C0, si_local_port = 22, si_rem_ip = 5, si_rem_port = 6\<rparr>"
  let ?ws = "replicate 6 ([] :: string, ''0'')"
  have "show_nat 77 = ''77''" "show_nat 88 = ''88''" by (simp_all add: show_nat.simps digit_chars)
  then have plain: "CHR 0x0A \<notin> set (tcp_line [] ''0:'' ?a ?ws ''1'')" "CHR 0x0A \<notin> set (tcp_line [] ''1:'' ?b ?ws ''1'')"
    by (simp_all add: tcp_line_def spaced_def newline_not_hex)
  have word: "list_all plain_word ?ws" by (simp add: plain_word_def is_space_def list_all_iff)
  show ?thesis
    using net_tcp_read_back [of "reads_as _" "''sl''" "[(''0:'', ?a, ?ws, ''1''), (''1:'', ?b, ?ws, ''1'')]" "[]"] plain word
    by (simp add: is_space_def)
qed

end
