(* ===== verification/Table_Laws.thy ===== *)
theory Table_Laws
  imports Process_Views Process_Table_Windows Proc_Laws
begin

text \<open>
  What holds of the process table: the three tables have the same processes after every
  \<^verbatim>\<open>update_table\<close>, so the \<^verbatim>\<open>at\<close> of the views never throws; the sorted view and the sums per program
  are right whatever the iteration order is; the reported differences add up to the counters.
\<close>

section \<open>The tables agree\<close>

text \<open>
  Every process has an entry in each table; on Linux it is under its own number and its arguments
  are known.
\<close>

definition tables_agree :: "ProcessTable \<Rightarrow> bool" where
  "tables_agree pt \<longleftrightarrow>
     finite (dom (list_table pt)) \<and> dom (stat_table pt) = dom (list_table pt) \<and>
     dom (last_stat_table pt) = dom (list_table pt)"

definition tables_ok :: "ProcessTable \<Rightarrow> bool" where
  "tables_ok pt \<longleftrightarrow> tables_agree pt \<and>
     (\<forall>pid l. list_table pt pid = Some l \<longrightarrow> pl_pid l = pid \<and> pl_args l \<noteq> [])"

text \<open>While the loop runs there may be listings of processes that cannot be read.\<close>

definition loop_ok :: "(u32 \<Rightarrow> bool) \<Rightarrow> ProcessTable \<Rightarrow> bool" where
  "loop_ok seen pt \<longleftrightarrow>
     finite (dom (list_table pt)) \<and> dom (stat_table pt) = dom (last_stat_table pt) \<and>
     dom (stat_table pt) \<subseteq> dom (list_table pt) \<and>
     (\<forall>pid. seen pid \<longrightarrow> pid \<in> dom (stat_table pt) \<and> (\<exists>l. list_table pt pid = Some l \<and> pl_args l \<noteq> [])) \<and>
     (\<forall>pid l. list_table pt pid = Some l \<longrightarrow> pl_args l \<noteq> [] \<longrightarrow> pl_pid l = pid)"

lemma read_process_metadata_pid: "read_process_metadata os pid b = (Inr l, b') \<Longrightarrow> pl_pid l = pid"
  by (auto simp: read_process_metadata_def ProcessListing_new_def split: prod.splits sum.splits if_splits)

lemma loop_ok_fields [simp]:
  "loop_ok seen (pt\<lparr>read_buffer := b\<rparr>) = loop_ok seen pt"
  "loop_ok seen (pt\<lparr>last_cpu := c\<rparr>) = loop_ok seen pt"
  by (simp_all add: loop_ok_def)

lemma loop_ok_listing:
  "loop_ok seen pt \<Longrightarrow> (pl_args l \<noteq> [] \<longrightarrow> pl_pid l = pid) \<Longrightarrow>
     (seen pid \<longrightarrow> pl_args l \<noteq> []) \<Longrightarrow> loop_ok seen (pt\<lparr>list_table := (list_table pt)(pid \<mapsto> l)\<rparr>)"
  by (auto simp: loop_ok_def)

lemma loop_ok_stat:
  "loop_ok seen pt \<Longrightarrow> list_table pt pid = Some l \<Longrightarrow>
     loop_ok seen (pt\<lparr>stat_table := (stat_table pt)(pid \<mapsto> s), last_stat_table := (last_stat_table pt)(pid \<mapsto> s')\<rparr>)"
  by (auto simp: loop_ok_def)

lemma loop_ok_seen:
  "loop_ok seen pt \<Longrightarrow> list_table pt pid = Some l \<Longrightarrow> pl_args l \<noteq> [] \<Longrightarrow> pid \<in> dom (stat_table pt) \<Longrightarrow>
     loop_ok (seen(pid := True)) pt"
  by (auto simp: loop_ok_def)

lemma measure_pid_ok:
  assumes ok: "loop_ok seen pt" and l: "list_table pt pid = Some l" "pl_args l \<noteq> []"
    and m: "measure_pid page_size un os delta net pid pt = (r, pt')"
  shows "loop_ok (if r = Inr True then seen(pid := True) else seen) pt' \<and>
    list_table pt' = list_table pt \<and> r \<noteq> Inr False"
proof -
  have "loop_ok (seen(pid := True)) (pt\<lparr>stat_table := (stat_table pt)(pid \<mapsto> s),
      last_stat_table := (last_stat_table pt)(pid \<mapsto> s'), read_buffer := b\<rparr>)" for s s' b
    using loop_ok_stat [OF ok l(1)] l by (intro loop_ok_seen) simp_all
  then show ?thesis
    using m ok by (auto simp: measure_pid_def split: prod.splits sum.splits)
qed

lemma update_pid_ok:
  assumes ok: "loop_ok seen pt"
    and upd: "update_pid page_size un os delta net pid pt = (r, pt')"
  shows "loop_ok (if r = Inr True then seen(pid := True) else seen) pt'"
proof -
  define l0 where "l0 = listing_of un pt pid"
  define pt1 where "pt1 = pt\<lparr>list_table := (list_table pt)(pid \<mapsto> l0)\<rparr>"
  obtain r1 b1 where r1: "(if pl_args l0 = [] then read_process_metadata os pid (read_buffer pt1)
      else (Inr l0, read_buffer pt1)) = (r1, b1)" by fastforce
  have l0: "pl_args l0 \<noteq> [] \<longrightarrow> pl_pid l0 = pid" "seen pid \<longrightarrow> pl_args l0 \<noteq> []"
    using ok by (auto simp: l0_def listing_of_def loop_ok_def ProcessListing_default_def split: option.split)
  then have ok1: "loop_ok seen pt1" unfolding pt1_def using ok by (intro loop_ok_listing)
  note upd' = upd [unfolded update_pid_def Let_def, folded l0_def, folded pt1_def, unfolded r1 prod.case]
  show ?thesis
  proof (cases r1)
    case (Inl e)
    then show ?thesis using upd' ok1 by auto
  next
    case (Inr l)
    then have l: "pl_args l \<noteq> [] \<longrightarrow> pl_pid l = pid" "seen pid \<longrightarrow> pl_args l \<noteq> []"
      using r1 l0 read_process_metadata_pid by (auto split: if_splits)
    define pt2 where "pt2 = pt1\<lparr>list_table := (list_table pt1)(pid \<mapsto> l), read_buffer := b1\<rparr>"
    have ok2: "loop_ok seen pt2" unfolding pt2_def using loop_ok_listing [OF ok1 l] by simp
    have l2: "list_table pt2 pid = Some l" by (simp add: pt2_def)
    let ?pt3 = "pt2\<lparr>stat_table := (stat_table pt2)(pid \<mapsto> stat_entry pt2 pid),
        last_stat_table := (last_stat_table pt2)(pid \<mapsto> last_stat_entry pt2 pid)\<rparr>"
    have ok3: "loop_ok seen ?pt3" by (rule loop_ok_stat [OF ok2 l2])
    show ?thesis
      using upd' [unfolded Inr sum.case, folded pt2_def] ok2
        measure_pid_ok [OF ok3, of pid l page_size un os delta net r pt'] l2
      by (auto split: if_splits)
  qed
qed

lemma update_pids_ok:
  "loop_ok seen pt \<Longrightarrow> update_pids page_size un os delta net pids seen pt = (Inr seen', pt') \<Longrightarrow>
     loop_ok seen' pt'"
proof (induction pids arbitrary: seen pt)
  case Nil
  then show ?case by simp
next
  case (Cons pid pids)
  obtain r pt1 where u: "update_pid page_size un os delta net pid pt = (r, pt1)" by fastforce
  note ok = update_pid_ok [OF Cons.prems(1) u]
  show ?case
  proof (cases r)
    case (Inl e)
    then show ?thesis using Cons.IH [of seen pt1] Cons.prems(2) ok u by (simp split: if_splits)
  next
    case (Inr marked)
    then show ?thesis
      using Cons.IH [of seen pt1] Cons.IH [of "seen(pid := True)" pt1] Cons.prems(2) ok u
      by (cases marked) (simp_all del: fun_upd_apply)
  qed
qed

lemma update_pids_error:
  "update_pids page_size un os delta net pids seen pt = (Inl e, pt') \<Longrightarrow> \<not> is_std_exception e"
  by (induction pids arbitrary: seen pt) (auto split: prod.splits sum.splits if_splits)

text \<open>The loop that erases keeps exactly the processes that were seen.\<close>

lemma erase_loop_tables:
  "list_table (erase_loop seen ks pt) = (\<lambda>p. if p \<in> set ks \<and> \<not> seen p then None else list_table pt p)"
  "stat_table (erase_loop seen ks pt) = (\<lambda>p. if p \<in> set ks \<and> \<not> seen p then None else stat_table pt p)"
  "last_stat_table (erase_loop seen ks pt) = (\<lambda>p. if p \<in> set ks \<and> \<not> seen p then None else last_stat_table pt p)"
  by (induction seen ks pt rule: erase_loop.induct) (auto simp: fun_eq_iff)

lemma erase_loop_ok:
  assumes "loop_ok seen pt" and "set ks = dom (list_table pt)"
  shows "tables_ok (erase_loop seen ks pt)"
  unfolding tables_ok_def tables_agree_def erase_loop_tables
proof (intro conjI allI impI)
  show "finite (dom (\<lambda>p. if p \<in> set ks \<and> \<not> seen p then None else list_table pt p))"
    by (rule finite_subset [of _ "dom (list_table pt)"]) (use assms in \<open>auto simp: loop_ok_def split: if_splits\<close>)
  show "dom (\<lambda>p. if p \<in> set ks \<and> \<not> seen p then None else stat_table pt p) =
      dom (\<lambda>p. if p \<in> set ks \<and> \<not> seen p then None else list_table pt p)"
    using assms by (auto simp: loop_ok_def dom_def split: if_splits)
  then show "dom (\<lambda>p. if p \<in> set ks \<and> \<not> seen p then None else last_stat_table pt p) =
      dom (\<lambda>p. if p \<in> set ks \<and> \<not> seen p then None else list_table pt p)"
    using assms by (simp add: loop_ok_def dom_if)
next
  fix pid l
  assume "(if pid \<in> set ks \<and> \<not> seen pid then None else list_table pt pid) = Some l"
  then show "pl_pid l = pid" and "pl_args l \<noteq> []"
    using assms by (auto simp: loop_ok_def split: if_splits)
qed

lemma tables_ok_loop_ok: "tables_ok pt \<Longrightarrow> loop_ok (\<lambda>_. False) pt"
  by (auto simp: tables_ok_def tables_agree_def loop_ok_def)

text \<open>A list of the keys of every finite map, each once.\<close>

definition iterates :: "(('k \<rightharpoonup> 'v) \<Rightarrow> 'k list) \<Rightarrow> bool" where
  "iterates ord \<longleftrightarrow> (\<forall>m. finite (dom m) \<longrightarrow> distinct (ord m) \<and> set (ord m) = dom m)"

lemma tables_ok_fields [simp]:
  "tables_ok (pt\<lparr>read_buffer := b\<rparr>) = tables_ok pt" "tables_ok (pt\<lparr>last_cpu := c\<rparr>) = tables_ok pt"
  by (simp_all add: tables_ok_def tables_agree_def)

lemma update_table_ok:
  assumes ok: "tables_ok pt" and ord: "iterates ord"
    and upd: "update_table ord first page_size un os packets pt = (r, pt')"
    and r: "case r of Inl e \<Rightarrow> is_std_exception e | Inr _ \<Rightarrow> True"
  shows "tables_ok pt'"
proof -
  obtain r1 b where s: "read_stat_cpu (un_stat un) os (read_buffer pt) = (r1, b)" by fastforce
  show ?thesis
  proof (cases r1)
    case (Inl e)
    then show ?thesis using upd s ok by (auto simp: update_table_def)
  next
    case (Inr now)
    let ?pt = "pt\<lparr>last_cpu := now, read_buffer := b\<rparr>"
    have ok': "tables_ok ?pt" using ok by simp
    note upd' = upd [unfolded update_table_def s prod.case Inr sum.case Let_def]
    have "tables_ok (erase_loop seen (ord (list_table pt1)) pt1)"
      if "update_pids page_size un os delta net pids (\<lambda>_. False) ?pt = (Inr seen, pt1)" for delta net pids seen pt1
    proof -
      have "loop_ok seen pt1" by (rule update_pids_ok [OF tables_ok_loop_ok [OF ok'] that])
      moreover have "set (ord (list_table pt1)) = dom (list_table pt1)" using ord by (simp add: iterates_def)
      ultimately show ?thesis by (rule erase_loop_ok)
    qed
    then show ?thesis
      using upd' ok' r update_pids_error
      by (auto split: sum.splits option.splits prod.splits simp: Let_def)
  qed
qed

lemma update_pids_seen:
  "update_pids page_size un os delta net pids seen pt = (Inr seen', pt') \<Longrightarrow> seen' p \<Longrightarrow>
     seen p \<or> p \<in> set pids"
proof (induction pids arbitrary: seen pt)
  case Nil
  then show ?case by simp
next
  case (Cons pid pids)
  obtain r pt1 where u: "update_pid page_size un os delta net pid pt = (r, pt1)" by fastforce
  show ?case
  proof (cases r)
    case (Inl e)
    then show ?thesis using Cons.IH [of seen pt1] Cons.prems u by (auto split: if_splits)
  next
    case (Inr marked)
    then show ?thesis
      using Cons.IH [of seen pt1] Cons.IH [of "seen(pid := True)" pt1] Cons.prems u
      by (cases marked; cases "p = pid") (simp_all add: fun_upd_def)
  qed
qed

lemma update_table_pids:
  assumes ord: "iterates ord"
    and upd: "update_table ord first page_size un os packets pt = (Inr (), pt')"
  shows "\<exists>pids. list_pids (un_pids un) os = Inr pids \<and> dom (list_table pt') \<subseteq> set pids"
proof -
  obtain now b where s: "read_stat_cpu (un_stat un) os (read_buffer pt) = (Inr now, b)"
    using upd by (auto simp: update_table_def Let_def split: prod.splits sum.splits)
  obtain pids where p: "list_pids (un_pids un) os = Inr pids"
    using upd s by (auto simp: update_table_def Let_def split: sum.splits)
  note upd' = upd [unfolded update_table_def s prod.case sum.case Let_def p]
  obtain delta net seen pt1 pt0 where u: "update_pids page_size un os delta net pids (\<lambda>_. False) pt0 = (Inr seen, pt1)"
    and pt': "pt' = erase_loop seen (ord (list_table pt1)) pt1"
    using upd' by (auto split: sum.splits option.splits prod.splits)
  have "set (ord (list_table pt1)) = dom (list_table pt1)" using ord by (simp add: iterates_def)
  then have "dom (list_table pt') \<subseteq> {p. seen p}" unfolding pt' by (auto simp: erase_loop_tables split: if_splits)
  also have "\<dots> \<subseteq> set pids" using update_pids_seen [OF u] by auto
  finally show ?thesis using p by blast
qed

text \<open>The tables the program can have: any sequence of updates, whatever the kernel answers.\<close>

inductive table_reachable :: "u64 \<Rightarrow> ProcessTable \<Rightarrow> bool" for page_size where
  start: "table_reachable page_size ProcessTable_new"
| update: "table_reachable page_size pt \<Longrightarrow> iterates ord \<Longrightarrow>
    update_table ord first page_size un os packets pt = (r, pt') \<Longrightarrow>
    (case r of Inl e \<Rightarrow> is_std_exception e | Inr _ \<Rightarrow> True) \<Longrightarrow> table_reachable page_size pt'"

lemma tables_ok_new [simp]: "tables_ok ProcessTable_new"
  by (simp add: tables_ok_def tables_agree_def ProcessTable_new_def)

lemma reachable_tables_ok: "table_reachable page_size pt \<Longrightarrow> tables_ok pt"
  by (induction rule: table_reachable.induct) (auto intro: update_table_ok)

section \<open>The sorted view\<close>

definition row_of :: "ProcessTable \<Rightarrow> u32 \<Rightarrow> ProcessFullStat" where
  "row_of pt pid =
     \<lparr>fs_pid = pid, fs_meta = the (list_table pt pid), fs_stat = the (stat_table pt pid)\<rparr>"

lemma fs_pid_row_of [simp]: "fs_pid (row_of pt pid) = pid"
  by (simp add: row_of_def)

lemma full_stats_rows: "set pids \<subseteq> dom (stat_table pt) \<Longrightarrow> full_stats pt pids = Inr (map (row_of pt) pids)"
  by (induction pids) (auto simp: row_of_def)

lemma card_pids: "finite A \<Longrightarrow> card (A :: u32 set) \<le> 2 ^ 32"
  using card_mono [of "UNIV :: u32 set" A] by (simp add: card_word)

lemma get_sorted_rows:
  assumes ok: "tables_agree pt" and ord: "iterates ord" and sorter: "partial_sorter psort (row_key type)"
    and few: "card (dom (list_table pt)) < 2 ^ 32"
  shows "\<exists>rows. get_sorted psort ord type limit pt = Inr rows \<and>
     length rows = (if limit = 0 then card (dom (list_table pt))
                    else min (unat limit) (card (dom (list_table pt)))) \<and>
     sorted (map (row_key type) rows) \<and> distinct (map fs_pid rows) \<and>
     set rows \<subseteq> row_of pt ` dom (list_table pt) \<and>
     (\<forall>row \<in> set rows. \<forall>pid \<in> dom (list_table pt). row_of pt pid \<notin> set rows \<longrightarrow>
        row_key type row \<le> row_key type (row_of pt pid))"
proof -
  let ?ord = "ord (list_table pt)"
  let ?rows = "map (row_of pt) ?ord"
  have o: "distinct ?ord" "set ?ord = dom (list_table pt)"
    using ok ord by (auto simp: tables_agree_def iterates_def)
  have full: "full_stats pt ?ord = Inr ?rows"
    using ok o by (intro full_stats_rows) (simp add: tables_agree_def)
  have len: "length ?ord = card (dom (list_table pt))" using distinct_card [OF o(1)] o(2) by simp
  define m where "m = unat (if limit = 0 then of_nat (length ?rows) else min limit (of_nat (length ?rows)))"
  have n: "unat (of_nat (length ?rows) :: u32) = length ?rows"
    using few len by (simp add: unsigned_of_nat take_bit_nat_eq_self)
  have m: "m = (if limit = 0 then length ?rows else min (unat limit) (length ?rows))"
    unfolding m_def using n by (auto simp: min_def word_le_nat_alt)
  then have le: "m \<le> length ?rows" by simp
  let ?best = "partial_sorter.best psort (row_key type) m ?rows"
  have c: "get_comparator type = (\<lambda>a b. row_key type a < row_key type b)"
    by (intro ext) (rule get_comparator_key)
  have "get_sorted psort ord type limit pt = Inr ?best"
    unfolding get_sorted_def full bindR.simps Let_def m_def [symmetric] c partial_sorter.best_def [OF sorter] ..
  moreover have "length ?best = m" by (rule partial_sorter.length_best [OF sorter le])
  moreover have "sorted (map (row_key type) ?best)" by (rule partial_sorter.best_sorted [OF sorter le])
  moreover have "distinct (map fs_pid ?best)"
    using o(1) by (intro partial_sorter.distinct_best [OF sorter le]) (simp add: comp_def)
  moreover have "set ?best \<subseteq> row_of pt ` dom (list_table pt)"
    using partial_sorter.set_best [OF sorter le] o(2) by simp
  moreover have "\<forall>row \<in> set ?best. \<forall>pid \<in> dom (list_table pt). row_of pt pid \<notin> set ?best \<longrightarrow>
      row_key type row \<le> row_key type (row_of pt pid)"
    using partial_sorter.best_left_out [OF sorter le] o(2) by simp
  ultimately show ?thesis using m len by auto
qed

section \<open>Sums per program\<close>

text \<open>The processes of a program, and the sum of one of their counters (which wraps).\<close>

definition pids_named :: "ProcessTable \<Rightarrow> string \<Rightarrow> u32 set" where
  "pids_named pt name = {pid \<in> dom (list_table pt). pl_process_name (the (list_table pt pid)) = name}"

definition total_stat :: "ProcessTable \<Rightarrow> u32 set \<Rightarrow> ProcessStat" where
  "total_stat pt pids =
     (let s = (\<lambda>f. \<Sum>pid\<in>pids. f (the (stat_table pt pid)))
      in \<lparr>cpu_usage_percent = (\<Sum>pid\<in>pids. cpu_usage_percent (the (stat_table pt pid))),
          mem_usage = s mem_usage,
          disk_usage = \<lparr>disk_read = Some (s (\<lambda>t. value_or (disk_read (disk_usage t)) 0)),
                        disk_write = Some (s (\<lambda>t. value_or (disk_write (disk_usage t)) 0))\<rparr>,
          network_usage = \<lparr>network_recv = Some (s (\<lambda>t. value_or (network_recv (network_usage t)) 0)),
                           network_send = Some (s (\<lambda>t. value_or (network_send (network_usage t)) 0))\<rparr>\<rparr>)"

lemma add_stat_total:
  assumes "finite A" and "pid \<notin> A"
  shows "add_stat (if A = {} then ProcessStat_default else total_stat pt A) (the (stat_table pt pid)) =
           total_stat pt (insert pid A)"
  using assms
  by (auto simp: add_stat_def total_stat_def ProcessStat_default_def DiskStat_default_def
      NetworkStat_default_def Let_def add.commute)

lemma program_loop_totals:
  assumes "set ks \<subseteq> dom (stat_table pt)" and "distinct ks" and "finite seen" and "seen \<inter> set ks = {}"
    and "seen \<union> set ks \<subseteq> dom (list_table pt)"
    and m: "\<And>name. m name = (let A = pids_named pt name \<inter> seen in if A = {} then None else Some (total_stat pt A))"
  shows "\<exists>m'. program_loop pt ks m = Inr m' \<and>
    (\<forall>name. m' name = (let A = pids_named pt name \<inter> (seen \<union> set ks) in if A = {} then None else Some (total_stat pt A)))"
  using assms
proof (induction ks arbitrary: m seen)
  case Nil
  then show ?case by simp
next
  case (Cons pid ks)
  define name where "name = pl_process_name (the (list_table pt pid))"
  obtain stat where stat: "stat_table pt pid = Some stat" using Cons.prems(1) by auto
  define m' where "m' = m(name \<mapsto> add_stat (stat_of m name) stat)"
  have named: "pid \<in> pids_named pt n \<longleftrightarrow> n = name" for n
    using Cons.prems(5) by (auto simp: pids_named_def name_def)
  let ?A = "pids_named pt name \<inter> seen"
  have "stat_of m name = (if ?A = {} then ProcessStat_default else total_stat pt ?A)"
    using Cons.prems(6) [of name] by (simp add: stat_of_def Let_def)
  then have "add_stat (stat_of m name) stat = total_stat pt (insert pid ?A)"
    using add_stat_total [of ?A pid pt] Cons.prems(3,4) stat by simp
  then have "m' n = (let A = pids_named pt n \<inter> insert pid seen in if A = {} then None else Some (total_stat pt A))" for n
    using Cons.prems(6) [of n] named [of n] by (cases "n = name") (auto simp: m'_def Let_def)
  then have "\<exists>m''. program_loop pt ks m' = Inr m'' \<and>
      (\<forall>name. m'' name = (let A = pids_named pt name \<inter> (insert pid seen \<union> set ks)
        in if A = {} then None else Some (total_stat pt A)))"
    using Cons.prems(1-5) by (intro Cons.IH) auto
  then show ?case
    using stat by (simp add: name_def [symmetric] m'_def Let_def)
qed

lemma get_map_totals:
  assumes "tables_agree pt" and "iterates ord"
  shows "\<exists>m. get_map_program_name_resource ord pt = Inr m \<and>
    (\<forall>name. m name = (if pids_named pt name = {} then None else Some (total_stat pt (pids_named pt name))))"
proof -
  have o: "distinct (ord (list_table pt))" "set (ord (list_table pt)) = dom (list_table pt)"
    using assms by (auto simp: tables_agree_def iterates_def)
  have "\<exists>m'. program_loop pt (ord (list_table pt)) Map.empty = Inr m' \<and>
      (\<forall>name. m' name = (let A = pids_named pt name \<inter> ({} \<union> set (ord (list_table pt)))
         in if A = {} then None else Some (total_stat pt A)))"
    using assms o by (intro program_loop_totals) (auto simp: tables_agree_def)
  moreover have "pids_named pt name \<inter> ({} \<union> set (ord (list_table pt))) = pids_named pt name" for name
    using o by (auto simp: pids_named_def)
  ultimately show ?thesis by (simp only: get_map_program_name_resource_def Let_def)
qed

section \<open>Differences add up\<close>

text \<open>The statistics of one process over several rounds, each with its readings.\<close>

fun stat_rounds ::
  "u32 \<Rightarrow> (CpuStat \<times> (u32 \<rightharpoonup> NetworkStat) \<times> CpuMemStat \<times> DiskStat) list \<Rightarrow> ProcessLastStat \<Rightarrow>
     (ProcessStat list \<times> ProcessLastStat) result" where
  "stat_rounds pid [] prev = Inr ([], prev)"
| "stat_rounds pid ((delta, net, cm, disk) # rs) prev =
     bindR (new_stats delta net pid cm disk prev) (\<lambda>(stat, prev').
     bindR (stat_rounds pid rs prev') (\<lambda>(stats, prev''). Inr (stat # stats, prev'')))"

lemma stat_rounds_disk:
  assumes "stat_rounds pid rs prev = Inr (stats, prev')" and "rs \<noteq> []"
    and "list_all (\<lambda>(_, _, _, disk). disk_read disk \<noteq> None) rs"
  shows "Some (value_or (disk_read (ls_disk_stat prev)) 0 +
      sum_list (map (\<lambda>s. value_or (disk_read (disk_usage s)) 0) stats)) = disk_read (snd (snd (snd (last rs))))"
  using assms
proof (induction pid rs prev arbitrary: stats prev' rule: stat_rounds.induct)
  case (1 pid prev)
  then show ?case by simp
next
  case (2 pid delta net cm disk rs prev)
  then obtain r where r: "disk_read disk = Some r" by auto
  from 2 obtain stat p1 stats' p2 where n: "new_stats delta net pid cm disk prev = Inr (stat, p1)"
    and s: "stat_rounds pid rs p1 = Inr (stats', p2)" and e: "stats = stat # stats'"
    by (auto simp: bindR_Inr_iff)
  have d: "disk_read (disk_usage stat) = Some (r - value_or (disk_read (ls_disk_stat prev)) 0)"
    and p1: "disk_read (ls_disk_stat p1) = Some r"
    using n r by (auto simp: new_stats_def bindR_Inr_iff disk_delta_def)
  show ?case
  proof (cases "rs = []")
    case True
    then show ?thesis using s e d r by simp
  next
    case False
    then show ?thesis
      using "2.IH" [OF s False] e d p1 "2.prems"(3) by (simp add: algebra_simps)
  qed
qed

section \<open>The Windows build\<close>

lemma windows_update_pids_domains:
  "windows_update_pids mem d net opened pids seen pt = Inr (seen', pt') \<Longrightarrow>
     dom (list_table pt') = dom (list_table pt) \<union> set pids \<and>
     dom (stat_table pt') = dom (stat_table pt) \<union> set pids \<and>
     dom (last_stat_table pt') = dom (last_stat_table pt) \<union> set pids \<and>
     (\<forall>p. seen' p \<longleftrightarrow> seen p \<or> p \<in> set pids)"
proof (induction pids arbitrary: seen pt)
  case Nil
  then show ?case by simp
next
  case (Cons pid pids)
  then obtain pt1 where u: "windows_update_pid mem d net pid (opened pid) pt = Inr pt1"
    and us: "windows_update_pids mem d net opened pids (seen(pid := True)) pt1 = Inr (seen', pt')"
    by (auto simp: bindR_Inr_iff)
  have "dom (list_table pt1) = insert pid (dom (list_table pt))"
    "dom (stat_table pt1) = insert pid (dom (stat_table pt))"
    "dom (last_stat_table pt1) = insert pid (dom (last_stat_table pt))"
    using u by (auto simp: windows_update_pid_def Let_def bindR_Inr_iff split: option.splits)
  with Cons.IH [OF us] show ?case by auto
qed

lemma update_table_windows_exact:
  assumes ok: "tables_agree pt" and ord: "iterates ord"
    and upd: "update_table_windows ord mem ft pids opened (cpu, network, pt) = Inr (cpu', network', pt')"
  shows "tables_agree pt' \<and> dom (list_table pt') = set pids \<and> network' = Map.empty \<and>
    cpu' = get_system_total_cpu ft"
proof -
  define d where "d = (let d = get_system_total_cpu ft - cpu in if d = 0 then 1 else d)"
  obtain seen pt1 where u: "windows_update_pids mem d network opened pids (\<lambda>_. False) pt = Inr (seen, pt1)"
    and pt': "pt' = erase_loop seen (ord (list_table pt1)) pt1"
    and r: "network' = Map.empty" "cpu' = get_system_total_cpu ft"
    using upd by (auto simp: update_table_windows_def get_pid_network_stat_def Let_def d_def bindR_Inr_iff)
  note dom = windows_update_pids_domains [OF u]
  have ks: "set (ord (list_table pt1)) = dom (list_table pt1)" using ord by (simp add: iterates_def)
  have "dom (list_table pt') = set pids" "dom (stat_table pt') = set pids" "dom (last_stat_table pt') = set pids"
    unfolding pt' erase_loop_tables dom_if ks using dom ok by (auto simp: tables_agree_def)
  with r show ?thesis by (simp add: tables_agree_def)
qed

end
