(* ===== verification/Table_Properties.thy ===== *)
theory Table_Properties
  imports Table_Laws
begin

text \<open>
  The properties of the process table. Their witnesses run \<^verbatim>\<open>update_table\<close> once on a small
  \<^verbatim>\<open>/proc\<close>: process 7, the program \<^verbatim>\<open>/bin/a\<close> with three pages of memory, and one connection.
\<close>

section \<open>A concrete update\<close>

definition demo_stat_text :: string where
  "demo_stat_text = cpu_text [1, 2, 3, 4, 0, 0, 0, 0, 0, 0] (replicate 400 (CHR '' ''))"

definition demo_pid_stat :: string where
  "demo_pid_stat = stat_line 7 ''a'' (replicate 11 ''1'' @ ''0'' # replicate 9 ''2'' @ ''3'' # replicate 27 ''0'') ''4''"

definition demo_socket :: SocketInode where
  "demo_socket = \<lparr>si_inode = 88, si_local_ip = 0x0200A8C0, si_local_port = 22, si_rem_ip = 5, si_rem_port = 6\<rparr>"

definition demo_os :: procfs where
  "demo_os =
     \<lparr>proc_read = (\<lambda>path.
        if path = ''/proc/stat'' then Some demo_stat_text
        else if path = ''/proc/7/cmdline'' then Some (''/bin/a'' @ [NUL])
        else if path = ''/proc/7/stat'' then Some demo_pid_stat
        else None),
      proc_dir = Some [''self'', ''7''], proc_fds = (\<lambda>_. []),
      proc_net_tcp = Some (''sl'' @ [CHR 0x0A] @
        tcp_line [] ''0:'' demo_socket (replicate 6 ([], ''0'')) ''1'' @ [CHR 0x0A])\<rparr>"

definition demo_uninit :: uninit where
  "demo_uninit = \<lparr>un_stat = (\<lambda>_. 0), un_pids = [], un_tcp = [], un_inode = (\<lambda>_. []), un_io = (\<lambda>_ _. 0), un_listing = (\<lambda>_. 0)\<rparr>"

definition demo_buffer1 :: string where
  "demo_buffer1 = demo_stat_text @ NUL # drop (length demo_stat_text + 1) empty_buffer"

definition demo_buffer2 :: string where
  "demo_buffer2 = (''/bin/a'' @ [NUL]) @ NUL # drop 8 demo_buffer1"

definition demo_buffer3 :: string where
  "demo_buffer3 = demo_pid_stat @ NUL # drop (length demo_pid_stat + 1) demo_buffer2"

lemma show_demo:
  "show_nat 0 = ''0''" "show_nat (Suc 0) = ''1''" "show_nat 2 = ''2''" "show_nat 3 = ''3''" "show_nat 4 = ''4''"
  "show_nat 7 = ''7''" "show_nat 88 = ''88''"
  by (simp_all add: show_nat.simps digit_chars)

lemma demo_lengths:
  "length demo_stat_text = 425" "length demo_pid_stat = 106"
  by (simp_all add: demo_stat_text_def demo_pid_stat_def cpu_text_def stat_line_def blank_after_def length_concat sum_list_replicate show_demo)


lemma demo_read_stat: "read_stat_cpu mem demo_os empty_buffer = (Inr \<lparr>cpu_usage = 10, cpu_idle = 3\<rparr>, demo_buffer1)"
proof -
  have t: "proc_read demo_os ''/proc/stat'' = Some demo_stat_text" by (simp add: demo_os_def)
  have len: "length demo_stat_text < BUFFER_SIZE" by (simp add: demo_lengths BUFFER_SIZE_def)
  have "demo_stat_text \<noteq> []" by (simp add: demo_stat_text_def cpu_text_def)
  then have "read_file demo_os ''/proc/stat'' empty_buffer = (Some (length demo_stat_text), demo_buffer1)"
    unfolding demo_buffer1_def using t len by (intro read_file_Some)
  then have "snd (read_stat_cpu mem demo_os empty_buffer) = demo_buffer1" by (simp add: read_stat_cpu_def)
  moreover have "fst (read_stat_cpu mem demo_os empty_buffer) = Inr \<lparr>cpu_usage = 10, cpu_idle = 3\<rparr>"
    using read_stat_cpu_text [of demo_os "[1, 2, 3, 4, 0, 0, 0, 0, 0, 0]" "replicate 400 (CHR '' '')"] t len
    by (simp add: demo_stat_text_def)
  ultimately show ?thesis by (simp add: prod_eq_iff)
qed

lemma demo_path: "pid_path 7 name = ''/proc/7'' @ name"
  by (simp add: pid_path_def show_demo)

lemma demo_metadata:
  "read_process_metadata demo_os 7 demo_buffer1 =
     (Inr \<lparr>pl_pid = 7, pl_process_name = ''a'', pl_args = [''/bin/a'']\<rparr>, demo_buffer2)"
proof -
  have t: "proc_read demo_os (pid_path 7 ''/cmdline'') = Some (''/bin/a'' @ [NUL])"
    by (simp add: demo_os_def demo_path)
  then have r: "read_file demo_os (pid_path 7 ''/cmdline'') demo_buffer1 = (Some (length (''/bin/a'' @ [NUL])), demo_buffer2)"
    using read_file_Some [OF t, of demo_buffer1] by (simp add: demo_buffer2_def BUFFER_SIZE_def eval_nat_numeral)
  have f: "fst (parse_cmdline demo_os 7 demo_buffer1) = Inr [''/bin/a'']"
    using parse_cmdline_args [of demo_os 7 "[''/bin/a'']" demo_buffer1] t by (simp add: NUL_def BUFFER_SIZE_def)
  have "snd (parse_cmdline demo_os 7 demo_buffer1) = demo_buffer2" by (simp only: parse_cmdline_def r prod.case option.case snd_conv)
  with f have "parse_cmdline demo_os 7 demo_buffer1 = (Inr [''/bin/a''], demo_buffer2)" by (simp add: prod_eq_iff)
  moreover have "path_filename ''/bin/a'' = ''a''" by (simp add: path_filename_def)
  ultimately show ?thesis by (simp add: read_process_metadata_def ProcessListing_new_def)
qed

lemma demo_pid_stat_read:
  "read_pid_stat_cpu_mem 4096 demo_os 7 demo_buffer2 =
     (Inr \<lparr>cm_total_cpu_usage = 0, cm_mem_usage = 12288\<rparr>, demo_buffer3)"
proof -
  let ?ws = "replicate 11 ''1'' @ show_nat (unat (0 :: u64)) # replicate 9 ''2'' @ show_nat (unat (3 :: u64)) # replicate 27 ''0''"
  have t: "proc_read demo_os (pid_path 7 ''/stat'') = Some demo_pid_stat" by (simp add: demo_os_def demo_path)
  have len: "length demo_pid_stat < BUFFER_SIZE" by (simp add: demo_lengths BUFFER_SIZE_def)
  have line: "demo_pid_stat = stat_line 7 ''a'' ?ws ''4''" by (simp add: demo_pid_stat_def show_demo)
  have "demo_pid_stat \<noteq> []" by (simp add: line stat_line_def)
  then have "read_file demo_os (pid_path 7 ''/stat'') demo_buffer2 = (Some (length demo_pid_stat), demo_buffer3)"
    unfolding demo_buffer3_def using t len by (intro read_file_Some)
  then have s: "snd (read_pid_stat_cpu_mem 4096 demo_os 7 demo_buffer2) = demo_buffer3"
    by (simp add: read_pid_stat_cpu_mem_def)
  have words: "list_all field_word ?ws" "field_word ''4''"
    by (simp_all add: field_word_def NUL_def list_all_iff show_demo)
  have "drop 107 demo_buffer2 = drop 107 demo_stat_text @ NUL # drop 426 empty_buffer"
    by (simp add: demo_buffer2_def demo_buffer1_def demo_lengths)
  moreover have "drop 107 demo_stat_text = replicate 318 (CHR '' '')"
    by (simp add: demo_stat_text_def cpu_text_def show_demo)
  ultimately have "CHR '' '' \<in> set (drop (length demo_pid_stat + 1) demo_buffer2)" by (simp add: demo_lengths)
  then have "fst (read_pid_stat_cpu_mem 4096 demo_os 7 demo_buffer2) = Inr \<lparr>cm_total_cpu_usage = 0, cm_mem_usage = 12288\<rparr>"
    using read_pid_stat_closed [OF t len line _ refl _ _ _ words, of 4096 demo_buffer2] by simp
  with s show ?thesis by (simp add: prod_eq_iff)
qed

lemma demo_io: "read_pid_io mem demo_os 7 b = (Inr DiskStat_default, b)"
  by (simp add: read_pid_io_def read_file_def demo_os_def demo_path)

lemma demo_tcp: "parse_net_tcp [] demo_os = [88 \<mapsto> demo_socket]"
proof -
  let ?ws = "replicate 6 ([] :: string, ''0'')"
  have word: "list_all plain_word ?ws" by (simp add: plain_word_def is_space_def list_all_iff)
  have p: "parse_tcp_line m (tcp_line [] ''0:'' demo_socket ?ws ''1'') = Some demo_socket" for m
    using parse_tcp_line_line [of "[]" "''0:''" ?ws m demo_socket "''1''"] word
    by (simp add: demo_socket_def is_space_def)
  have nl: "CHR 0x0A \<notin> set (tcp_line [] ''0:'' demo_socket ?ws ''1'')"
    by (simp add: tcp_line_def spaced_def newline_not_hex demo_socket_def show_demo)
  show ?thesis
    using parse_net_tcp_lines [of demo_os "''sl''" "[tcp_line [] ''0:'' demo_socket ?ws ''1'']" "\<lambda>_. Some demo_socket" "[]"]
      p nl by (simp add: demo_os_def demo_socket_def)
qed

definition ascending :: "(u32 \<rightharpoonup> 'v) \<Rightarrow> u32 list" where
  "ascending m = sorted_list_of_set (dom m)"

lemma iterates_ascending [simp]: "iterates ascending"
  by (simp add: iterates_def ascending_def)

definition demo_table :: ProcessTable where
  "demo_table =
     \<lparr>list_table = [7 \<mapsto> \<lparr>pl_pid = 7, pl_process_name = ''a'', pl_args = [''/bin/a'']\<rparr>],
      stat_table = [7 \<mapsto> \<lparr>cpu_usage_percent = 0, mem_usage = 12288, disk_usage = DiskStat_default,
                          network_usage = NetworkStat_default\<rparr>],
      last_stat_table = [7 \<mapsto> \<lparr>ls_total_cpu_usage = 0, ls_disk_stat = DiskStat_default\<rparr>],
      last_cpu = \<lparr>cpu_usage = 10, cpu_idle = 3\<rparr>, read_buffer = demo_buffer3\<rparr>"

lemma demo_percent: "current_cpu_percent 0 10 3 = Inr 0"
  by (simp add: current_cpu_percent_def total_cpu_percent_def double_of_def round_double_def u32_of_double_def)

lemma demo_pids: "list_pids [] demo_os = Inr [7]"
  using from_chars_show_nat [of "7 :: u32" "hd []"]
  by (simp add: list_pids_def demo_os_def is_digit_def show_demo)

lemma demo_update:
  "update_table ascending (\<lambda>_. Some 88) 4096 demo_uninit demo_os [] ProcessTable_new = (Inr (), demo_table)"
proof -
  let ?delta = "\<lparr>cpu_usage = 10, cpu_idle = 3\<rparr>"
  let ?pt = "ProcessTable_new\<lparr>last_cpu := ?delta, read_buffer := demo_buffer1\<rparr>"
  have delta: "cpu_delta ?delta (last_cpu ProcessTable_new) = ?delta"
    by (simp add: cpu_delta_def ProcessTable_new_def CpuStat_default_def)
  have pid: "update_pid 4096 demo_uninit demo_os ?delta Map.empty 7 ?pt = (Inr True, demo_table)"
    by (simp add: update_pid_def measure_pid_def listing_of_def ProcessListing_default_def ProcessTable_new_def
        demo_metadata demo_pid_stat_read demo_io new_stats_def demo_percent stat_entry_def last_stat_entry_def
        disk_delta_def network_stat_of_def demo_table_def ProcessLastStat_default_def DiskStat_default_def
        NetworkStat_default_def)
  have socks: "get_socket_inode_list mem demo_os 7 = Inr []" for mem
    by (simp add: get_socket_inode_list_def demo_os_def)
  have buf: "read_buffer ProcessTable_new = empty_buffer" by (simp add: ProcessTable_new_def)
  have erase: "erase_loop (\<lambda>p. p = 7) (ascending (list_table demo_table)) demo_table = demo_table"
    by (simp add: ascending_def demo_table_def)
  show ?thesis
    using erase
    by (simp add: update_table_def buf demo_read_stat Let_def delta demo_uninit_def [THEN arg_cong [of _ _ un_pids]]
        demo_uninit_def [THEN arg_cong [of _ _ un_tcp]] demo_pids demo_tcp socks process_packets_def pid fun_upd_def)
qed

section \<open>Properties\<close>

text \<open>
  C15. Whatever the kernel answers in any sequence of updates, including updates that throw, the three
  tables hold the same processes, each under its own number and with its arguments; so neither
  the rows of the sorted view nor the sums per program can ever throw.
\<close>

theorem tables_always_agree:
  assumes "table_reachable page_size pt" and "iterates ord"
  shows "tables_ok pt \<and> (\<exists>rows. full_stats pt (ord (list_table pt)) = Inr rows) \<and>
    (\<exists>m. get_map_program_name_resource ord pt = Inr m)"
proof -
  have ok: "tables_ok pt" by (rule reachable_tables_ok [OF assms(1)])
  then have agree: "tables_agree pt" by (simp add: tables_ok_def)
  then have "set (ord (list_table pt)) \<subseteq> dom (stat_table pt)"
    using assms(2) by (simp add: iterates_def tables_agree_def)
  then show ?thesis using ok full_stats_rows get_map_totals [OF agree assms(2)] by blast
qed

lemma tables_always_agree_witness:
  "tables_ok demo_table \<and> dom (list_table demo_table) = {7}"
proof -
  have "table_reachable 4096 demo_table"
    by (rule table_reachable.update [OF table_reachable.start iterates_ascending demo_update]) simp
  from tables_always_agree [OF this iterates_ascending] show ?thesis by (simp add: demo_table_def)
qed

text \<open>
  An update that returns keeps no process that is gone: every process in the tables is in the
  list of this round.
\<close>

lemma update_forgets_the_dead:
  assumes "iterates ord" and "update_table ord first page_size un os packets pt = (Inr (), pt')"
  shows "\<exists>pids. list_pids (un_pids un) os = Inr pids \<and> dom (list_table pt') \<subseteq> set pids"
  by (rule update_table_pids [OF assms])

lemma update_forgets_the_dead_witness:
  "\<exists>pids. list_pids [] demo_os = Inr pids \<and> dom (list_table demo_table) \<subseteq> set pids"
  using update_forgets_the_dead [OF iterates_ascending demo_update] by (simp add: demo_uninit_def)

text \<open>
  C28. Each of the eight comparators is the strict order of a key (rows without a value last, larger
  values first, then the process number, descending for two rows without a total); so it is a strict
  weak order, as \<^verbatim>\<open>std::partial_sort\<close> requires.
\<close>

theorem comparator_is_key_order:
  "get_comparator type a b \<longleftrightarrow> row_key type a < row_key type b"
  by (rule get_comparator_key)

text \<open>
  C19. The sorted view, for any sort algorithm within the contract and any iteration order: it has as
  many rows as asked for (all for 0), each process at most once, in the order of the comparator,
  and no process left out belongs before one that is shown.
\<close>

theorem sorted_view_is_top:
  assumes ok: "tables_agree pt" and ord: "iterates ord" and sorter: "partial_sorter psort (row_key type)"
    and few: "card (dom (list_table pt)) < 2 ^ 32"
  shows "\<exists>rows. get_sorted psort ord type limit pt = Inr rows \<and>
     length rows = (if limit = 0 then card (dom (list_table pt))
                    else min (unat limit) (card (dom (list_table pt)))) \<and>
     sorted (map (row_key type) rows) \<and> distinct (map fs_pid rows) \<and>
     set rows \<subseteq> row_of pt ` dom (list_table pt) \<and>
     (\<forall>row \<in> set rows. \<forall>pid \<in> dom (list_table pt). row_of pt pid \<notin> set rows \<longrightarrow>
        row_key type row \<le> row_key type (row_of pt pid))"
  by (rule get_sorted_rows [OF assms])

definition demo_three :: ProcessTable where
  "demo_three =
     (let listing = (\<lambda>pid name. \<lparr>pl_pid = pid, pl_process_name = name, pl_args = [name]\<rparr>);
          stat = (\<lambda>m. \<lparr>cpu_usage_percent = 1, mem_usage = m, disk_usage = DiskStat_default,
                       network_usage = NetworkStat_default\<rparr>)
      in \<lparr>list_table = [1 \<mapsto> listing 1 ''a'', 2 \<mapsto> listing 2 ''b'', 3 \<mapsto> listing 3 ''a''],
          stat_table = [1 \<mapsto> stat 10, 2 \<mapsto> stat 30, 3 \<mapsto> stat 20],
          last_stat_table = [1 \<mapsto> ProcessLastStat_default, 2 \<mapsto> ProcessLastStat_default, 3 \<mapsto> ProcessLastStat_default],
          last_cpu = CpuStat_default, read_buffer = empty_buffer\<rparr>)"

lemma demo_three_dom: "dom (list_table demo_three) = {1, 2, 3}" "tables_agree demo_three"
  by (auto simp: demo_three_def tables_agree_def Let_def)

lemma demo_three_stats:
  "mem_usage (the (stat_table demo_three 1)) = 10" "mem_usage (the (stat_table demo_three 2)) = 30"
  "mem_usage (the (stat_table demo_three 3)) = 20"
  by (simp_all add: demo_three_def Let_def)

lemma sorted_view_is_top_witness:
  "\<exists>row. get_sorted full_sort ascending SORT_MEM 1 demo_three = Inr [row] \<and> fs_pid row = 2"
proof -
  have c: "card (dom (list_table demo_three)) = 3" by (simp add: demo_three_dom)
  then obtain rows where g: "get_sorted full_sort ascending SORT_MEM 1 demo_three = Inr rows" and l: "length rows = 1"
    and s: "set rows \<subseteq> row_of demo_three ` {1, 2, 3}"
    and best: "\<And>row pid. row \<in> set rows \<Longrightarrow> pid \<in> {1, 2, 3} \<Longrightarrow> row_of demo_three pid \<notin> set rows \<Longrightarrow>
      row_key SORT_MEM row \<le> row_key SORT_MEM (row_of demo_three pid)"
    using sorted_view_is_top [OF demo_three_dom(2) iterates_ascending sorter.partial_sorter_axioms, where type = SORT_MEM and limit = 1]
    unfolding demo_three_dom(1) by auto
  from l obtain row where r: "rows = [row]" by (cases rows) auto
  have "row = row_of demo_three 2"
  proof (rule ccontr)
    assume n: "row \<noteq> row_of demo_three 2"
    then have "row_key SORT_MEM row \<le> row_key SORT_MEM (row_of demo_three 2)" using best [of row 2] r by simp
    moreover have "row = row_of demo_three 1 \<or> row = row_of demo_three 3" using s r n by auto
    ultimately show False by (auto simp: row_key_def row_of_def less_eq_sort_key_def demo_three_stats)
  qed
  then show ?thesis using g r by simp
qed

text \<open>
  C27. The map of the resources has exactly the names of the running processes, each with the sums
  over its processes; the order in which the table is traversed has no influence.
\<close>

theorem program_sums:
  assumes "tables_agree pt" and "iterates ord"
  shows "\<exists>m. get_map_program_name_resource ord pt = Inr m \<and>
    (\<forall>name. m name = (if pids_named pt name = {} then None else Some (total_stat pt (pids_named pt name))))"
  by (rule get_map_totals [OF assms])

lemma program_sums_witness:
  "\<exists>m. get_map_program_name_resource ascending demo_three = Inr m \<and> mem_usage (the (m ''a'')) = 30 \<and> m ''c'' = None"
proof -
  have "pids_named demo_three ''a'' = {1, 3}" "pids_named demo_three ''c'' = {}"
    by (auto simp: pids_named_def demo_three_def Let_def)
  moreover obtain m where "get_map_program_name_resource ascending demo_three = Inr m"
    and "\<And>name. m name = (if pids_named demo_three name = {} then None
      else Some (total_stat demo_three (pids_named demo_three name)))"
    using program_sums [OF demo_three_dom(2) iterates_ascending] by blast
  ultimately show ?thesis by (simp add: total_stat_def Let_def demo_three_stats)
qed


definition demo_readings :: "(CpuStat \<times> (u32 \<rightharpoonup> NetworkStat) \<times> CpuMemStat \<times> DiskStat) list" where
  "demo_readings =
     (let d = \<lparr>cpu_usage = 10, cpu_idle = 3\<rparr>; c = \<lparr>cm_total_cpu_usage = 0, cm_mem_usage = 0\<rparr>
      in [(d, Map.empty, c, \<lparr>disk_read = Some 4, disk_write = None\<rparr>),
          (d, Map.empty, c, \<lparr>disk_read = Some 9, disk_write = None\<rparr>)])"


text \<open>
  On Windows the tables hold exactly the processes of the snapshot after every update, the map of
  the network is taken over and emptied, and the time of the system is remembered.
\<close>

lemma windows_update_exact:
  assumes "tables_agree pt" and "iterates ord"
    and "update_table_windows ord mem ft pids opened (cpu, network, pt) = Inr (cpu', network', pt')"
  shows "tables_agree pt' \<and> dom (list_table pt') = set pids \<and> network' = Map.empty \<and>
    cpu' = get_system_total_cpu ft"
  by (rule update_table_windows_exact [OF assms])

lemma windows_update_exact_witness:
  "\<exists>cpu network pt. update_table_windows ascending (\<lambda>_. 0) None [4, 5] (\<lambda>_. None) (0, Map.empty, ProcessTable_new) =
     Inr (cpu, network, pt) \<and> dom (list_table pt) = {4, 5} \<and> cpu = 0"
proof -
  have ok: "tables_agree ProcessTable_new" using tables_ok_new by (simp add: tables_ok_def)
  obtain cpu network pt where u: "update_table_windows ascending (\<lambda>_. 0) None [4, 5] (\<lambda>_. None) (0, Map.empty, ProcessTable_new) =
      Inr (cpu, network, pt)"
    by (simp add: update_table_windows_def get_pid_network_stat_def windows_update_pid_def Let_def)
  from windows_update_exact [OF ok iterates_ascending u] u show ?thesis
    by (auto simp: get_system_total_cpu_def total_cpu_of_def)
qed

end
