(* ===== verification/Windows_Client.thy ===== *)
theory Windows_Client
  imports Table_Properties
begin

text \<open>
  How the Windows build gets its data: the snapshot of the processes (\<^verbatim>\<open>get_list_pids\<close> of
  \<^verbatim>\<open>src/client/process_table.cpp\<close>) and the trace session that delivers the events of the network
  (\<^verbatim>\<open>start_trace\<close> of \<^verbatim>\<open>src/client/network_processing.cpp\<close>). The calls of Windows are parameters over its
  state \<open>'w\<close>, with their documented laws as hypotheses.
\<close>

section \<open>The snapshot of the processes\<close>

text \<open>The entry a call has filled, here its process number; \<open>None\<close> when the call returns false.\<close>

record 'w snapshot_api =
  CreateToolhelp32Snapshot :: "'w \<Rightarrow> u64 \<times> 'w"
  Process32FirstW :: "u64 \<Rightarrow> 'w \<Rightarrow> u32 option \<times> 'w"
  Process32NextW :: "u64 \<Rightarrow> 'w \<Rightarrow> u32 option \<times> 'w"
  CloseHandle :: "u64 \<Rightarrow> 'w \<Rightarrow> 'w"

text \<open>The loop runs as long as Windows has a next entry; \<open>None\<close> if that never ends.\<close>

partial_function (option) list_pids_loop ::
  "'w snapshot_api \<Rightarrow> u64 \<Rightarrow> u32 \<Rightarrow> u32 list \<Rightarrow> 'w \<Rightarrow> (u32 list \<times> 'w) option" where
  "list_pids_loop api snapshot pid list w =
     (case Process32NextW api snapshot w of
        (None, w') \<Rightarrow> Some (list @ [pid], w')
      | (Some pid', w') \<Rightarrow> list_pids_loop api snapshot pid' (list @ [pid]) w')"

definition get_list_pids :: "'w snapshot_api \<Rightarrow> 'w \<Rightarrow> (u32 list \<times> 'w) option" where
  "get_list_pids api w =
     (case CreateToolhelp32Snapshot api w of
        (snapshot, w1) \<Rightarrow>
          (case (case Process32FirstW api snapshot w1 of
                   (None, w2) \<Rightarrow> Some ([], w2)
                 | (Some pid, w2) \<Rightarrow> list_pids_loop api snapshot pid [] w2) of
             None \<Rightarrow> None
           | Some (list, w3) \<Rightarrow> Some (list, CloseHandle api snapshot w3)))"

text \<open>The entries that \<^verbatim>\<open>Process32NextW\<close> still gives, one after the other.\<close>

fun next_entries :: "'w snapshot_api \<Rightarrow> u64 \<Rightarrow> u32 list \<Rightarrow> 'w \<Rightarrow> bool" where
  "next_entries api snapshot [] w = (fst (Process32NextW api snapshot w) = None)"
| "next_entries api snapshot (pid # pids) w =
     (fst (Process32NextW api snapshot w) = Some pid \<and>
      next_entries api snapshot pids (snd (Process32NextW api snapshot w)))"

lemma list_pids_loop_entries:
  "next_entries api snapshot pids w \<Longrightarrow> \<exists>w'. list_pids_loop api snapshot pid acc w = Some (acc @ pid # pids, w')"
proof (induction pids arbitrary: pid acc w)
  case Nil
  then show ?case
    by (cases "Process32NextW api snapshot w") (simp add: list_pids_loop.simps [of _ _ _ _ w])
next
  case (Cons p pids)
  then obtain w1 where w1: "Process32NextW api snapshot w = (Some p, w1)" "next_entries api snapshot pids w1"
    by (cases "Process32NextW api snapshot w") simp
  from Cons.IH [OF w1(2), of p "acc @ [pid]"] show ?case
    by (simp add: list_pids_loop.simps [of _ _ _ _ w] w1(1))
qed

lemma get_pids_entries:
  assumes "CreateToolhelp32Snapshot api w = (snapshot, w1)"
    and "Process32FirstW api snapshot w1 = (Some pid, w2)" and "next_entries api snapshot pids w2"
  shows "\<exists>w'. get_list_pids api w = Some (pid # pids, w')"
  using list_pids_loop_entries [OF assms(3), of pid "[]"] assms(1,2) by (auto simp: get_list_pids_def)

section \<open>The trace session\<close>

record EVENT_TRACE_PROPERTIES =
  etp_BufferSize :: u32
  etp_LogFileMode :: u32
  etp_LoggerNameOffset :: u32

record 'w trace_api =
  StartTraceW :: "string \<Rightarrow> EVENT_TRACE_PROPERTIES \<Rightarrow> 'w \<Rightarrow> u32 \<times> u64 \<times> 'w"
  ControlTraceW :: "u64 \<Rightarrow> string \<Rightarrow> EVENT_TRACE_PROPERTIES \<Rightarrow> u32 \<Rightarrow> 'w \<Rightarrow> u32 \<times> 'w"
  EnableTraceEx2 :: "u64 \<Rightarrow> string \<Rightarrow> u32 \<Rightarrow> u8 \<Rightarrow> 'w \<Rightarrow> u32 \<times> 'w"
  OpenTraceW :: "string \<Rightarrow> u32 \<Rightarrow> 'w \<Rightarrow> u64 \<times> 'w"
  ProcessTrace :: "u64 \<Rightarrow> 'w \<Rightarrow> event_record list \<times> 'w"

definition ERROR_ALREADY_EXISTS :: u32 where "ERROR_ALREADY_EXISTS = 183"
definition EVENT_TRACE_REAL_TIME_MODE :: u32 where "EVENT_TRACE_REAL_TIME_MODE = 0x100"
definition EVENT_TRACE_CONTROL_STOP :: u32 where "EVENT_TRACE_CONTROL_STOP = 1"
definition EVENT_CONTROL_CODE_ENABLE_PROVIDER :: u32 where "EVENT_CONTROL_CODE_ENABLE_PROVIDER = 1"
definition TRACE_LEVEL_VERBOSE :: u8 where "TRACE_LEVEL_VERBOSE = 5"
definition PROCESS_TRACE_MODE_REAL_TIME :: u32 where "PROCESS_TRACE_MODE_REAL_TIME = 0x100"
definition PROCESS_TRACE_MODE_EVENT_RECORD :: u32 where "PROCESS_TRACE_MODE_EVENT_RECORD = 0x10000000"
definition INVALID_PROCESSTRACE_HANDLE :: u64 where "INVALID_PROCESSTRACE_HANDLE = 0xFFFFFFFFFFFFFFFF"

definition session_name :: string where "session_name = ''RMTNetworkSession''"

definition kernel_network_guid :: string where
  "kernel_network_guid = ''{7dd42a49-5329-4832-8dfd-43d979153a88}''"

text \<open>
  The properties as \<^verbatim>\<open>start_trace\<close> fills them; \<open>n\<close> is \<^verbatim>\<open>sizeof(EVENT_TRACE_PROPERTIES)\<close>, and the name
  takes two bytes per character with its null.
\<close>

definition trace_properties :: "nat \<Rightarrow> EVENT_TRACE_PROPERTIES" where
  "trace_properties n =
     \<lparr>etp_BufferSize = of_nat (n + 2 * (length session_name + 1)),
      etp_LogFileMode = EVENT_TRACE_REAL_TIME_MODE, etp_LoggerNameOffset = of_nat n\<rparr>"

text \<open>Starting the session; one that is left from an earlier run is stopped first.\<close>

definition start_session :: "'w trace_api \<Rightarrow> nat \<Rightarrow> 'w \<Rightarrow> u32 \<times> u64 \<times> 'w" where
  "start_session api n w =
     (case StartTraceW api session_name (trace_properties n) w of
        (status, trace_handle, w1) \<Rightarrow>
          if status = ERROR_ALREADY_EXISTS
          then (case ControlTraceW api 0 session_name (trace_properties n) EVENT_TRACE_CONTROL_STOP w1 of
                  (_, w2) \<Rightarrow> StartTraceW api session_name (trace_properties n) w2)
          else (status, trace_handle, w1))"

text \<open>
  The thread of \<^verbatim>\<open>NetworkETWHandler::setup_network\<close>: how it ends, and what the events delivered by
  \<^verbatim>\<open>ProcessTrace\<close> make of the shared map.
\<close>

datatype trace_end = Start_failed u32 | Enable_failed u32 | Open_failed | Trace_ended

definition start_trace ::
  "'w trace_api \<Rightarrow> nat \<Rightarrow> tdh_api \<Rightarrow> (string \<Rightarrow> u32 option) \<Rightarrow> 'w \<Rightarrow> (u32 \<rightharpoonup> NetworkStat) \<Rightarrow>
     trace_end \<times> 'w \<times> (u32 \<rightharpoonup> NetworkStat) result" where
  "start_trace api n tdh inet w pid_network_stat_map =
     (case start_session api n w of
        (status, trace_handle, w1) \<Rightarrow>
          if status \<noteq> 0 then (Start_failed status, w1, Inr pid_network_stat_map)
          else
            (case EnableTraceEx2 api trace_handle kernel_network_guid EVENT_CONTROL_CODE_ENABLE_PROVIDER
                    TRACE_LEVEL_VERBOSE w1 of
               (status, w2) \<Rightarrow>
                 if status \<noteq> 0 then (Enable_failed status, w2, Inr pid_network_stat_map)
                 else
                   (case OpenTraceW api session_name
                           (PROCESS_TRACE_MODE_REAL_TIME OR PROCESS_TRACE_MODE_EVENT_RECORD) w2 of
                      (hParse, w3) \<Rightarrow>
                        if hParse = INVALID_PROCESSTRACE_HANDLE then (Open_failed, w3, Inr pid_network_stat_map)
                        else (case ProcessTrace api hParse w3 of
                                (events, w4) \<Rightarrow>
                                  (Trace_ended, w4, on_events tdh inet events pid_network_stat_map)))))"

section \<open>What Windows documents\<close>

text \<open>
  Sessions have a name each. \<open>running\<close> gives the names of those that run, \<open>allowed\<close> says that the
  program may control sessions and one more fits.
\<close>

definition trace_laws :: "'w trace_api \<Rightarrow> ('w \<Rightarrow> string set) \<Rightarrow> ('w \<Rightarrow> bool) \<Rightarrow> bool" where
  "trace_laws api running allowed \<longleftrightarrow>
     (\<forall>name p w. name \<notin> running w \<and> allowed w \<longrightarrow>
        (case StartTraceW api name p w of (status, h, w') \<Rightarrow>
           status = 0 \<and> running w' = insert name (running w) \<and> allowed w')) \<and>
     (\<forall>name p w. name \<in> running w \<and> allowed w \<longrightarrow>
        (case StartTraceW api name p w of (status, h, w') \<Rightarrow>
           status = ERROR_ALREADY_EXISTS \<and> running w' = running w \<and> allowed w')) \<and>
     (\<forall>name p w. name \<in> running w \<and> allowed w \<longrightarrow>
        (case ControlTraceW api 0 name p EVENT_TRACE_CONTROL_STOP w of (status, w') \<Rightarrow>
           status = 0 \<and> running w' = running w - {name} \<and> allowed w')) \<and>
     (\<forall>h g code level w. running (snd (EnableTraceEx2 api h g code level w)) = running w) \<and>
     (\<forall>name mode w. running (snd (OpenTraceW api name mode w)) = running w) \<and>
     (\<forall>h w. running (snd (ProcessTrace api h w)) \<subseteq> running w)"

lemma law_start_new:
  assumes "trace_laws api running allowed" and "name \<notin> running w" and "allowed w"
    and "StartTraceW api name p w = (status, h, w')"
  shows "status = 0" "running w' = insert name (running w)" "allowed w'"
  using assms(1) [unfolded trace_laws_def, THEN conjunct1, rule_format, of name w p] assms(2-4) by simp_all

lemma law_start_again:
  assumes "trace_laws api running allowed" and "name \<in> running w" and "allowed w"
    and "StartTraceW api name p w = (status, h, w')"
  shows "status = ERROR_ALREADY_EXISTS" "running w' = running w" "allowed w'"
  using assms(1) [unfolded trace_laws_def, THEN conjunct2, THEN conjunct1, rule_format, of name w p] assms(2-4)
  by simp_all

lemma law_stop:
  assumes "trace_laws api running allowed" and "name \<in> running w" and "allowed w"
    and "ControlTraceW api 0 name p EVENT_TRACE_CONTROL_STOP w = (status, w')"
  shows "running w' = running w - {name}" "allowed w'"
  using assms(1) [unfolded trace_laws_def, THEN conjunct2, THEN conjunct2, THEN conjunct1, rule_format, of name w p]
    assms(2-4) by simp_all

lemma law_enable_open:
  assumes "trace_laws api running allowed"
  shows "EnableTraceEx2 api h g code level w = (status, w') \<Longrightarrow> running w' = running w"
    and "OpenTraceW api name mode w = (hParse, w') \<Longrightarrow> running w' = running w"
    and "ProcessTrace api h w = (events, w') \<Longrightarrow> running w' \<subseteq> running w"
  using assms [unfolded trace_laws_def, THEN conjunct2, THEN conjunct2, THEN conjunct2]
  by (metis snd_conv)+

lemma start_session_lawful:
  assumes "trace_laws api running allowed" and "allowed w"
  shows "\<exists>h w'. start_session api n w = (0, h, w') \<and> running w' = insert session_name (running w) \<and> allowed w'"
proof -
  obtain status h w1 where 1: "StartTraceW api session_name (trace_properties n) w = (status, h, w1)"
    by (cases "StartTraceW api session_name (trace_properties n) w")
  show ?thesis
  proof (cases "session_name \<in> running w")
    case False
    with 1 law_start_new [OF assms(1) False assms(2) 1] show ?thesis
      by (simp add: start_session_def ERROR_ALREADY_EXISTS_def)
  next
    case True
    note r1 = law_start_again [OF assms(1) True assms(2) 1]
    obtain status2 w2 where 2: "ControlTraceW api 0 session_name (trace_properties n) EVENT_TRACE_CONTROL_STOP w1 = (status2, w2)"
      by (cases "ControlTraceW api 0 session_name (trace_properties n) EVENT_TRACE_CONTROL_STOP w1")
    have "session_name \<in> running w1" using True r1(2) by simp
    note r2 = law_stop [OF assms(1) this r1(3) 2]
    obtain status3 h3 w3 where 3: "StartTraceW api session_name (trace_properties n) w2 = (status3, h3, w3)"
      by (cases "StartTraceW api session_name (trace_properties n) w2")
    have "session_name \<notin> running w2" using r2(1) by simp
    note r3 = law_start_new [OF assms(1) this r2(2) 3]
    show ?thesis using 1 2 3 r1 r2 r3 True by (auto simp: start_session_def)
  qed
qed

section \<open>An update behind a failed snapshot\<close>

lemma windows_update_pids_others:
  "windows_update_pids mem d net opened pids seen pt = Inr (seen', pt') \<Longrightarrow> pid \<notin> set pids \<Longrightarrow>
     stat_table pt' pid = stat_table pt pid \<and> last_stat_table pt' pid = last_stat_table pt pid"
proof (induction pids arbitrary: seen pt)
  case Nil
  then show ?case by simp
next
  case (Cons p pids)
  from Cons.prems(1) obtain pt1 where u: "windows_update_pid mem d net p (opened p) pt = Inr pt1"
    and us: "windows_update_pids mem d net opened pids (seen(p := True)) pt1 = Inr (seen', pt')"
    by (auto simp: bindR_Inr_iff)
  have "stat_table pt1 pid = stat_table pt pid \<and> last_stat_table pt1 pid = last_stat_table pt pid"
    using u Cons.prems(2) by (auto simp: windows_update_pid_def Let_def bindR_Inr_iff split: option.splits)
  with Cons.IH [OF us] Cons.prems(2) show ?case by simp
qed

lemma windows_update_pids_entry:
  assumes "windows_update_pids mem d net opened pids seen pt = Inr (seen', pt')"
    and "distinct pids" and "pid \<in> set pids" and "opened pid = Some h"
  shows "\<exists>st prev. windows_stats d net pid h (last_stat_entry pt pid) = Inr (st, prev) \<and>
    stat_table pt' pid = Some st \<and> last_stat_table pt' pid = Some prev"
  using assms(1-3)
proof (induction pids arbitrary: seen pt)
  case Nil
  then show ?case by simp
next
  case (Cons p pids)
  from Cons.prems(1) obtain pt1 where u: "windows_update_pid mem d net p (opened p) pt = Inr pt1"
    and us: "windows_update_pids mem d net opened pids (seen(p := True)) pt1 = Inr (seen', pt')"
    by (auto simp: bindR_Inr_iff)
  show ?case
  proof (cases "p = pid")
    case True
    with u assms(4) obtain st prev where
      "windows_stats d net pid h (last_stat_entry pt pid) = Inr (st, prev)"
      "stat_table pt1 pid = Some st" "last_stat_table pt1 pid = Some prev"
      by (auto simp: windows_update_pid_def last_stat_entry_def Let_def bindR_Inr_iff)
    moreover have "pid \<notin> set pids" using True Cons.prems(2) by simp
    ultimately show ?thesis using windows_update_pids_others [OF us] by simp
  next
    case False
    then have "last_stat_table pt1 pid = last_stat_table pt pid"
      using u by (auto simp: windows_update_pid_def Let_def bindR_Inr_iff split: option.splits)
    then have "last_stat_entry pt1 pid = last_stat_entry pt pid" by (simp add: last_stat_entry_def)
    with Cons.IH [OF us] Cons.prems(2,3) False show ?thesis by simp
  qed
qed

definition no_processes :: "ProcessTable \<Rightarrow> ProcessTable" where
  "no_processes pt = pt\<lparr>list_table := Map.empty, stat_table := Map.empty, last_stat_table := Map.empty\<rparr>"

lemma erase_loop_rest:
  "last_cpu (erase_loop seen ks pt) = last_cpu pt \<and> read_buffer (erase_loop seen ks pt) = read_buffer pt"
  by (induction seen ks pt rule: erase_loop.induct) simp_all

lemma erase_everything:
  assumes "set ks = dom (list_table pt)" and "dom (stat_table pt) = dom (list_table pt)"
    and "dom (last_stat_table pt) = dom (list_table pt)"
  shows "erase_loop (\<lambda>_. False) ks pt =
    pt\<lparr>list_table := Map.empty, stat_table := Map.empty, last_stat_table := Map.empty\<rparr>"
proof -
  have *: "(\<lambda>p. if p \<in> dom m then None else m p) = Map.empty" for m :: "u32 \<rightharpoonup> 'a"
    by (auto simp: fun_eq_iff)
  show ?thesis
    using erase_loop_tables [of "\<lambda>_. False" ks pt] erase_loop_rest [of "\<lambda>_. False" ks pt]
      * [of "list_table pt"] * [of "stat_table pt"] * [of "last_stat_table pt"] assms
    by (intro ProcessTable.equality) simp_all
qed

section \<open>Properties\<close>

text \<open>
  When Windows lets the program control sessions, the thread of the network always starts its
  session, also when an earlier run of the client has left one of that name behind; every other
  session goes on; and unless Windows refuses to enable the provider or to open the trace, the map
  becomes what the delivered events make of it.
\<close>

lemma trace_session_taken_over:
  assumes "trace_laws api running allowed" and "allowed w"
  shows "\<exists>h w1. start_session api n w = (0, h, w1) \<and> running w1 = insert session_name (running w) \<and>
    (\<exists>stopped w' m'. start_trace api n tdh inet w m = (stopped, w', m') \<and>
       (\<forall>status. stopped \<noteq> Start_failed status) \<and> running w' \<subseteq> insert session_name (running w) \<and>
       (if stopped = Trace_ended then \<exists>events. m' = on_events tdh inet events m
        else m' = Inr m \<and> running w' = insert session_name (running w)))"
proof -
  obtain h w1 where s: "start_session api n w = (0, h, w1)"
    "running w1 = insert session_name (running w)"
    using start_session_lawful [OF assms] by blast
  note keep = law_enable_open [OF assms(1)]
  obtain e w2 where e: "EnableTraceEx2 api h kernel_network_guid EVENT_CONTROL_CODE_ENABLE_PROVIDER
      TRACE_LEVEL_VERBOSE w1 = (e, w2)"
    by (cases "EnableTraceEx2 api h kernel_network_guid EVENT_CONTROL_CODE_ENABLE_PROVIDER TRACE_LEVEL_VERBOSE w1")
  obtain hp w3 where o: "OpenTraceW api session_name
      (PROCESS_TRACE_MODE_REAL_TIME OR PROCESS_TRACE_MODE_EVENT_RECORD) w2 = (hp, w3)"
    by (cases "OpenTraceW api session_name (PROCESS_TRACE_MODE_REAL_TIME OR PROCESS_TRACE_MODE_EVENT_RECORD) w2")
  obtain events w4 where p: "ProcessTrace api hp w3 = (events, w4)" by (cases "ProcessTrace api hp w3")
  have r: "running w2 = running w1" "running w3 = running w2" "running w4 \<subseteq> running w3"
    using keep(1) [OF e] keep(2) [OF o] keep(3) [OF p] .
  have "\<exists>stopped w' m'. start_trace api n tdh inet w m = (stopped, w', m') \<and>
       (\<forall>status. stopped \<noteq> Start_failed status) \<and> running w' \<subseteq> insert session_name (running w) \<and>
       (if stopped = Trace_ended then \<exists>events. m' = on_events tdh inet events m
        else m' = Inr m \<and> running w' = insert session_name (running w))"
  proof (cases "e = 0 \<and> hp \<noteq> INVALID_PROCESSTRACE_HANDLE")
    case True
    then have "start_trace api n tdh inet w m = (Trace_ended, w4, on_events tdh inet events m)"
      using s e o p by (simp add: start_trace_def)
    then show ?thesis using r s(2) by auto
  next
    case False
    then show ?thesis using s e o p r by (cases "e = 0") (simp_all add: start_trace_def)
  qed
  with s show ?thesis by blast
qed

text \<open>A Windows whose state is the set of sessions; the session delivers nothing.\<close>

definition plain_trace :: "string set trace_api" where
  "plain_trace =
     \<lparr>StartTraceW = (\<lambda>name p w. if name \<in> w then (ERROR_ALREADY_EXISTS, 0, w) else (0, 1, insert name w)),
      ControlTraceW = (\<lambda>h name p code w. (0, if code = EVENT_TRACE_CONTROL_STOP then w - {name} else w)),
      EnableTraceEx2 = (\<lambda>h g code level w. (0, w)), OpenTraceW = (\<lambda>name mode w. (7, w)),
      ProcessTrace = (\<lambda>h w. ([], w))\<rparr>"

lemma trace_session_taken_over_witness:
  "\<exists>h w1. start_session plain_trace 120 {''RMTNetworkSession'', ''other''} = (0, h, w1) \<and>
     w1 = {''RMTNetworkSession'', ''other''}"
proof -
  have "trace_laws plain_trace (\<lambda>w. w) (\<lambda>w. True)"
    by (simp add: trace_laws_def plain_trace_def)
  from trace_session_taken_over [OF this, where w = "{''RMTNetworkSession'', ''other''}" and n = 120
      and tdh = etw_demo_tdh and inet = etw_demo_inet and m = Map.empty]
  show ?thesis by (auto simp: session_name_def)
qed


text \<open>A Windows that has no snapshot to give, a table with one process and another process to come.\<close>

definition no_snapshot :: "nat snapshot_api" where
  "no_snapshot = \<lparr>CreateToolhelp32Snapshot = (\<lambda>w. (0xFFFFFFFFFFFFFFFF, w)), Process32FirstW = (\<lambda>h w. (None, w)),
     Process32NextW = (\<lambda>h w. (None, w)), CloseHandle = (\<lambda>h w. w)\<rparr>"

definition one_process :: ProcessTable where
  "one_process = ProcessTable_new\<lparr>list_table := [9 \<mapsto> ProcessListing_new 9 ''b'' []],
     stat_table := [9 \<mapsto> ProcessStat_default], last_stat_table := [9 \<mapsto> ProcessLastStat_default]\<rparr>"

definition idle_process :: open_process where
  "idle_process = \<lparr>op_name = ''a'', op_times = None, op_memory = None, op_io = Some (1000, 2000)\<rparr>"


end
