(* ===== verification/Unit_Tests.thy ===== *)
theory Unit_Tests
  imports Windows_Client Queue_History
begin

text \<open>
  The unit tests of the repository (\<^verbatim>\<open>src/tests/unit/common_test.cpp\<close> and \<^verbatim>\<open>client_test.cpp\<close>) on the
  model: what each test expects of the program is a theorem about the definitions.
\<close>

section \<open>common_test.cpp\<close>

lemma test_swap_endian:
  "swap_endian32 0x12345678 = 0x78563412"
  "swap_endian64 0x1234567890abcdef = 0xefcdab9078563412"
  by code_simp+

lemma test_read_write_uint32:
  "read_uint32 (stream_of (write_uint32 0x12345678)) = Inr (0x12345678, stream_of [])"
  using parsesD_all [OF parses_uint32] by blast

lemma test_read_write_string:
  assumes "write_string s = Inr oss"
  shows "read_string (stream_of oss) = Inr (s, stream_of [])"
  using parsesD_all [OF parses_string [OF assms]] .

lemma test_read_write_vector_string:
  assumes "write_vector_string strings = Inr oss" and "list_all (\<lambda>s. length s < 2 ^ 32) strings"
    and "length strings < 2 ^ 32"
  shows "read_vector_string mem (stream_of oss) = Inr (strings, stream_of [])"
  using parsesD_all [OF string_codec.vector_roundtrip [OF assms(2,3)]] assms(1)
  by (simp add: write_vector_string_alt read_vector_string_alt)

section \<open>client_test.cpp\<close>

text \<open>\<^verbatim>\<open>FakeProcessTable::update_table\<close> on a new table.\<close>

definition fake_process_table :: ProcessTable where
  "fake_process_table = ProcessTable_new
     \<lparr>list_table := [1234 \<mapsto> ProcessListing_new 1234 ''fake_prog_1'' [], 4231 \<mapsto> ProcessListing_new 4231 ''fake_prog_2'' []],
      stat_table :=
        [1234 \<mapsto> \<lparr>cpu_usage_percent = CPU_UNIT, mem_usage = 12 * MB,
            disk_usage = \<lparr>disk_read = Some KB, disk_write = Some KB\<rparr>,
            network_usage = \<lparr>network_recv = Some 0, network_send = Some 0\<rparr>\<rparr>,
         4231 \<mapsto> \<lparr>cpu_usage_percent = 20 * CPU_UNIT, mem_usage = MB,
            disk_usage = \<lparr>disk_read = Some 0, disk_write = Some 0\<rparr>,
            network_usage = \<lparr>network_recv = Some (2 * KB), network_send = Some (2 * KB)\<rparr>\<rparr>]\<rparr>"

definition test_config :: "ConfigEntry list" where
  "test_config = map convert_after_read [ConfigEntry_new ''fake_prog_1'' 5 2 1 1, ConfigEntry_new ''fake_prog_2'' 5 2 1 1]"

text \<open>Whatever the iteration order of the table, the logger makes the four logs the test counts.\<close>

lemma test_client_logger:
  assumes "iterates ord" and "lq_log_entries (cl_log_queue logger) = []"
    and "config_entries (cl_config logger) = test_config"
  shows "\<exists>m. get_map_program_name_resource ord fake_process_table = Inr m \<and>
    length (logger_get_batch_log 100 (fst (generate_log m now logger fs))) = 4"
proof -
  let ?d = "dom (list_table fake_process_table)"
  have d: "?d = {1234, 4231}" by (auto simp: fake_process_table_def)
  then have "finite ?d" by simp
  with assms(1) have ord: "distinct (ord (list_table fake_process_table))"
    "set (ord (list_table fake_process_table)) = {1234, 4231}"
    unfolding iterates_def d [symmetric] by simp_all
  have "length (ord (list_table fake_process_table)) = 2"
    using distinct_card [OF ord(1)] ord(2) by simp
  then obtain a b where ab: "ord (list_table fake_process_table) = [a, b]"
    by (auto simp: numeral_2_eq_2 length_Suc_conv)
  with ord have "a = 1234 \<and> b = 4231 \<or> a = 4231 \<and> b = 1234" by auto
  then have "\<exists>m. get_map_program_name_resource ord fake_process_table = Inr m \<and>
      length (findings m test_config) = 4"
    using ab
    by (elim disjE) (simp_all add: get_map_program_name_resource_def fake_process_table_def ProcessListing_new_def
        add_stat_def stat_of_def ProcessStat_default_def DiskStat_default_def NetworkStat_default_def findings_def
        entry_findings_def test_config_def convert_after_read_def ConfigEntry_new_def unit_values MB_def KB_def
        disk_total_def network_total_def Let_def)
  then obtain m where m: "get_map_program_name_resource ord fake_process_table = Inr m"
    "length (findings m test_config) = 4" by blast
  have "length (number i now f) = length f" for i f by (induction i now f rule: number.induct) simp_all
  with m(2) assms(2,3) show ?thesis
    using m(1) by (simp add: logger_get_batch_log_def generate_log_fields Let_def get_batch_log_prefix)
qed

text \<open>The queue written to its files by the destructor comes back when it is constructed again.\<close>

lemma test_log_queue:
  assumes "LogQueue_new mem num this ''rmt-test-log.txt'' ''rmt-test-ack.txt'' empty_fsys = Some (q, fs)"
    and "e = LogEntry_new 1 ''fake_prog_3'' now_ms CPU 1000" and "add_log e q fs = (q', fs')"
  shows "get_batch_log 10 q' = [e] \<and>
    (\<exists>q'' fs''. LogQueue_new mem num this ''rmt-test-log.txt'' ''rmt-test-ack.txt'' (LogQueue_destroy q' fs') =
       Some (q'', fs'') \<and> get_batch_log 10 q'' = [e])"
proof
  have q: "q = \<lparr>lq_log_file = ''rmt-test-log.txt'', lq_ack_file = ''rmt-test-ack.txt'', lq_ack_id = 0,
      lq_log_entries = [], lq_new_id = 1\<rparr>"
    "files fs = [''rmt-test-ack.txt'' \<mapsto> ''0'', ''rmt-test-log.txt'' \<mapsto> []]"
    "no_read fs = no_read empty_fsys" "no_write fs = no_write empty_fsys"
    using assms(1)
    by (auto simp: LogQueue_new_def load_ack_def open_in_def open_trunc_def empty_fsys_def file_simps)
  then have q': "q' = q\<lparr>lq_log_entries := [e]\<rparr>"
    and fs': "files fs' = [''rmt-test-ack.txt'' \<mapsto> ''0'', ''rmt-test-log.txt'' \<mapsto> serialize_str e]"
    "no_read fs' = no_read empty_fsys" "no_write fs' = no_write empty_fsys"
    using assms(3) by (auto simp: add_log_def open_app_def file_simps empty_fsys_def)
  show "get_batch_log 10 q' = [e]" by (simp add: q' q(1) get_batch_log_prefix)
  have "history [e]"
    by (simp add: history_def assms(2) LogEntry_new_def storable_def sendable_def)
  moreover have "show_nat 0 = ''0''" by (simp add: show_nat.simps digit_chars)
  ultimately have "queue_at [e] 0 0 0 (q'\<lparr>lq_new_id := 2\<rparr>) fs'"
    by (simp add: queue_at_def q' q(1) fs' empty_fsys_def)
  moreover have "LogQueue_destroy (q'\<lparr>lq_new_id := 2\<rparr>) fs' = LogQueue_destroy q' fs'"
    by (simp add: LogQueue_destroy_def write_ack_def clean_old_logs_def cong: option.case_cong if_cong)
  ultimately obtain c where "queue_at [e] 0 0 c (q'\<lparr>lq_new_id := 2\<rparr>) (LogQueue_destroy q' fs')"
    using queue_at_destroy by metis
  moreover from this have "c = 0" by (simp add: queue_at_def)
  ultimately show "\<exists>q'' fs''. LogQueue_new mem num this ''rmt-test-log.txt'' ''rmt-test-ack.txt'' (LogQueue_destroy q' fs') =
       Some (q'', fs'') \<and> get_batch_log 10 q'' = [e]"
    using queue_at_reopen [of "[e]" 0 0 0 "q'\<lparr>lq_new_id := 2\<rparr>" "LogQueue_destroy q' fs'" mem num this]
    by (simp add: q' q(1) get_batch_log_prefix)
qed

end
