(* ===== verification/Registry_Laws.thy ===== *)
theory Registry_Laws
  imports Registry
begin

text \<open>
  The Windows configuration against the documented behaviour of the registry: what a call does to
  the stored values, what the loops over the entries leave, and the properties of writing and
  reading a configuration. \<open>map_registry\<close> is a registry with these laws, for the witnesses.
\<close>

section \<open>What Windows documents of the calls\<close>

text \<open>The registry ignores the case of names; the laws speak only of the spellings the program uses.\<close>

definition program_key :: "wstring \<Rightarrow> bool" where
  "program_key p \<longleftrightarrow> p = REGISTRY_PREFIX \<or> (\<exists>i. p = entry_key i)"

definition value_names :: "wstring list" where
  "value_names = map to_wstring
     [''count'', ''process_name'', ''cpu_usage'', ''mem_usage'', ''disk_usage'', ''network_usage'']"

definition below :: "wstring \<Rightarrow> wstring \<Rightarrow> bool" where
  "below p q \<longleftrightarrow> q = p \<or> (\<exists>s. q = p @ to_wstring [CHR 0x5C] @ s)"

text \<open>
  \<open>vals r p n\<close> is the value of the name \<open>n\<close> in the key \<open>p\<close>, \<open>refers r h p\<close> says that \<open>h\<close> is an open
  handle of \<open>p\<close>. Creating a key or closing a handle changes no value; a value that was set is read
  back, type and bytes; deleting a tree removes every value in it, or reports that it does not exist
  (2), or fails half way; no call works on a null handle.
\<close>

definition registry_laws ::
  "('h, 'r) registry_api \<Rightarrow> ('r \<Rightarrow> wstring \<Rightarrow> wstring \<rightharpoonup> reg_value) \<Rightarrow> ('r \<Rightarrow> 'h \<Rightarrow> wstring \<Rightarrow> bool) \<Rightarrow> bool" where
  "registry_laws api vals refers \<longleftrightarrow>
     (\<forall>p r res h r'. program_key p \<longrightarrow> RegCreateKeyExW api p r = (res, h, r') \<longrightarrow>
        vals r' = vals r \<and> (res = 0 \<longrightarrow> refers r' h p)) \<and>
     (\<forall>h r. vals (RegCloseKey api h r) = vals r) \<and>
     (\<forall>h p n t d r r'. refers r h p \<longrightarrow> n \<in> set value_names \<longrightarrow>
        RegSetValueExW api (Some h) n t d r = (0, r') \<longrightarrow>
        refers r' h p \<and> vals r' = (vals r)(p := (vals r p)(n \<mapsto> (t, d)))) \<and>
     (\<forall>n t d r res r'. RegSetValueExW api None n t d r = (res, r') \<longrightarrow> res \<noteq> 0 \<and> vals r' = vals r) \<and>
     (\<forall>h p n t d r. refers r h p \<longrightarrow> n \<in> set value_names \<longrightarrow> vals r p n = Some (t, d) \<longrightarrow>
        length d < 2 ^ 32 \<longrightarrow>
        RegQueryValueExW api (Some h) n None r = (0, t, of_nat (length d), []) \<and>
        RegQueryValueExW api (Some h) n (Some (of_nat (length d))) r = (0, t, of_nat (length d), d)) \<and>
     (\<forall>h p n b r. refers r h p \<longrightarrow> n \<in> set value_names \<longrightarrow> vals r p n = None \<longrightarrow>
        fst (RegQueryValueExW api (Some h) n b r) \<noteq> 0) \<and>
     (\<forall>n b r. fst (RegQueryValueExW api None n b r) \<noteq> 0) \<and>
     (\<forall>p r res r'. program_key p \<longrightarrow> RegDeleteTreeW api p r = (res, r') \<longrightarrow>
        (\<forall>q. vals r' q \<subseteq>\<^sub>m vals r q \<and> (\<not> below p q \<longrightarrow> vals r' q = vals r q)) \<and>
        (res \<in> {0, 2} \<longrightarrow> (\<forall>q. below p q \<longrightarrow> vals r' q = Map.empty)))"

text \<open>The calls succeed: the program may open its keys, and nothing is full.\<close>

definition registry_permits ::
  "('h, 'r) registry_api \<Rightarrow> ('r \<Rightarrow> 'h \<Rightarrow> wstring \<Rightarrow> bool) \<Rightarrow> bool" where
  "registry_permits api refers \<longleftrightarrow>
     (\<forall>p r. program_key p \<longrightarrow> fst (RegCreateKeyExW api p r) = 0) \<and>
     (\<forall>h p n t d r. refers r h p \<longrightarrow> n \<in> set value_names \<longrightarrow> fst (RegSetValueExW api (Some h) n t d r) = 0) \<and>
     (\<forall>p r. program_key p \<longrightarrow> fst (RegDeleteTreeW api p r) \<in> {0, 2})"

lemma law_create:
  assumes "registry_laws api vals refers" and "program_key p" and "RegCreateKeyExW api p r = (res, h, r')"
  shows "vals r' = vals r" and "res = 0 \<Longrightarrow> refers r' h p"
  using assms(1) [unfolded registry_laws_def, THEN conjunct1, rule_format, OF assms(2,3)] by simp_all

lemma law_close: "registry_laws api vals refers \<Longrightarrow> vals (RegCloseKey api h r) = vals r"
  by (simp add: registry_laws_def)

lemma law_set:
  assumes "registry_laws api vals refers" and "refers r h p" and "n \<in> set value_names"
    and "RegSetValueExW api (Some h) n t d r = (0, r')"
  shows "refers r' h p" and "vals r' = (vals r)(p := (vals r p)(n \<mapsto> (t, d)))"
  using assms(1) [unfolded registry_laws_def, THEN conjunct2, THEN conjunct2, THEN conjunct1,
      rule_format, OF assms(2-4)] by simp_all

lemma law_set_null:
  assumes "registry_laws api vals refers" and "RegSetValueExW api None n t d r = (res, r')"
  shows "vals r' = vals r"
  using assms by (simp add: registry_laws_def)

lemma law_query:
  assumes "registry_laws api vals refers" and "refers r h p" and "n \<in> set value_names"
    and "vals r p n = Some (t, d)" and "length d < 2 ^ 32"
  shows "RegQueryValueExW api (Some h) n None r = (0, t, of_nat (length d), [])"
    and "RegQueryValueExW api (Some h) n (Some (of_nat (length d))) r = (0, t, of_nat (length d), d)"
  using assms(1) [unfolded registry_laws_def, THEN conjunct2, THEN conjunct2, THEN conjunct2,
      THEN conjunct2, THEN conjunct1, rule_format, OF assms(2-5)] by simp_all

lemma law_query_missing:
  assumes "registry_laws api vals refers" and "refers r h p" and "n \<in> set value_names"
    and "vals r p n = None"
  shows "fst (RegQueryValueExW api (Some h) n b r) \<noteq> 0"
  using assms(1) [unfolded registry_laws_def, THEN conjunct2, THEN conjunct2, THEN conjunct2,
      THEN conjunct2, THEN conjunct2, THEN conjunct1, rule_format, OF assms(2-4)] .

lemma law_query_null: "registry_laws api vals refers \<Longrightarrow> fst (RegQueryValueExW api None n b r) \<noteq> 0"
  by (simp add: registry_laws_def)

lemma law_delete:
  assumes "registry_laws api vals refers" and "program_key p" and "RegDeleteTreeW api p r = (res, r')"
  shows "vals r' q \<subseteq>\<^sub>m vals r q" and "\<not> below p q \<Longrightarrow> vals r' q = vals r q"
    and "res \<in> {0, 2} \<Longrightarrow> below p q \<Longrightarrow> vals r' q = Map.empty"
  using assms(1) [unfolded registry_laws_def, THEN conjunct2, THEN conjunct2, THEN conjunct2,
      THEN conjunct2, THEN conjunct2, THEN conjunct2, THEN conjunct2, rule_format, OF assms(2,3)]
  by blast+

text \<open>A registry for the witnesses: the values are the state, a handle is its path.\<close>

definition map_registry :: "(wstring, wstring \<Rightarrow> wstring \<rightharpoonup> reg_value) registry_api" where
  "map_registry =
     \<lparr>RegCreateKeyExW = (\<lambda>p r. (0, p, r)),
      RegCloseKey = (\<lambda>h r. r),
      RegSetValueExW = (\<lambda>h n t d r. case h of None \<Rightarrow> (6, r) | Some p \<Rightarrow> (0, r(p := (r p)(n \<mapsto> (t, d))))),
      RegQueryValueExW = (\<lambda>h n b r. case h of None \<Rightarrow> (6, 0, 0, [])
        | Some p \<Rightarrow> (case r p n of None \<Rightarrow> (2, 0, 0, [])
            | Some (t, d) \<Rightarrow> (0, t, of_nat (length d), if b = None then [] else d))),
      RegDeleteTreeW = (\<lambda>p r. (0, \<lambda>q. if take (length p) q = p \<and>
          (length q = length p \<or> q ! length p = widen (CHR 0x5C)) then Map.empty else r q))\<rparr>"

lemma below_iff:
  "below p q \<longleftrightarrow> take (length p) q = p \<and> (length q = length p \<or> q ! length p = widen (CHR 0x5C))"
proof
  assume "below p q"
  then show "take (length p) q = p \<and> (length q = length p \<or> q ! length p = widen (CHR 0x5C))"
    by (auto simp: below_def to_wstring_def nth_append)
next
  assume q: "take (length p) q = p \<and> (length q = length p \<or> q ! length p = widen (CHR 0x5C))"
  then have eq: "q = p @ drop (length p) q"
    by (metis append_take_drop_id)
  show "below p q"
  proof (cases "length q = length p")
    case True
    with q show ?thesis by (simp add: below_def)
  next
    case False
    have "length p \<le> length q" using q by (metis length_take min.cobounded1)
    with False have "length p < length q" by simp
    then have "drop (length p) q = widen (CHR 0x5C) # drop (Suc (length p)) q"
      using q False by (metis Cons_nth_drop_Suc)
    with eq show ?thesis
      by (auto simp: below_def to_wstring_def)
  qed
qed

lemma map_registry_laws: "registry_laws map_registry (\<lambda>r. r) (\<lambda>r h p. h = p)"
  by (auto simp: registry_laws_def map_registry_def below_iff map_le_def)

lemma map_registry_permits: "registry_permits map_registry (\<lambda>r h p. h = p)"
  by (simp add: registry_permits_def map_registry_def)

section \<open>What a call does to the values\<close>

lemma entry_key_inject [simp]: "entry_key i = entry_key j \<longleftrightarrow> i = j"
  by (simp add: entry_key_def)

lemma entry_key_prefix [simp]: "entry_key i \<noteq> REGISTRY_PREFIX" "REGISTRY_PREFIX \<noteq> entry_key i"
  by (auto simp: entry_key_def to_wstring_def)

lemma program_keys [simp]: "program_key REGISTRY_PREFIX" "program_key (entry_key i)"
  by (auto simp: program_key_def)

lemma below_prefix [simp]: "below REGISTRY_PREFIX REGISTRY_PREFIX" "below REGISTRY_PREFIX (entry_key i)"
  by (auto simp: below_def entry_key_def)

lemma value_name_in [simp]:
  "to_wstring ''count'' \<in> set value_names" "to_wstring ''process_name'' \<in> set value_names"
  "to_wstring ''cpu_usage'' \<in> set value_names" "to_wstring ''mem_usage'' \<in> set value_names"
  "to_wstring ''disk_usage'' \<in> set value_names" "to_wstring ''network_usage'' \<in> set value_names"
  by (simp_all add: value_names_def)

text \<open>A key that is open, and what it refers to.\<close>

definition opened :: "('r \<Rightarrow> 'h \<Rightarrow> wstring \<Rightarrow> bool) \<Rightarrow> 'r \<Rightarrow> 'h RegKey \<Rightarrow> wstring \<Rightarrow> bool" where
  "opened refers r key p \<longleftrightarrow> (\<exists>h. hKey key = Some h \<and> refers r h p)"

lemma RegKey_new_vals:
  assumes "registry_laws api vals refers" and "program_key p" and "RegKey_new api p r = (key, r')"
  shows "vals r' = vals r"
  using assms(3) law_create(1) [OF assms(1,2)]
  by (auto simp: RegKey_new_def open_or_create_def split: prod.splits if_splits)

lemma RegKey_new_opened:
  assumes "registry_laws api vals refers" and "registry_permits api refers"
    and "program_key p" and "RegKey_new api p r = (key, r')"
  shows "opened refers r' key p"
proof -
  obtain res h r1 where c: "RegCreateKeyExW api p r = (res, h, r1)" by (metis prod_cases3)
  with assms(2,3) have "res = 0" unfolding registry_permits_def by (metis fst_conv)
  with law_create(2) [OF assms(1,3) c] assms(4) c show ?thesis
    by (auto simp: RegKey_new_def open_or_create_def opened_def)
qed

lemma RegKey_destroy_vals:
  "registry_laws api vals refers \<Longrightarrow> vals (RegKey_destroy api key r) = vals r"
  by (simp add: law_close RegKey_destroy_def split: option.split)

lemma setRaw_vals:
  assumes "registry_laws api vals refers" and "registry_permits api refers"
    and "opened refers r key p" and "n \<in> set value_names" and "setRaw api key n t d r = (res, r')"
  shows "opened refers r' key p" and "vals r' = (vals r)(p := (vals r p)(n \<mapsto> (t, d)))"
proof -
  obtain h where h: "hKey key = Some h" "refers r h p" using assms(3) by (auto simp: opened_def)
  with assms(2,4) have "fst (RegSetValueExW api (Some h) n t d r) = 0"
    unfolding registry_permits_def by blast
  with assms(5) h(1) have "RegSetValueExW api (Some h) n t d r = (0, r')"
    by (simp add: setRaw_def)
  from law_set [OF assms(1) h(2) assms(4) this] h(1)
  show "opened refers r' key p" and "vals r' = (vals r)(p := (vals r p)(n \<mapsto> (t, d)))"
    by (auto simp: opened_def)
qed

lemma setRaw_null:
  "registry_laws api vals refers \<Longrightarrow> \<not> valid key \<Longrightarrow> vals (snd (setRaw api key n t d r)) = vals r"
  by (cases "RegSetValueExW api None n t d r") (simp add: valid_def setRaw_def law_set_null)

lemma queryRaw_value:
  assumes "registry_laws api vals refers" and "opened refers r key p" and "n \<in> set value_names"
    and "vals r p n = Some (t, d)" and "length d < 2 ^ 32"
  shows "queryRaw api key n r = Inr (t, d)"
proof -
  obtain h where h: "hKey key = Some h" "refers r h p" using assms(2) by (auto simp: opened_def)
  have "unat (of_nat (length d) :: u32) = length d"
    using assms(5) by (simp add: unat_of_nat)
  with law_query [OF assms(1) h(2) assms(3-5)] h(1) show ?thesis
    by (simp add: queryRaw_def)
qed

lemma queryRaw_missing:
  assumes "registry_laws api vals refers" and "opened refers r key p" and "n \<in> set value_names"
    and "vals r p n = None"
  shows "\<exists>e. e \<noteq> 0 \<and> queryRaw api key n r = Inl e"
proof -
  obtain h where h: "hKey key = Some h" "refers r h p" using assms(2) by (auto simp: opened_def)
  with law_query_missing [OF assms(1) h(2) assms(3,4), of None] show ?thesis
    by (cases "RegQueryValueExW api (Some h) n None r") (simp add: queryRaw_def)
qed

lemma queryRaw_null:
  assumes "registry_laws api vals refers" and "\<not> valid key"
  shows "\<exists>e. e \<noteq> 0 \<and> queryRaw api key n r = Inl e"
  using law_query_null [OF assms(1), of n None r] assms(2)
  by (cases "RegQueryValueExW api None n None r") (simp add: valid_def queryRaw_def)

section \<open>Values are read back\<close>

lemma wbytes_snoc: "wbytes (ws @ [0]) = wbytes ws @ mem_bytes 2 (0 :: u16)"
  by (simp add: wbytes_def)

lemma get_wstring_value:
  assumes "queryRaw api key n r = Inr (REG_SZ, wbytes (v @ [0]))"
  shows "get_wstring api key n r = (0, Some v)"
proof -
  have "wbytes (v @ [0]) \<noteq> []" by (simp add: wbytes_snoc mem_bytes_2)
  with assms show ?thesis by (simp add: get_wstring_def)
qed

lemma get_dword_value:
  "queryRaw api key n r = Inr (REG_DWORD, mem_bytes 4 v) \<Longrightarrow> get_dword api key n r = (0, Some v)"
  by (simp add: get_dword_def)

lemma get_qword_value:
  "queryRaw api key n r = Inr (REG_QWORD, mem_bytes 8 v) \<Longrightarrow> get_qword api key n r = (0, Some v)"
  by (simp add: get_qword_def)

text \<open>The values an entry is stored as.\<close>

definition entry_values :: "ConfigEntry \<Rightarrow> wstring \<rightharpoonup> reg_value" where
  "entry_values c =
     [to_wstring ''process_name'' \<mapsto> (REG_SZ, wbytes (to_wstring (ce_process_name c) @ [0])),
      to_wstring ''cpu_usage'' \<mapsto> (REG_DWORD, mem_bytes 4 (ce_cpu_usage c)),
      to_wstring ''mem_usage'' \<mapsto> (REG_QWORD, mem_bytes 8 (ce_mem_usage c)),
      to_wstring ''disk_usage'' \<mapsto> (REG_QWORD, mem_bytes 8 (ce_disk_usage c)),
      to_wstring ''network_usage'' \<mapsto> (REG_QWORD, mem_bytes 8 (ce_network_usage c))]"

definition short_name :: "ConfigEntry \<Rightarrow> bool" where
  "short_name c \<longleftrightarrow> (length (ce_process_name c) + 1) * 2 < 2 ^ 32"

lemma set_wstring_bytes:
  assumes "(length v + 1) * 2 < 2 ^ 32"
  shows "set_wstring api key n v r = setRaw api key n REG_SZ (wbytes (v @ [0])) r"
proof -
  have "unat (of_nat ((length v + 1) * 2) :: u32) = (length v + 1) * 2"
    using assms by (simp only: unat_of_nat) simp
  then show ?thesis unfolding set_wstring_def Let_def by simp
qed

lemma serialize_registry_vals:
  assumes laws: "registry_laws api vals refers" and permits: "registry_permits api refers"
    and "opened refers r key p" and "short_name c"
  shows "vals (serialize_registry api key c r) = (vals r)(p := vals r p ++ entry_values c)"
proof -
  obtain e1 r1 where 1: "set_wstring api key (to_wstring ''process_name'') (to_wstring (ce_process_name c)) r = (e1, r1)"
    by fastforce
  obtain e2 r2 where 2: "set_dword api key (to_wstring ''cpu_usage'') (ce_cpu_usage c) r1 = (e2, r2)" by fastforce
  obtain e3 r3 where 3: "set_qword api key (to_wstring ''mem_usage'') (ce_mem_usage c) r2 = (e3, r3)" by fastforce
  obtain e4 r4 where 4: "set_qword api key (to_wstring ''disk_usage'') (ce_disk_usage c) r3 = (e4, r4)" by fastforce
  obtain e5 r5 where 5: "set_qword api key (to_wstring ''network_usage'') (ce_network_usage c) r4 = (e5, r5)" by fastforce
  note step = setRaw_vals [OF laws permits]
  from step [OF assms(3) _ 1 [unfolded set_wstring_bytes [OF assms(4) [unfolded short_name_def length_to_wstring [symmetric]]]]]
  have o1: "opened refers r1 key p"
    and v1: "vals r1 = (vals r)(p := (vals r p)(to_wstring ''process_name'' \<mapsto>
      (REG_SZ, wbytes (to_wstring (ce_process_name c) @ [0]))))" by simp_all
  from step [OF o1 _ 2 [unfolded set_dword_def]]
  have o2: "opened refers r2 key p" and v2: "vals r2 = (vals r1)(p := (vals r1 p)
      (to_wstring ''cpu_usage'' \<mapsto> (REG_DWORD, mem_bytes 4 (ce_cpu_usage c))))" by simp_all
  from step [OF o2 _ 3 [unfolded set_qword_def]]
  have o3: "opened refers r3 key p" and v3: "vals r3 = (vals r2)(p := (vals r2 p)
      (to_wstring ''mem_usage'' \<mapsto> (REG_QWORD, mem_bytes 8 (ce_mem_usage c))))" by simp_all
  from step [OF o3 _ 4 [unfolded set_qword_def]]
  have o4: "opened refers r4 key p" and v4: "vals r4 = (vals r3)(p := (vals r3 p)
      (to_wstring ''disk_usage'' \<mapsto> (REG_QWORD, mem_bytes 8 (ce_disk_usage c))))" by simp_all
  from step [OF o4 _ 5 [unfolded set_qword_def]]
  have v5: "vals r5 = (vals r4)(p := (vals r4 p)
      (to_wstring ''network_usage'' \<mapsto> (REG_QWORD, mem_bytes 8 (ce_network_usage c))))" by simp
  show ?thesis
    by (simp add: serialize_registry_def 1 2 3 4 5 v1 v2 v3 v4 v5 entry_values_def)
qed

lemma entry_values_names:
  "entry_values c (to_wstring ''process_name'') = Some (REG_SZ, wbytes (to_wstring (ce_process_name c) @ [0]))"
  "entry_values c (to_wstring ''cpu_usage'') = Some (REG_DWORD, mem_bytes 4 (ce_cpu_usage c))"
  "entry_values c (to_wstring ''mem_usage'') = Some (REG_QWORD, mem_bytes 8 (ce_mem_usage c))"
  "entry_values c (to_wstring ''disk_usage'') = Some (REG_QWORD, mem_bytes 8 (ce_disk_usage c))"
  "entry_values c (to_wstring ''network_usage'') = Some (REG_QWORD, mem_bytes 8 (ce_network_usage c))"
  by (simp_all add: entry_values_def)

lemma deserialize_registry_values:
  assumes laws: "registry_laws api vals refers" and op: "opened refers r key p"
    and m: "entry_values c \<subseteq>\<^sub>m vals r p" and s: "short_name c"
  shows "deserialize_registry api key r d = (0, c)"
proof -
  have v: "vals r p n = Some x" if "entry_values c n = Some x" for n x
    using m that by (auto simp: map_le_def dom_def)
  note q = queryRaw_value [OF laws op _ v]
  have "length (wbytes (to_wstring (ce_process_name c) @ [0])) < 2 ^ 32"
    using s by (simp add: short_name_def)
  then have "get_wstring api key (to_wstring ''process_name'') r = (0, Some (to_wstring (ce_process_name c)))"
    by (intro get_wstring_value q) (simp_all add: entry_values_names)
  moreover have "get_dword api key (to_wstring ''cpu_usage'') r = (0, Some (ce_cpu_usage c))"
    by (intro get_dword_value q) (simp_all add: entry_values_names)
  moreover have "get_qword api key (to_wstring ''mem_usage'') r = (0, Some (ce_mem_usage c))"
    "get_qword api key (to_wstring ''disk_usage'') r = (0, Some (ce_disk_usage c))"
    "get_qword api key (to_wstring ''network_usage'') r = (0, Some (ce_network_usage c))"
    by (intro get_qword_value q; simp add: entry_values_names)+
  ultimately show ?thesis
    by (simp add: deserialize_registry_def take_field_def)
qed

section \<open>The loops over the entries\<close>

fun keyed :: "nat \<Rightarrow> ConfigEntry list \<Rightarrow> (wstring \<times> (wstring \<rightharpoonup> reg_value)) list" where
  "keyed i [] = []"
| "keyed i (c # cs) = (entry_key i, entry_values c) # keyed (Suc i) cs"

lemma keyed_before: "j < i \<Longrightarrow> map_of (keyed i cs) (entry_key j) = None"
  by (induction cs arbitrary: i) auto

lemma keyed_prefix: "map_of (keyed i cs) REGISTRY_PREFIX = None"
  by (induction cs arbitrary: i) auto

lemma keyed_nth: "j < length cs \<Longrightarrow> map_of (keyed i cs) (entry_key (i + j)) = Some (entry_values (cs ! j))"
proof (induction cs arbitrary: i j)
  case Nil
  then show ?case by simp
next
  case (Cons c cs)
  show ?case
  proof (cases j)
    case 0
    then show ?thesis by simp
  next
    case (Suc k)
    with Cons.IH [of k "Suc i"] Cons.prems show ?thesis by simp
  qed
qed

definition overlay :: "(wstring \<times> (wstring \<rightharpoonup> reg_value)) list \<Rightarrow> (wstring \<Rightarrow> wstring \<rightharpoonup> reg_value) \<Rightarrow>
    wstring \<Rightarrow> wstring \<rightharpoonup> reg_value" where
  "overlay kvs v p = (case map_of kvs p of None \<Rightarrow> v p | Some m \<Rightarrow> v p ++ m)"

lemma write_entries_vals:
  assumes laws: "registry_laws api vals refers" and permits: "registry_permits api refers"
  shows "list_all short_name cs \<Longrightarrow> i + length cs < 2 ^ 31 \<Longrightarrow>
    \<exists>r'. write_entries api i cs r = (Inr (), r') \<and> vals r' = overlay (keyed i cs) (vals r)"
proof (induction cs arbitrary: i r)
  case Nil
  then show ?case by (auto simp: overlay_def)
next
  case (Cons c cs)
  obtain key r1 where n: "RegKey_new api (entry_key i) r = (key, r1)" by fastforce
  have op: "opened refers r1 key (entry_key i)" and v1: "vals r1 = vals r"
    using RegKey_new_opened [OF laws permits _ n] RegKey_new_vals [OF laws _ n] by simp_all
  let ?r3 = "RegKey_destroy api key (serialize_registry api key c r1)"
  have v3: "vals ?r3 = (vals r)(entry_key i := vals r (entry_key i) ++ entry_values c)"
    using serialize_registry_vals [OF laws permits op] Cons.prems
    by (simp add: RegKey_destroy_vals [OF laws] v1)
  have o: "overlay (keyed i (c # cs)) (vals r) = overlay (keyed (Suc i) cs) (vals ?r3)"
    by (rule ext) (auto simp: overlay_def v3 keyed_before split: option.split)
  from Cons.IH [of "Suc i" ?r3] Cons.prems obtain r' where
    "write_entries api (Suc i) cs ?r3 = (Inr (), r')" "vals r' = overlay (keyed (Suc i) cs) (vals ?r3)"
    by auto
  then show ?case using Cons.prems o by (simp add: n)
qed

lemma read_entries_vals:
  assumes laws: "registry_laws api vals refers" and permits: "registry_permits api refers"
  shows "length ds = length cs \<Longrightarrow> list_all short_name cs \<Longrightarrow>
    \<forall>j < length cs. entry_values (cs ! j) \<subseteq>\<^sub>m vals r (entry_key (i + j)) \<Longrightarrow>
    \<exists>r'. read_entries api i ds code r = (code, cs, r') \<and> vals r' = vals r"
proof (induction ds cs arbitrary: i code r rule: list_induct2')
  case (4 d ds c cs)
  obtain key r1 where n: "RegKey_new api (entry_key i) r = (key, r1)" by fastforce
  have op: "opened refers r1 key (entry_key i)" and v1: "vals r1 = vals r"
    using RegKey_new_opened [OF laws permits _ n] RegKey_new_vals [OF laws _ n] by simp_all
  have "entry_values c \<subseteq>\<^sub>m vals r1 (entry_key i)"
    using "4.prems"(3) v1 by (metis add.right_neutral length_greater_0_conv list.distinct(1) nth_Cons_0)
  with op "4.prems"(2) have d: "deserialize_registry api key r1 d = (0, c)"
    by (intro deserialize_registry_values [OF laws]) simp_all
  let ?r2 = "RegKey_destroy api key r1"
  have v2: "vals ?r2 = vals r" by (simp add: RegKey_destroy_vals [OF laws] v1)
  have "\<forall>j < length cs. entry_values (cs ! j) \<subseteq>\<^sub>m vals ?r2 (entry_key (Suc i + j))"
    using "4.prems"(3) unfolding v2 by (auto dest: spec [of _ "Suc _"])
  with "4.IH" [of ?r2 "Suc i" code] "4.prems" obtain r' where
    "read_entries api (Suc i) ds code ?r2 = (code, cs, r')" "vals r' = vals r"
    by (auto simp: v2)
  then show ?case by (simp add: n d)
qed auto

section \<open>The whole configuration\<close>

definition stored_config :: "(wstring \<Rightarrow> wstring \<rightharpoonup> reg_value) \<Rightarrow> ConfigEntry list \<Rightarrow> wstring \<Rightarrow> wstring \<rightharpoonup> reg_value" where
  "stored_config v cs p =
     (if p = REGISTRY_PREFIX
      then [to_wstring ''count'' \<mapsto> (REG_DWORD, mem_bytes 4 (of_nat (length cs) :: u32))]
      else case map_of (keyed 0 cs) p of
             Some m \<Rightarrow> m
           | None \<Rightarrow> if below REGISTRY_PREFIX p then Map.empty else v p)"

lemma keyed_below: "map_of (keyed i cs) p = Some m \<Longrightarrow> below REGISTRY_PREFIX p"
  by (induction cs arbitrary: i) (auto split: if_splits)

lemma write_config_registry_vals:
  assumes laws: "registry_laws api vals refers" and permits: "registry_permits api refers"
    and "list_all short_name (config_entries c)" and "length (config_entries c) < 2 ^ 31"
  shows "\<exists>r'. write_config_registry api c r = (Inr 0, r') \<and>
    vals r' = stored_config (vals r) (map convert_before_write (config_entries c))"
proof -
  let ?es = "config_entries c"
  let ?cs = "map convert_before_write ?es"
  obtain res r1 where 1: "RegDeleteTreeW api REGISTRY_PREFIX r = (res, r1)" by fastforce
  with permits have "res \<in> {0, 2}" by (metis fst_conv program_keys(1) registry_permits_def)
  with law_delete [OF laws program_keys(1) 1]
  have v1: "vals r1 q = (if below REGISTRY_PREFIX q then Map.empty else vals r q)" for q
    by simp
  obtain key r2 where 2: "RegKey_new api REGISTRY_PREFIX r1 = (key, r2)" by fastforce
  have op: "opened refers r2 key REGISTRY_PREFIX" and v2: "vals r2 = vals r1"
    using RegKey_new_opened [OF laws permits _ 2] RegKey_new_vals [OF laws _ 2] by simp_all
  obtain e3 r3 where 3: "set_dword api key (to_wstring ''count'') (of_nat (length ?es)) r2 = (e3, r3)"
    by fastforce
  let ?r4 = "RegKey_destroy api key r3"
  from setRaw_vals(2) [OF laws permits op _ 3 [unfolded set_dword_def]]
  have v4: "vals ?r4 = (vals r1)(REGISTRY_PREFIX := (vals r1 REGISTRY_PREFIX)
      (to_wstring ''count'' \<mapsto> (REG_DWORD, mem_bytes 4 (of_nat (length ?es) :: u32))))"
    by (simp add: RegKey_destroy_vals [OF laws] v2)
  have "list_all short_name ?cs"
    using assms(3) by (simp add: list_all_iff short_name_def convert_before_write_def)
  then obtain r' where r': "write_entries api 0 ?cs ?r4 = (Inr (), r')"
    and v: "vals r' = overlay (keyed 0 ?cs) (vals ?r4)"
    using write_entries_vals [OF laws permits, of ?cs 0 ?r4] assms(4) by auto
  have "overlay (keyed 0 ?cs) (vals ?r4) = stored_config (vals r) ?cs"
    by (rule ext) (auto simp: overlay_def stored_config_def v4 v1 keyed_prefix
        dest: keyed_below split: option.split)
  with r' v show ?thesis
    by (simp add: write_config_registry_def 1 2 3)
qed

section \<open>What a reader makes of any registry\<close>

definition sizes_ok :: "(wstring \<Rightarrow> wstring \<rightharpoonup> reg_value) \<Rightarrow> bool" where
  "sizes_ok v \<longleftrightarrow> (\<forall>p n t d. v p n = Some (t, d) \<longrightarrow> length d < 2 ^ 32)"

definition count_of :: "reg_value option \<Rightarrow> u32 option" where
  "count_of v = (case v of None \<Rightarrow> None
     | Some (t, d) \<Rightarrow> if t = REG_DWORD \<and> length d = 4 then Some (load_bytes d) else None)"

definition stored_as :: "u32 list \<Rightarrow> nat option \<Rightarrow> reg_value option \<Rightarrow> bool" where
  "stored_as ts n v = (case v of None \<Rightarrow> False
     | Some (t, d) \<Rightarrow> t \<in> set ts \<and> (case n of None \<Rightarrow> True | Some k \<Rightarrow> length d = k))"

definition entry_intact :: "(wstring \<rightharpoonup> reg_value) \<Rightarrow> bool" where
  "entry_intact m \<longleftrightarrow>
     stored_as [REG_SZ, REG_EXPAND_SZ] None (m (to_wstring ''process_name'')) \<and>
     stored_as [REG_DWORD] (Some 4) (m (to_wstring ''cpu_usage'')) \<and>
     stored_as [REG_QWORD] (Some 8) (m (to_wstring ''mem_usage'')) \<and>
     stored_as [REG_QWORD] (Some 8) (m (to_wstring ''disk_usage'')) \<and>
     stored_as [REG_QWORD] (Some 8) (m (to_wstring ''network_usage''))"

definition got :: "u32 \<times> 'v option \<Rightarrow> bool" where
  "got q \<longleftrightarrow> fst q = 0 \<and> snd q \<noteq> None"

lemma take_field_code: "fst (take_field q upd cc) = (if got q then fst cc else 1)"
  by (cases q; cases cc) (auto simp: take_field_def got_def)

lemma got_value:
  assumes laws: "registry_laws api vals refers" and op: "opened refers r key p"
    and n: "n \<in> set value_names" and s: "sizes_ok (vals r)"
  shows "got (get_wstring api key n r) = stored_as [REG_SZ, REG_EXPAND_SZ] None (vals r p n)"
    and "got (get_dword api key n r) = stored_as [REG_DWORD] (Some 4) (vals r p n)"
    and "got (get_qword api key n r) = stored_as [REG_QWORD] (Some 8) (vals r p n)"
    and "count_of (vals r p n) = snd (get_dword api key n r)"
proof -
  have *: "got (get_wstring api key n r) = stored_as [REG_SZ, REG_EXPAND_SZ] None (vals r p n) \<and>
     got (get_dword api key n r) = stored_as [REG_DWORD] (Some 4) (vals r p n) \<and>
     got (get_qword api key n r) = stored_as [REG_QWORD] (Some 8) (vals r p n) \<and>
     count_of (vals r p n) = snd (get_dword api key n r)"
  proof (cases "vals r p n")
    case None
    from queryRaw_missing [OF laws op n None] None show ?thesis
      by (auto simp: got_def get_wstring_def get_dword_def get_qword_def stored_as_def count_of_def)
  next
    case (Some x)
    obtain t d where x: "x = (t, d)" by fastforce
    with s Some have "length d < 2 ^ 32" unfolding sizes_ok_def by blast
    from queryRaw_value [OF laws op n Some [unfolded x] this] Some x show ?thesis
      by (auto simp: got_def get_wstring_def get_dword_def get_qword_def stored_as_def count_of_def
          Let_def reg_type_defs)
  qed
  from * show "got (get_wstring api key n r) = stored_as [REG_SZ, REG_EXPAND_SZ] None (vals r p n)"
    and "got (get_dword api key n r) = stored_as [REG_DWORD] (Some 4) (vals r p n)"
    and "got (get_qword api key n r) = stored_as [REG_QWORD] (Some 8) (vals r p n)"
    and "count_of (vals r p n) = snd (get_dword api key n r)"
    by blast+
qed

lemma deserialize_registry_code:
  assumes "registry_laws api vals refers" and "opened refers r key p" and "sizes_ok (vals r)"
  shows "fst (deserialize_registry api key r c) = (if entry_intact (vals r p) then 0 else 1)"
  by (auto simp: deserialize_registry_def take_field_code entry_intact_def
      got_value [OF assms(1,2) _ assms(3)])

lemma read_entries_code:
  assumes laws: "registry_laws api vals refers" and permits: "registry_permits api refers"
  shows "sizes_ok (vals r) \<Longrightarrow> \<exists>es r'. length es = length ds \<and> vals r' = vals r \<and>
    read_entries api i ds code r =
      (if \<forall>j < length ds. entry_intact (vals r (entry_key (i + j))) then code else 1, es, r')"
proof (induction ds arbitrary: i code r)
  case Nil
  then show ?case by simp
next
  case (Cons d ds)
  obtain key r1 where n: "RegKey_new api (entry_key i) r = (key, r1)" by fastforce
  have op: "opened refers r1 key (entry_key i)" and v1: "vals r1 = vals r"
    using RegKey_new_opened [OF laws permits _ n] RegKey_new_vals [OF laws _ n] by simp_all
  obtain ret d' where d: "deserialize_registry api key r1 d = (ret, d')" by fastforce
  have ret: "ret = (if entry_intact (vals r (entry_key i)) then 0 else 1)"
    using deserialize_registry_code [OF laws op, of d] Cons.prems d by (simp add: v1)
  let ?r2 = "RegKey_destroy api key r1" and ?code = "if ret \<noteq> 0 then 1 else code"
  have v2: "vals ?r2 = vals r" by (simp add: RegKey_destroy_vals [OF laws] v1)
  from Cons.IH [of ?r2 "Suc i" ?code] Cons.prems obtain es r' where
    l: "length es = length ds" "vals r' = vals r" and
    e: "read_entries api (Suc i) ds ?code ?r2 =
      (if \<forall>j < length ds. entry_intact (vals r (entry_key (Suc i + j))) then ?code else 1, es, r')"
    by (auto simp: v2)
  have "(\<forall>j < Suc n. P j) \<longleftrightarrow> P 0 \<and> (\<forall>j < n. P (Suc j))" for P :: "nat \<Rightarrow> bool" and n
    using All_less_Suc2 by blast
  then have all: "(\<forall>j < Suc (length ds). entry_intact (vals r (entry_key (i + j)))) \<longleftrightarrow>
      entry_intact (vals r (entry_key i)) \<and> (\<forall>j < length ds. entry_intact (vals r (entry_key (Suc i + j))))"
    by simp
  show ?case
  proof (intro exI [of _ "d' # es"] exI [of _ r'] conjI)
    show "read_entries api i (d # ds) code r = (if \<forall>j < length (d # ds).
        entry_intact (vals r (entry_key (i + j))) then code else 1, d' # es, r')"
      using e ret by (cases "entry_intact (vals r (entry_key i))") (auto simp: n d all)
  qed (simp_all add: l)
qed

lemma length_resize [simp]: "length (resize_entries mem n cs) = n"
  by (simp add: resize_entries_def)

lemma read_count:
  assumes laws: "registry_laws api vals refers" and permits: "registry_permits api refers"
    and s: "sizes_ok (vals r)"
  shows "\<exists>r2. vals r2 = vals r \<and> read_config_registry api mem c r =
    (case count_of (vals r REGISTRY_PREFIX (to_wstring ''count'')) of
       None \<Rightarrow> (Inr (1, c), r2)
     | Some n \<Rightarrow> if sint n < 0 then (Inl Length_error, r2)
         else let (code, es, r3) =
                read_entries api 0 (resize_entries mem (nat (sint n)) (config_entries c)) 0 r2
              in (Inr (code, c\<lparr>config_entries := map convert_after_read es\<rparr>), r3))"
proof -
  obtain key r1 where n: "RegKey_new api REGISTRY_PREFIX r = (key, r1)" by fastforce
  have op: "opened refers r1 key REGISTRY_PREFIX" and v1: "vals r1 = vals r"
    using RegKey_new_opened [OF laws permits _ n] RegKey_new_vals [OF laws _ n] by simp_all
  obtain ec nc where g: "get_dword api key (to_wstring ''count'') r1 = (ec, nc)" by fastforce
  note gv = got_value [OF laws op value_name_in(1), unfolded v1, OF s]
  have nc: "count_of (vals r REGISTRY_PREFIX (to_wstring ''count'')) = nc"
    using gv(4) g by simp
  have "ec \<noteq> 0 \<Longrightarrow> nc = None"
    using g by (auto simp: get_dword_def split: sum.splits prod.splits if_splits)
  then show ?thesis
    by (cases nc; intro exI [of _ "RegKey_destroy api key r1"];
        cases "ec = 0"; simp add: read_config_registry_def n g nc RegKey_destroy_vals [OF laws] v1 Let_def)
qed

lemma sint_u32:
  fixes w :: u32
  shows "sint w = (if unat w < 2 ^ 31 then int (unat w) else int (unat w) - 2 ^ 32)"
proof -
  let ?u = "uint w"
  have u: "?u < 4294967296" "0 \<le> ?u" using uint_lt2p [of w] by simp_all
  have t: "sint w = (?u + 2147483648) mod 4294967296 - 2147483648"
    by (simp add: sint_uint signed_take_bit_eq_take_bit_shift take_bit_eq_mod)
  have n: "unat w < 2147483648 \<longleftrightarrow> ?u < 2147483648"
    using u by (simp only: unat_eq_nat_uint nat_less_iff) simp
  show ?thesis
  proof (cases "?u < 2147483648")
    case True
    with u have "(?u + 2147483648) mod 4294967296 = ?u + 2147483648"
      by (intro mod_pos_pos_trivial) simp_all
    with True t n show ?thesis by simp
  next
    case False
    have "(?u + 2147483648) mod 4294967296 = (?u - 2147483648 + 4294967296) mod 4294967296"
      by (simp add: algebra_simps)
    also have "\<dots> = ?u - 2147483648"
      using u False by (subst mod_add_self2, intro mod_pos_pos_trivial) simp_all
    finally show ?thesis using False t n by simp
  qed
qed

section \<open>Properties\<close>

text \<open>
  C36. Writing a configuration replaces whatever was stored: afterwards the registry holds the number
  of entries and, under the index of each, its name and its thresholds in units; no value of an
  earlier configuration is left in the tree, and nothing outside it changes.
\<close>

theorem registry_write_exact:
  assumes "registry_laws api vals refers" and "registry_permits api refers"
    and "list_all short_name (config_entries c)" and "length (config_entries c) < 2 ^ 31"
  shows "\<exists>r'. write_config_registry api c r = (Inr 0, r') \<and>
    vals r' = stored_config (vals r) (map convert_before_write (config_entries c))"
  by (rule write_config_registry_vals [OF assms])

lemma registry_write_exact_witness:
  "\<exists>r'. write_config_registry map_registry \<lparr>config_entries = [ConfigEntry_new ''p'' 1500 0 0 0]\<rparr>
      (\<lambda>p. [to_wstring ''count'' \<mapsto> (REG_SZ, ''old'')]) = (Inr 0, r') \<and>
    r' REGISTRY_PREFIX (to_wstring ''count'') = Some (REG_DWORD, mem_bytes 4 (1 :: u32)) \<and>
    r' (entry_key 0) (to_wstring ''cpu_usage'') = Some (REG_DWORD, mem_bytes 4 (1 :: u32)) \<and>
    r' (entry_key 1) (to_wstring ''count'') = None"
proof -
  let ?c = "\<lparr>config_entries = [ConfigEntry_new ''p'' 1500 0 0 0]\<rparr>"
  have "list_all short_name (config_entries ?c)" "length (config_entries ?c) < 2 ^ 31"
    by (simp_all add: short_name_def ConfigEntry_new_def)
  from registry_write_exact [OF map_registry_laws map_registry_permits this,
      of "\<lambda>p. [to_wstring ''count'' \<mapsto> (REG_SZ, ''old'')]"]
  show ?thesis
    by (auto simp: stored_config_def ConfigEntry_new_def convert_before_write_def unit_values
        entry_values_def)
qed

text \<open>
  C37. What was written is read back: the same entries in the same order, every threshold rounded
  down to whole units, whatever the configuration that reads held before and whatever the
  uninitialised memory holds.
\<close>

theorem registry_write_read:
  assumes "registry_laws api vals refers" and "registry_permits api refers"
    and "list_all short_name (config_entries c)" and "length (config_entries c) < 2 ^ 31"
    and "write_config_registry api c r = (Inr 0, r1)" and "sizes_ok (vals r1)"
  shows "\<exists>r2. vals r2 = vals r1 \<and> read_config_registry api mem d r1 =
    (Inr (0, \<lparr>config_entries = map round_down (config_entries c)\<rparr>), r2)"
proof -
  let ?cs = "map convert_before_write (config_entries c)"
  have v1: "vals r1 = stored_config (vals r) ?cs"
    using write_config_registry_vals [OF assms(1-4), of r] assms(5) by simp
  let ?n = "of_nat (length ?cs) :: u32"
  have n: "sint ?n = int (length ?cs)"
    using assms(4) by (simp add: sint_u32 unat_of_nat)
  have "count_of (vals r1 REGISTRY_PREFIX (to_wstring ''count'')) = Some ?n"
    by (simp add: v1 stored_config_def count_of_def)
  with read_count [OF assms(1,2,6), of mem d] n obtain r2 where v2: "vals r2 = vals r1" and
    read: "read_config_registry api mem d r1 = (let (code, es, r3) =
        read_entries api 0 (resize_entries mem (length ?cs) (config_entries d)) 0 r2
      in (Inr (code, d\<lparr>config_entries := map convert_after_read es\<rparr>), r3))"
    by auto
  have "list_all short_name ?cs"
    using assms(3) by (simp add: list_all_iff short_name_def convert_before_write_def)
  moreover have "\<forall>j < length ?cs. entry_values (?cs ! j) \<subseteq>\<^sub>m vals r2 (entry_key (0 + j))"
    using keyed_nth [of _ ?cs 0] by (simp add: v2 v1 stored_config_def)
  ultimately obtain r3 where r3: "vals r3 = vals r2"
    "read_entries api 0 (resize_entries mem (length ?cs) (config_entries d)) 0 r2 = (0, ?cs, r3)"
    using read_entries_vals [OF assms(1,2) length_resize] by blast
  then show ?thesis
    using v2 by (auto simp: read round_down_def comp_def)
qed

lemma registry_write_read_witness:
  "\<exists>r1 r2. write_config_registry map_registry \<lparr>config_entries = [ConfigEntry_new ''p'' 1500 0 0 0]\<rparr>
      (\<lambda>_. Map.empty) = (Inr 0, r1) \<and>
    read_config_registry map_registry (\<lambda>_. ConfigEntry_new [] 77 77 77 77) Config_empty r1 =
      (Inr (0, \<lparr>config_entries = [ConfigEntry_new ''p'' 1000 0 0 0]\<rparr>), r2)"
proof -
  let ?c = "\<lparr>config_entries = [ConfigEntry_new ''p'' 1500 0 0 0]\<rparr>"
  have c: "list_all short_name (config_entries ?c)" "length (config_entries ?c) < 2 ^ 31"
    by (simp_all add: short_name_def ConfigEntry_new_def)
  from write_config_registry_vals [OF map_registry_laws map_registry_permits c, of "\<lambda>_. Map.empty"]
  obtain r1 where w: "write_config_registry map_registry ?c (\<lambda>_. Map.empty) = (Inr 0, r1)"
    and v: "r1 = stored_config (\<lambda>_. Map.empty) (map convert_before_write (config_entries ?c))"
    by auto
  have "sizes_ok r1"
    by (auto simp: v sizes_ok_def stored_config_def entry_values_def ConfigEntry_new_def
        convert_before_write_def split: if_splits)
  from registry_write_read [OF map_registry_laws map_registry_permits, OF c w this,
      of "\<lambda>_. ConfigEntry_new [] 77 77 77 77" Config_empty] w
  show ?thesis
    by (auto simp: ConfigEntry_new_def round_down_def convert_before_write_def
        convert_after_read_def unit_values)
qed

text \<open>
  Whatever the registry holds, reading it changes nothing and has one of three outcomes: without
  a count of the right type and size it returns 1 and keeps the old configuration; a count from
  \<open>2 ^ 31\<close> on throws; else as many entries are read as the count says, and the result is 0 exactly
  when all five values of every entry are there with their type and size.
\<close>

lemma registry_damage_detected:
  assumes "registry_laws api vals refers" and "registry_permits api refers" and "sizes_ok (vals r)"
  shows "\<exists>res r'. read_config_registry api mem c r = (res, r') \<and> vals r' = vals r \<and>
    (case count_of (vals r REGISTRY_PREFIX (to_wstring ''count'')) of
       None \<Rightarrow> res = Inr (1, c)
     | Some n \<Rightarrow>
         if 2 ^ 31 \<le> unat n then res = Inl Length_error
         else \<exists>es. length es = unat n \<and>
           res = Inr (if \<forall>i < unat n. entry_intact (vals r (entry_key i)) then 0 else 1,
                      \<lparr>config_entries = es\<rparr>))"
proof -
  obtain r2 where v2: "vals r2 = vals r" and read: "read_config_registry api mem c r =
    (case count_of (vals r REGISTRY_PREFIX (to_wstring ''count'')) of
       None \<Rightarrow> (Inr (1, c), r2)
     | Some n \<Rightarrow> if sint n < 0 then (Inl Length_error, r2)
         else let (code, es, r3) =
                read_entries api 0 (resize_entries mem (nat (sint n)) (config_entries c)) 0 r2
              in (Inr (code, c\<lparr>config_entries := map convert_after_read es\<rparr>), r3))"
    using read_count [OF assms] by blast
  show ?thesis
  proof (cases "count_of (vals r REGISTRY_PREFIX (to_wstring ''count''))")
    case None
    then show ?thesis by (simp add: read v2)
  next
    case (Some n)
    show ?thesis
    proof (cases "2 ^ 31 \<le> unat n")
      case True
      then have "sint n < 0" using unsigned_less [of n, where ?'a = int] by (simp add: sint_u32)
      with True Some show ?thesis by (simp add: read v2)
    next
      case False
      then have s: "sint n = int (unat n)" by (simp add: sint_u32)
      let ?ds = "resize_entries mem (unat n) (config_entries c)"
      obtain es r3 where "length es = unat n" "vals r3 = vals r" "read_entries api 0 ?ds 0 r2 =
          (if \<forall>j < unat n. entry_intact (vals r (entry_key j)) then 0 else 1, es, r3)"
        using read_entries_code [OF assms(1,2), of r2 ?ds 0 0] assms(3) by (auto simp: v2)
      with False Some show ?thesis
        by (auto simp: read s intro!: exI [of _ "map convert_after_read es"])
    qed
  qed
qed

definition huge_count :: "wstring \<Rightarrow> wstring \<rightharpoonup> reg_value" where
  "huge_count p = (if p = REGISTRY_PREFIX
     then [to_wstring ''count'' \<mapsto> (REG_DWORD, mem_bytes 4 (2 ^ 31 :: u32))] else Map.empty)"

lemma registry_damage_detected_witness:
  "\<exists>r'. read_config_registry map_registry (\<lambda>_. ConfigEntry_new [] 0 0 0 0) Config_empty huge_count =
     (Inl Length_error, r')"
proof -
  have s: "sizes_ok huge_count" by (auto simp: sizes_ok_def huge_count_def split: if_splits)
  have c: "count_of (huge_count REGISTRY_PREFIX (to_wstring ''count'')) = Some (2 ^ 31)"
    by (simp add: count_of_def huge_count_def)
  show ?thesis
    using registry_damage_detected [OF map_registry_laws map_registry_permits, OF s,
        of "\<lambda>_. ConfigEntry_new [] 0 0 0 0" Config_empty]
    unfolding c by auto
qed

text \<open>A key that may not be opened.\<close>

lemma RegKey_new_denied:
  assumes "registry_laws api vals refers" and "fst (RegCreateKeyExW api p r) \<noteq> 0" and "program_key p"
  shows "\<exists>key r'. RegKey_new api p r = (key, r') \<and> \<not> valid key \<and> hKey key = None \<and> vals r' = vals r"
proof -
  obtain res h r' where c: "RegCreateKeyExW api p r = (res, h, r')" by (metis prod_cases3)
  with law_create(1) [OF assms(1,3) c] assms(2) show ?thesis
    by (simp add: RegKey_new_def open_or_create_def valid_def)
qed

lemma serialize_registry_null:
  assumes "registry_laws api vals refers" and "\<not> valid key"
  shows "vals (serialize_registry api key c r) = vals r"
  using setRaw_null [OF assms]
  by (simp add: serialize_registry_def set_wstring_def set_dword_def set_qword_def Let_def
      case_prod_unfold)

lemma write_entries_denied:
  assumes laws: "registry_laws api vals refers"
    and denied: "\<And>p r. program_key p \<Longrightarrow> fst (RegCreateKeyExW api p r) \<noteq> 0"
  shows "i + length cs < 2 ^ 31 \<Longrightarrow>
    \<exists>r'. write_entries api i cs r = (Inr (), r') \<and> vals r' = vals r"
proof (induction cs arbitrary: i r)
  case Nil
  then show ?case by simp
next
  case (Cons c cs)
  obtain key r1 where k: "RegKey_new api (entry_key i) r = (key, r1)" "\<not> valid key" "vals r1 = vals r"
    using RegKey_new_denied [OF laws denied program_keys(2)] program_keys(2) by blast
  let ?r3 = "RegKey_destroy api key (serialize_registry api key c r1)"
  have "vals ?r3 = vals r"
    by (simp add: RegKey_destroy_vals [OF laws] serialize_registry_null [OF laws k(2)] k(3))
  with Cons.IH [of "Suc i" ?r3] Cons.prems show ?case by (auto simp: k(1))
qed

text \<open>
  When the key may not be opened, writing still returns 0 although nothing is stored: no error
  code on the way is looked at. The next read returns 1, so the program falls back to its default.
\<close>

lemma registry_write_silent:
  assumes laws: "registry_laws api vals refers"
    and denied: "\<And>p r. program_key p \<Longrightarrow> fst (RegCreateKeyExW api p r) \<noteq> 0"
    and "length (config_entries c) < 2 ^ 31"
  shows "\<exists>r1 r2. write_config_registry api c r = (Inr 0, r1) \<and> (\<forall>p. vals r1 p \<subseteq>\<^sub>m vals r p) \<and>
    read_config_registry api mem d r1 = (Inr (1, d), r2)"
proof -
  obtain res r1 where 1: "RegDeleteTreeW api REGISTRY_PREFIX r = (res, r1)" by fastforce
  obtain key r2 where 2: "RegKey_new api REGISTRY_PREFIX r1 = (key, r2)" "\<not> valid key" "vals r2 = vals r1"
    using RegKey_new_denied [OF laws denied program_keys(1)] program_keys(1) by blast
  obtain e3 r3 where 3: "set_dword api key (to_wstring ''count'') (of_nat (length (config_entries c))) r2 = (e3, r3)"
    by fastforce
  let ?r4 = "RegKey_destroy api key r3"
  have v4: "vals ?r4 = vals r1"
    using setRaw_null [OF laws 2(2), of "to_wstring ''count''" REG_DWORD] 3 2(3)
    by (metis RegKey_destroy_vals [OF laws] set_dword_def snd_conv)
  obtain r5 where w: "write_entries api 0 (map convert_before_write (config_entries c)) ?r4 = (Inr (), r5)"
    and v5: "vals r5 = vals r1"
    using write_entries_denied [OF laws denied, of 0 "map convert_before_write (config_entries c)" ?r4]
      assms(3) v4 by auto
  obtain key' r6 where k: "RegKey_new api REGISTRY_PREFIX r5 = (key', r6)" "\<not> valid key'"
    using RegKey_new_denied [OF laws denied program_keys(1)] program_keys(1) by blast
  obtain e where "e \<noteq> 0" "queryRaw api key' (to_wstring ''count'') r6 = Inl e"
    using queryRaw_null [OF laws k(2)] by blast
  then have "read_config_registry api mem d r5 = (Inr (1, d), RegKey_destroy api key' r6)"
    by (simp add: read_config_registry_def k(1) get_dword_def)
  moreover have "write_config_registry api c r = (Inr 0, r5)"
    by (simp add: write_config_registry_def 1 2(1) 3 w)
  ultimately show ?thesis
    using law_delete(1) [OF laws program_keys(1) 1] v5 by auto
qed

definition denied_registry :: "(wstring, wstring \<Rightarrow> wstring \<rightharpoonup> reg_value) registry_api" where
  "denied_registry = map_registry\<lparr>RegCreateKeyExW := (\<lambda>p r. (5, [], r))\<rparr>"

lemma denied_registry_laws: "registry_laws denied_registry (\<lambda>r. r) (\<lambda>r h p. h = p)"
  by (auto simp: registry_laws_def denied_registry_def map_registry_def below_iff map_le_def)

lemma registry_write_silent_witness:
  "\<exists>r1 r2. write_config_registry denied_registry default_config (\<lambda>_. Map.empty) = (Inr 0, r1) \<and>
    r1 REGISTRY_PREFIX = Map.empty \<and>
    read_config_registry denied_registry (\<lambda>_. ConfigEntry_new [] 0 0 0 0) Config_empty r1 = (Inr (1, Config_empty), r2)"
proof -
  have d: "fst (RegCreateKeyExW denied_registry p r) \<noteq> 0" for p r
    by (simp add: denied_registry_def)
  have "length (config_entries default_config) < 2 ^ 31" by (simp add: default_config_def)
  from registry_write_silent [OF denied_registry_laws d this, of "\<lambda>_. Map.empty"
      "\<lambda>_. ConfigEntry_new [] 0 0 0 0" Config_empty]
  obtain r1 r2 where r: "write_config_registry denied_registry default_config (\<lambda>_. Map.empty) = (Inr 0, r1)"
    "read_config_registry denied_registry (\<lambda>_. ConfigEntry_new [] 0 0 0 0) Config_empty r1 =
      (Inr (1, Config_empty), r2)" and le: "\<forall>p. r1 p \<subseteq>\<^sub>m Map.empty"
    by blast
  have "r1 REGISTRY_PREFIX = Map.empty"
    using le [rule_format, of REGISTRY_PREFIX] by (rule map_le_antisym) simp
  with r show ?thesis by blast
qed

end
