(* ===== verification/Shared_Address.thy ===== *)
theory Shared_Address
  imports Delivery
begin

text \<open>
  Two clients behind one address: \<^verbatim>\<open>ClientHandler::handle_recv_log\<close> names the log file of a client by
  its address alone, while every client numbers its logs from 1. The server takes the logs of the
  second client for logs it has, and its acknowledgement makes that client drop them.
\<close>

lemma pop_acked_all: "\<forall>e \<in> set es. le_id e \<le> i \<Longrightarrow> pop_acked i es = []"
  by (simp add: pop_acked_dropWhile)

lemma history_below:
  assumes "history hist" and "length hist \<le> n" and "n < 2 ^ 64" and "e \<in> set hist"
  shows "le_id e \<le> of_nat n"
proof -
  have "le_id e \<le> of_nat (length hist)" using history_older [OF assms(1) order_refl] assms(4) by simp
  also have "(of_nat (length hist) :: u64) \<le> of_nat n"
    using assms(2,3) by (simp add: word_le_nat_alt unat_of_nat_u64)
  finally show ?thesis .
qed

lemma shared_address_round:
  assumes c: "client_holds kenv mine 0 c" and s: "server_knows info held s"
    and len: "0 < length mine" "length mine \<le> length held" "length mine < 2 ^ 32" "length held + 1 < 2 ^ 64"
  shows "\<exists>c' s'. exchange kenv senv info Map.empty now (c, s) = Inr (c', s') \<and>
    lq_log_entries (client_queue c') = [] \<and> lq_ack_id (client_queue c') = of_nat (length held) \<and>
    server_knows info held s'"
proof -
  obtain l fs where g: "generate_log Map.empty now (cc_logger c) (cc_fs c) = (l, fs)"
    by (cases "generate_log Map.empty now (cc_logger c) (cc_fs c)")
  let ?c1 = "c\<lparr>cc_logger := l, cc_fs := fs\<rparr>" and ?q = "cl_log_queue l"
  have "length mine + 1 < 2 ^ 64" using len by simp
  then have h1: "client_holds kenv mine 0 ?c1"
    using generate_log_holds [OF c g] by (simp add: new_logs_quiet)
  then obtain a b where q: "queue_at mine 0 a b ?q fs" by (auto simp: client_holds_def queue_holds_def)
  then have es: "lq_log_entries ?q = mine" and hist: "history mine" and ack0: "lq_ack_id ?q = 0"
    by (simp_all add: queue_at_def)
  let ?b = "batch_size ?q"
  have b: "?b = min 100 (length mine)" using len(3) by (simp add: batch_size_def es)
  have ok: "client_ok c" "cc_outbox c = []" "client_ok ?c1" using c h1 by (simp_all add: client_holds_def)
  from client_tick_sends [OF ok(1) g, of kenv] history_slice(2) [OF hist, of 0] obtain p where
    p: "log_payload (take ?b mine) = Inr p"
    and tick: "client_tick kenv Map.empty now c = (Inr (), ?c1\<lparr>cc_outbox := [p]\<rparr>)"
    using b len(1) ok(2) by (auto simp: es)
  have bat: "ids (take ?b mine) = [0 + 1..<0 + 1 + length (take ?b mine)]" "length (take ?b mine) = ?b"
    using history_ids_slice [OF hist, of 0 ?b] by (simp_all add: b del: upt_Suc)
  have small: "length (take ?b mine) < 2 ^ 32" "0 + length (take ?b mine) < 2 ^ 64" using b bat(2) by simp_all
  have fit: "list_all sendable (take ?b mine)" "list_all storable (take ?b mine)"
    using history_slice(3,4) [OF hist, of ?b 0] by simp_all
  have mx: "max (length held) (0 + ?b) = length held" "drop (length held - 0) (take ?b mine) = []"
    using len(2) b by simp_all
  obtain h where h: "(h, info) \<in> set (sv_client_handlers s)" using s by (auto simp: server_knows_def)
  have sv: "server_ok s" "distinct_addresses s" "server_holds info (sv_fs s) held" "sv_outbox s = []"
    using s by (simp_all add: server_knows_def)
  from publish_log_batch [OF sv(1,2) h sv(3) p fit(1) small(1) fit(2) bat(1) _ small(2) len(4), of senv]
  obtain ack fs' where
    up: "server_publish senv (NetworkRecvEvent (ci_client_ip info) (ci_client_port info) p) s =
      (Inr (), s\<lparr>sv_fs := fs', sv_outbox := [(ci_client_socket info, ack)]\<rparr>)"
    and ack: "ack_payload (of_nat (length held)) = Inr ack" and holds: "server_holds info fs' held"
    using sv(4) unfolding bat(2) mx by auto
  have knows: "server_knows info held (s\<lparr>sv_fs := fs'\<rparr>)" using s holds by (simp add: server_knows_def)
  have ne: "(of_nat (length held) :: u64) \<noteq> 0"
    using len unat_of_nat_u64 [of "length held"] by (metis add_lessD1 le_zero_eq not_less unsigned_0)
  obtain q' fs'' where al: "ack_log (of_nat (length held)) ?q fs = (q', fs'')"
    by (cases "ack_log (of_nat (length held)) ?q fs")
  have "pop_acked (of_nat (length held)) mine = []"
    using history_below [OF hist len(2)] len(4) by (intro pop_acked_all) simp
  with al ne have q': "lq_log_entries q' = []" "lq_ack_id q' = of_nat (length held)"
    by (auto simp: ack_log_def ack0 es Let_def)
  have down: "receive_server_input kenv ack ?c1 = (Inr (), with_queue q' fs'' ?c1)"
    using receive_ack [OF ok(3) ack, of kenv] al by simp
  have c1: "c\<lparr>cc_logger := l, cc_fs := fs, cc_outbox := []\<rparr> = ?c1" using ok(2) by simp
  have s1: "s\<lparr>sv_fs := fs', sv_outbox := []\<rparr> = s\<lparr>sv_fs := fs'\<rparr>" using sv(4) by simp
  have "exchange kenv senv info Map.empty now (c, s) = Inr (with_queue q' fs'' ?c1, s\<lparr>sv_fs := fs'\<rparr>)"
    using tick up down by (simp add: exchange_def c1 s1)
  with q' knows show ?thesis by (auto simp: with_queue_def)
qed

end
