(* ===== verification/Client_Main.thy ===== *)
theory Client_Main
  imports Client Startup Network Table_Laws
begin

text \<open>
  \<^verbatim>\<open>client_main\<close> of \<^verbatim>\<open>src/client/client.cpp\<close> as a whole: the command line, the process table of either
  build, the start, and then the main thread and the receiving thread, step by step. \<^verbatim>\<open>client_main\<close> has
  no handler and neither has the receiving thread, so an exception of either ends the program. The thread
  that the connector starts to reconnect is in \<open>Server_Connector\<close>; messages to send are in the outbox.
\<close>

section \<open>The process table of a build\<close>

text \<open>
  What the \<^verbatim>\<open>#ifdef\<close>s of \<^verbatim>\<open>process_table.cpp\<close> and \<^verbatim>\<open>network_processing.cpp\<close> choose: the members, the set-up of the
  network statistics and the update. \<open>'r\<close> is what an update reads from the system.
\<close>

record ('r, 't) table_build =
  tb_setup_network :: "'t \<Rightarrow> unit result \<times> 't"
  tb_update_table :: "'r \<Rightarrow> 't \<Rightarrow> unit result \<times> 't"
  tb_table :: "'t \<Rightarrow> ProcessTable"
  tb_order :: "(u32 \<rightharpoonup> ProcessListing) \<Rightarrow> u32 list"

subsection \<open>Linux\<close>

record 'h linux_tables =
  lt_table :: ProcessTable
  lt_handle :: "'h option"
  lt_nonblocking :: bool

record linux_reading =
  lr_uninit :: uninit
  lr_procfs :: procfs
  lr_packets :: "packet list"

definition linux_tables_new :: "'h linux_tables" where
  "linux_tables_new =
     \<lparr>lt_table = ProcessTable_new, lt_handle = PcapHandler_new, lt_nonblocking = False\<rparr>"

definition linux_build ::
  "((u32 \<rightharpoonup> ProcessListing) \<Rightarrow> u32 list) \<Rightarrow> ((u32 \<rightharpoonup> SocketInode) \<Rightarrow> u32 option) \<Rightarrow> u64 \<Rightarrow>
     'h pcap_api \<Rightarrow> (linux_reading, 'h linux_tables) table_build" where
  "linux_build ord first page_size pcap =
     \<lparr>tb_setup_network = (\<lambda>t.
        case setup_network pcap (lt_handle t) of
          Inl e \<Rightarrow> (Inl e, t)
        | Inr (h, nonblocking) \<Rightarrow> (Inr (), t\<lparr>lt_handle := Some h, lt_nonblocking := nonblocking\<rparr>)),
      tb_update_table = (\<lambda>rd t.
        case update_table ord first page_size (lr_uninit rd) (lr_procfs rd) (lr_packets rd) (lt_table t) of
          (r, pt) \<Rightarrow> (r, t\<lparr>lt_table := pt\<rparr>)),
      tb_table = lt_table, tb_order = ord\<rparr>"

subsection \<open>Windows\<close>

text \<open>
  The trace runs in a thread of its own, which handles the events \<open>wr_events\<close> before the update; the
  processes are those of the snapshot.
\<close>

record windows_tables =
  wt_last_system_cpu :: u64
  wt_network :: "u32 \<rightharpoonup> NetworkStat"
  wt_table :: ProcessTable

record windows_reading =
  wr_events :: "event_record list"
  wr_times :: "(FILETIME \<times> FILETIME) option"
  wr_pids :: "u32 list"
  wr_opened :: "u32 \<Rightarrow> open_process option"
  wr_listing :: "u32 \<Rightarrow> u32"

definition windows_tables_new :: windows_tables where
  "windows_tables_new =
     \<lparr>wt_last_system_cpu = 0, wt_network = Map.empty, wt_table = ProcessTable_new\<rparr>"

definition windows_build ::
  "((u32 \<rightharpoonup> ProcessListing) \<Rightarrow> u32 list) \<Rightarrow> tdh_api \<Rightarrow> (string \<Rightarrow> u32 option) \<Rightarrow>
     (windows_reading, windows_tables) table_build" where
  "windows_build ord tdh inet =
     \<lparr>tb_setup_network = (\<lambda>t. (Inr (), t)),
      tb_update_table = (\<lambda>rd t.
        case on_events tdh inet (wr_events rd) (wt_network t) of
          Inl e \<Rightarrow> (Inl e, t)
        | Inr m \<Rightarrow>
            (case update_table_windows ord (wr_listing rd) (wr_times rd) (wr_pids rd) (wr_opened rd)
                    (wt_last_system_cpu t, m, wt_table t) of
               Inl e \<Rightarrow> (Inl e, t)
             | Inr (cpu, m', pt) \<Rightarrow>
                 (Inr (), \<lparr>wt_last_system_cpu = cpu, wt_network = m', wt_table = pt\<rparr>))),
      tb_table = wt_table, tb_order = ord\<rparr>"

section \<open>The client at work\<close>

text \<open>
  Where the main thread is once the receiving thread runs, and what both share. Each of the two
  registrations is a step, then each round of the loop.
\<close>

datatype client_pc = Before_send_output | Before_recv_config | Main_loop | Client_ended exn

record 't client_run =
  cr_pc :: client_pc
  cr_tables :: 't
  cr_client :: Client

text \<open>
  A step of the main thread, with what a round reads and the time of its logs; or a message that
  the receiving thread has got. Each is run as a whole (\<open>Queue_Race\<close> looks inside).
\<close>

datatype 'r client_step = Main_thread 'r u64 | Message string

definition main_round ::
  "('r, 't) table_build \<Rightarrow> client_env \<Rightarrow> 'r \<Rightarrow> u64 \<Rightarrow> 't client_run \<Rightarrow> 't client_run" where
  "main_round build env reading now_ms p =
     (case tb_update_table build reading (cr_tables p) of
        (Inl e, t) \<Rightarrow> p\<lparr>cr_tables := t, cr_pc := Client_ended e\<rparr>
      | (Inr _, t) \<Rightarrow>
          (case get_map_program_name_resource (tb_order build) (tb_table build t) of
             Inl e \<Rightarrow> p\<lparr>cr_tables := t, cr_pc := Client_ended e\<rparr>
           | Inr m \<Rightarrow>
               (case client_tick env m now_ms (cr_client p) of
                  (Inl e, c) \<Rightarrow> p\<lparr>cr_tables := t, cr_client := c, cr_pc := Client_ended e\<rparr>
                | (Inr _, c) \<Rightarrow> p\<lparr>cr_tables := t, cr_client := c\<rparr>)))"

definition client_step ::
  "('r, 't) table_build \<Rightarrow> client_env \<Rightarrow> 'r client_step \<Rightarrow> 't client_run \<Rightarrow> 't client_run" where
  "client_step build env step p =
     (case (cr_pc p, step) of
        (Client_ended _, _) \<Rightarrow> p
      | (Before_send_output, Main_thread _ _) \<Rightarrow>
          p\<lparr>cr_client := register_send_output_to_server (cr_client p), cr_pc := Before_recv_config\<rparr>
      | (Before_recv_config, Main_thread _ _) \<Rightarrow>
          p\<lparr>cr_client := register_recv_config (cr_client p), cr_pc := Main_loop\<rparr>
      | (Main_loop, Main_thread reading now_ms) \<Rightarrow> main_round build env reading now_ms p
      | (_, Message message) \<Rightarrow>
          (case receive_server_input env message (cr_client p) of
             (Inl e, c) \<Rightarrow> p\<lparr>cr_client := c, cr_pc := Client_ended e\<rparr>
           | (Inr _, c) \<Rightarrow> p\<lparr>cr_client := c\<rparr>))"

definition client_work ::
  "('r, 't) table_build \<Rightarrow> client_env \<Rightarrow> 'r client_step list \<Rightarrow> 't client_run \<Rightarrow> 't client_run" where
  "client_work build env sched p = fold (client_step build env) sched p"

text \<open>
  The whole program, against the system's answers: it never starts to work, because an exception ends it (with the files as they
  then are) or the log queue is never read to its end, or it works for ever.
\<close>

datatype 't client_result = Start_ends exn fsys | Start_hangs | Working "'t client_run"

definition client_main ::
  "build \<Rightarrow> 'k system \<Rightarrow> ('r, 't) table_build \<Rightarrow> client_env \<Rightarrow> string list \<Rightarrow> 'r \<Rightarrow>
     'r client_step list \<Rightarrow> 't \<Rightarrow> fsys \<Rightarrow> 'k os \<Rightarrow> 't client_result \<times> 'k os" where
  "client_main platform system build env args reading sched t0 fs os =
     (case network_init platform system os of
        (_, os1) \<Rightarrow>
          ((case client_address args of
              Inl e \<Rightarrow> Start_ends e fs
            | Inr (ip, port) \<Rightarrow>
                (case tb_setup_network build t0 of
                   (Inl e, _) \<Rightarrow> Start_ends e fs
                 | (Inr _, t1) \<Rightarrow>
                     (case tb_update_table build reading t1 of
                        (Inl e, _) \<Rightarrow> Start_ends e fs
                      | (Inr _, t2) \<Rightarrow>
                          (case client_construct env ip port fs of
                             None \<Rightarrow> Start_hangs
                           | Some (Inl e, fs') \<Rightarrow> Start_ends e fs'
                           | Some (Inr c, _) \<Rightarrow>
                               Working (client_work build env sched
                                 \<lparr>cr_pc = Before_send_output, cr_tables = t2, cr_client = c\<rparr>))))),
           os1))"

lemma client_work_simps [simp]:
  "client_work build env [] p = p"
  "client_work build env (t # ts) p = client_work build env ts (client_step build env t p)"
  "client_work build env (ts @ us) p = client_work build env us (client_work build env ts p)"
  by (simp_all add: client_work_def)

end
