(* ===== verification/Client_Laws.thy ===== *)
theory Client_Laws
  imports Client_Main
begin

text \<open>
  What every run of the client keeps, on either build, and what can end it.
\<close>

section \<open>Names\<close>

text \<open>Names short enough for the binary form.\<close>

definition names_fit :: "Client \<Rightarrow> bool" where
  "names_fit c \<longleftrightarrow>
     list_all (\<lambda>e. length (le_process_name e) < 2 ^ 32) (lq_log_entries (cl_log_queue (cc_logger c))) \<and>
     list_all (\<lambda>e. length (ce_process_name e) < 2 ^ 32) (config_entries (cl_config (cc_logger c)))"

text \<open>
  What the program relies on in the JSON library: its parser reports errors by exceptions derived from
  \<^verbatim>\<open>std::exception\<close>, and a string it reads is no longer than the text.
\<close>

definition json_laws :: "client_env \<Rightarrow> bool" where
  "json_laws env \<longleftrightarrow> (\<forall>content.
     case ke_parse env content of
       Inl e \<Rightarrow> is_std_exception e
     | Inr es \<Rightarrow> list_all (\<lambda>c. length (ce_process_name c) \<le> length content) es)"

lemma json_laws_parse:
  assumes "json_laws env"
  shows "ke_parse env content = Inl e \<Longrightarrow> is_std_exception e"
    and "ke_parse env content = Inr es \<Longrightarrow> c \<in> set es \<Longrightarrow> length (ce_process_name c) \<le> length content"
  using assms [unfolded json_laws_def, rule_format, of content] by (auto simp: list_all_iff)

lemma read_string_length: "read_string is = Inr (str, is') \<Longrightarrow> length str < 2 ^ 32"
proof -
  assume s: "read_string is = Inr (str, is')"
  then obtain size is1 where "read_uint32 is = Inr (size, is1)"
    by (cases "read_uint32 is") (auto simp: read_string_def)
  with s have r: "stream_read (replicate (unat size) (CHR 0x00)) (unat size) is1 = (str, is')" "\<not> failbit is'"
    by (auto simp: read_string_def split: prod.splits if_splits)
  then have "length str = unat size" by (auto simp: stream_read_def split: if_splits)
  then show "length str < 2 ^ 32" using unsigned_less [of size, where ?'a = nat] by simp
qed

lemma log_payload_returns:
  assumes "list_all (\<lambda>e. length (le_process_name e) < 2 ^ 32) es"
  shows "\<exists>p. log_payload es = Inr p"
proof -
  have "\<exists>t. write_items serialize es = Inr t"
    using assms by (induction es) (auto simp: serialize_def write_string_Inr bindR_Inr_iff)
  moreover obtain a where "write_string ''log'' = Inr a" by (auto simp: write_string_Inr)
  ultimately show ?thesis by (auto simp: log_payload_def write_vector_Inr bindR_Inr_iff)
qed
section \<open>What the steps keep\<close>

lemma store_config_result:
  "fst (store_config env es s) =
     (case fst (write_config (ke_dump env) (ke_mkdir_ok env) (ke_home env) \<lparr>config_entries = es\<rparr> (cc_fs s)) of
        Inl _ \<Rightarrow> Inl Terminated
      | Inr _ \<Rightarrow> Inr ())"
  by (simp add: store_config_def set_config_def Config_destroy_def write_config_def open_trunc_def
      write_file_def Let_def split: sum.split)

lemma names_fit_ack:
  "names_fit s \<Longrightarrow>
     names_fit (s\<lparr>cc_logger := (cc_logger s)\<lparr>cl_log_queue := fst (ack_log i (cl_log_queue (cc_logger s)) fs)\<rparr>, cc_fs := fs'\<rparr>)"
  by (auto simp: names_fit_def ack_log_def pop_acked_dropWhile list_all_iff Let_def dest: set_dropWhileD)

lemma names_fit_updates [simp]:
  "names_fit (s\<lparr>cc_outbox := out\<rparr>) = names_fit s" "names_fit (s\<lparr>cc_fs := fs\<rparr>) = names_fit s"
  "names_fit (s\<lparr>cc_bus := bus\<rparr>) = names_fit s"
  by (simp_all add: names_fit_def)

lemma names_fit_store_config:
  assumes "names_fit s" and "json_laws env" and "ke_parse env content = Inr es" and "length content < 2 ^ 32"
  shows "names_fit (snd (store_config env es s))"
  using assms json_laws_parse(2) [OF assms(2,3)]
  by (auto simp: names_fit_def store_config_fields list_all_iff dest: order.strict_trans1)

definition keeps_names :: "client_env \<Rightarrow> Client \<Rightarrow> bool" where
  "keeps_names env s \<longleftrightarrow> (json_laws env \<longrightarrow> names_fit s)"

lemma keeps_names_publish_send [simp]:
  "keeps_names env (snd (client_publish env (NetworkSendEvent ip port p) s)) = keeps_names env s"
  using publish_send_outbox [of env ip port p s] by (auto simp: keeps_names_def)


lemma keeps_names_call:
  assumes "keeps_names env s"
  shows "keeps_names env (snd (client_call env cb ev s))"
proof (cases ev)
  case (NetworkRecvEvent ip port p)
  show ?thesis
  proof (cases "read_string (stream_of p)")
    case (Inl e)
    then show ?thesis
      using assms by (cases cb) (simp_all add: NetworkRecvEvent client_call.simps logger_recv_def)
  next
    case (Inr r)
    obtain w rest where r: "read_string (stream_of p) = Inr (w, rest)" using Inr by (cases r) auto
    have len: "length (drop (length ''config '') w) < 2 ^ 32" using read_string_length [OF r] by simp
    show ?thesis
    proof (cases cb)
      case LoggerCallback
      then show ?thesis
        using assms r names_fit_ack [of s]
        by (auto simp: NetworkRecvEvent client_call.simps logger_recv_def keeps_names_def
            case_prod_beta split: option.split)
    next
      case RecvConfigCallback
      have "keeps_names env (snd (client_call env cb (NetworkRecvEvent ip port p) s))"
      proof (cases "starts_with w ''config ''")
        case True
        show ?thesis
        proof (cases "ke_parse env (drop (length ''config '') w)")
          case (Inl e)
          then show ?thesis
            using assms r True by (simp add: RecvConfigCallback client_call.simps)
        next
          case (Inr es)
          obtain res s' where s': "store_config env es s = (res, s')" by fastforce
          have keeps: "keeps_names env s'"
            using assms s' names_fit_store_config [OF _ _ Inr len, of s]
            by (auto simp: keeps_names_def)
          show ?thesis
            using r True Inr s' keeps
            by (cases res) (simp_all add: RecvConfigCallback client_call.simps write_string_def)
        qed
      qed (use assms r in \<open>simp add: RecvConfigCallback client_call.simps\<close>)
      then show ?thesis by (simp add: NetworkRecvEvent)
    qed (use assms in \<open>simp add: NetworkRecvEvent client_call_send\<close>)
  qed
qed (use assms in \<open>cases cb; simp add: client_call_send keeps_names_def\<close>)+

interpretation client_names: callbacks "client_call env" "keeps_names env" for env
  by unfold_locales (rule keeps_names_call)

lemma receive_names:
  assumes "json_laws env" and "names_fit s"
  shows "names_fit (snd (receive_server_input env m s))"
  using client_names.publish_inv [of env s cc_bus] assms
  by (simp add: receive_server_input_def client_publish.simps keeps_names_def)

section \<open>What ends the client\<close>

text \<open>The exception a message raises, while the main thread is at \<open>pc\<close>.\<close>

definition message_error :: "client_env \<Rightarrow> client_pc \<Rightarrow> string \<Rightarrow> Client \<Rightarrow> exn option" where
  "message_error env pc message c =
     (if message = [] then None
      else case read_string (stream_of message) of
             Inl e \<Rightarrow> Some e
           | Inr (word, _) \<Rightarrow>
               if pc = Main_loop \<and> starts_with word ''config '' then
                 (case ke_parse env (drop (length ''config '') word) of
                    Inl e \<Rightarrow> None
                  | Inr es \<Rightarrow>
                      (case fst (write_config (ke_dump env) (ke_mkdir_ok env) (ke_home env)
                              \<lparr>config_entries = es\<rparr> (cc_fs c)) of
                         Inl e \<Rightarrow> Some Terminated
                       | Inr _ \<Rightarrow> None))
               else None)"

text \<open>The exception with which the next step of a running client ends it.\<close>

definition step_error ::
  "('r, 't) table_build \<Rightarrow> client_env \<Rightarrow> 'r client_step \<Rightarrow> 't client_run \<Rightarrow> exn option" where
  "step_error build env step p =
     (case (cr_pc p, step) of
        (Client_ended _, _) \<Rightarrow> None
      | (Main_loop, Main_thread reading _) \<Rightarrow>
          (case fst (tb_update_table build reading (cr_tables p)) of Inl e \<Rightarrow> Some e | Inr _ \<Rightarrow> None)
      | (_, Main_thread _ _) \<Rightarrow> None
      | (pc, Message message) \<Rightarrow> message_error env pc message (cr_client p))"

definition still_runs :: "'t client_run \<Rightarrow> bool" where
  "still_runs p \<longleftrightarrow> (\<forall>e. cr_pc p \<noteq> Client_ended e)"

text \<open>The subscribers while the main thread is at \<open>pc\<close>.\<close>

definition subscribers_at :: "client_pc \<Rightarrow> client_callback list" where
  "subscribers_at pc =
     (case pc of
        Before_send_output \<Rightarrow> [LoggerCallback]
      | Before_recv_config \<Rightarrow> [LoggerCallback, SendToServerCallback]
      | _ \<Rightarrow> [LoggerCallback, SendToServerCallback, RecvConfigCallback])"

lemma recv_config_result:
  assumes "json_laws env" and r: "read_string (stream_of p) = Inr (w, rest)"
  shows "fst (client_call env RecvConfigCallback (NetworkRecvEvent ip port p) s) =
     (if starts_with w ''config '' then
        (case ke_parse env (drop (length ''config '') w) of
           Inl e \<Rightarrow> Inr ()
         | Inr es \<Rightarrow>
             (case fst (write_config (ke_dump env) (ke_mkdir_ok env) (ke_home env)
                     \<lparr>config_entries = es\<rparr> (cc_fs s)) of
                Inl e \<Rightarrow> Inl Terminated
              | Inr _ \<Rightarrow> Inr ()))
      else Inr ())"
proof (cases "ke_parse env (drop (length ''config '') w)")
  case (Inl e)
  then show ?thesis
    using r json_laws_parse(1) [OF assms(1) Inl] by (simp add: client_call.simps swallow_def)
next
  case (Inr es)
  obtain res s' where s': "store_config env es s = (res, s')" by fastforce
  have res: "res = (case fst (write_config (ke_dump env) (ke_mkdir_ok env) (ke_home env)
      \<lparr>config_entries = es\<rparr> (cc_fs s)) of Inl _ \<Rightarrow> Inl Terminated | Inr _ \<Rightarrow> Inr ())"
    using store_config_result [of env es s] s' by simp
  obtain reply where reply: "write_string ''config ok'' = Inr reply" by (auto simp: write_string_Inr)
  obtain out where "client_publish env (NetworkSendEvent (cc_server_ip s') (cc_server_port s') reply) s' =
      (Inr (), s'\<lparr>cc_outbox := out\<rparr>)"
    using publish_send_outbox by blast
  then show ?thesis
    using r Inr s' res reply
    by (auto simp: client_call.simps swallow_def split: sum.split)
qed

lemma logger_result:
  "fst (client_call env LoggerCallback (NetworkRecvEvent ip port p) s) =
     (case read_string (stream_of p) of Inl e \<Rightarrow> Inl e | Inr _ \<Rightarrow> Inr ())"
  "read_string (stream_of p) = Inr (w, rest) \<Longrightarrow> starts_with w ''config '' \<Longrightarrow>
     client_call env LoggerCallback (NetworkRecvEvent ip port p) s = (Inr (), s)"
proof -
  show "fst (client_call env LoggerCallback (NetworkRecvEvent ip port p) s) =
     (case read_string (stream_of p) of Inl e \<Rightarrow> Inl e | Inr _ \<Rightarrow> Inr ())"
    by (simp add: client_call.simps logger_recv_def split: sum.split option.split prod.split)
  assume "read_string (stream_of p) = Inr (w, rest)" and "starts_with w ''config ''"
  moreover from this(2) have "\<not> starts_with w ''ack ''" by (cases w) (auto simp: starts_with_def)
  ultimately show "client_call env LoggerCallback (NetworkRecvEvent ip port p) s = (Inr (), s)"
    by (simp add: client_call.simps logger_recv_def parse_ack_def)
qed

lemma receive_result:
  assumes "json_laws env" and bus: "subscribers (cc_bus s) = subscribers_at pc"
    and "\<forall>e. pc \<noteq> Client_ended e"
  shows "fst (receive_server_input env m s) =
    (case message_error env pc m s of Some e \<Rightarrow> Inl e | None \<Rightarrow> Inr ())"
proof (cases "m = []")
  case False
  let ?ev = "NetworkRecvEvent (cc_server_ip s) (cc_server_port s) m"
  have pub: "receive_server_input env m s = run_callbacks (client_call env) ?ev (subscribers_at pc) s"
    using False bus by (simp add: receive_server_input_def client_publish.simps publish_def)
  obtain s1 r1 where l: "client_call env LoggerCallback ?ev s = (r1, s1)" by fastforce
  show ?thesis
  proof (cases "read_string (stream_of m)")
    case (Inl e)
    then have "r1 = Inl e" using l logger_result(1) [of env "cc_server_ip s" "cc_server_port s" m s] by simp
    then show ?thesis
      using False l Inl by (cases pc) (simp_all add: pub subscribers_at_def message_error_def)
  next
    case (Inr r)
    obtain w rest where w: "read_string (stream_of m) = Inr (w, rest)" using Inr by (cases r) auto
    then have r1: "r1 = Inr ()" using l logger_result(1) [of env "cc_server_ip s" "cc_server_port s" m s] by simp
    have "fst (run_callbacks (client_call env) ?ev (subscribers_at pc) s) =
        (if pc = Main_loop then fst (client_call env RecvConfigCallback ?ev s1) else Inr ())"
      using l r1 assms(3) by (cases pc)
        (simp_all add: subscribers_at_def client_call_send split: prod.split sum.split)
    moreover have "s1 = s" if "starts_with w ''config ''"
      using l logger_result(2) [OF w that] by simp
    ultimately show ?thesis
      using False w recv_config_result [OF assms(1) w, of "cc_server_ip s" "cc_server_port s" s1]
      by (auto simp: pub message_error_def split: sum.split)
  qed
qed (simp add: receive_server_input_def message_error_def)

text \<open>A round of the logger and its batch never throw.\<close>

lemma names_of_number: "le_process_name ` set (number i now fs) = fst ` set fs"
  by (induction i now fs rule: number.induct) (simp_all add: LogEntry_new_def)

lemma client_tick_returns:
  assumes "names_fit c"
  shows "\<exists>c'. client_tick env m now c = (Inr (), c') \<and> names_fit c' \<and> cc_bus c' = cc_bus c"
proof -
  obtain l fs where g: "generate_log m now (cc_logger c) (cc_fs c) = (l, fs)" by fastforce
  let ?f = "findings m (config_entries (cl_config (cc_logger c)))"
  let ?c = "c\<lparr>cc_logger := l, cc_fs := fs\<rparr>"
  have "length (le_process_name e) < 2 ^ 32" if "e \<in> set (number i now ?f)" for e i
  proof -
    have "le_process_name e \<in> fst ` set ?f"
      using that names_of_number [of i now ?f] by blast
    then show ?thesis using findings_names assms by (fastforce simp: names_fit_def list_all_iff)
  qed
  then have fit: "names_fit ?c"
    using assms generate_log_fields [of m now "cc_logger c" "cc_fs c"] g
    by (auto simp: names_fit_def list_all_iff Let_def)
  show ?thesis
  proof (cases "logger_get_batch_log 100 l = []")
    case True
    then show ?thesis using g fit by (simp add: client_tick_def Let_def)
  next
    case False
    have "list_all (\<lambda>e. length (le_process_name e) < 2 ^ 32) (logger_get_batch_log 100 l)"
      using fit by (auto simp: names_fit_def list_all_iff logger_get_batch_log_def get_batch_log_prefix
          dest: in_set_takeD)
    then obtain p where "log_payload (logger_get_batch_log 100 l) = Inr p"
      using log_payload_returns by blast
    with False g fit publish_send_outbox [of env "cc_server_ip ?c" "cc_server_port ?c" p ?c]
    show ?thesis by (auto simp: client_tick_def Let_def)
  qed
qed

section \<open>What the table of a build promises\<close>

text \<open>
  The contract of \<^verbatim>\<open>update_table\<close> with its user: while no exception ends the program, every process has
  an entry in each table, and the table can be traversed.
\<close>

locale process_tables =
  fixes tables :: "('r, 't) table_build"
    and inv :: "'t \<Rightarrow> bool"
  assumes setup_inv: "inv t \<Longrightarrow> tb_setup_network tables t = (Inr (), t') \<Longrightarrow> inv t'"
    and update_inv: "inv t \<Longrightarrow> tb_update_table tables reading t = (Inr (), t') \<Longrightarrow> inv t'"
    and agree: "inv t \<Longrightarrow> tables_agree (tb_table tables t)"
    and order: "inv t \<Longrightarrow> iterates (tb_order tables)"
begin

lemma sums:
  assumes "inv t"
  shows "\<exists>m. get_map_program_name_resource (tb_order tables) (tb_table tables t) = Inr m \<and>
    (\<forall>name. m name = (if pids_named (tb_table tables t) name = {} then None
      else Some (total_stat (tb_table tables t) (pids_named (tb_table tables t) name))))"
  using get_map_totals [OF agree order] assms by blast

text \<open>A round ends the program only by an exception of its update.\<close>

lemma round:
  assumes "inv (cr_tables p)" and "names_fit (cr_client p)"
  shows "case tb_update_table tables reading (cr_tables p) of
      (Inl e, t) \<Rightarrow> main_round tables env reading now p = p\<lparr>cr_tables := t, cr_pc := Client_ended e\<rparr>
    | (Inr _, t) \<Rightarrow>
        inv t \<and> (\<exists>m c. get_map_program_name_resource (tb_order tables) (tb_table tables t) = Inr m \<and>
          client_tick env m now (cr_client p) = (Inr (), c) \<and> names_fit c \<and> cc_bus c = cc_bus (cr_client p) \<and>
          main_round tables env reading now p = p\<lparr>cr_tables := t, cr_client := c\<rparr>)"
proof (cases "tb_update_table tables reading (cr_tables p)")
  case (Pair r t)
  show ?thesis
  proof (cases r)
    case (Inr u)
    then have t: "inv t" using update_inv [OF assms(1)] Pair by simp
    from sums [OF t] obtain m where m: "get_map_program_name_resource (tb_order tables) (tb_table tables t) = Inr m"
      by blast
    from client_tick_returns [OF assms(2), of env m now] obtain c where
      "client_tick env m now (cr_client p) = (Inr (), c)" "names_fit c" "cc_bus c = cc_bus (cr_client p)"
      by blast
    with Pair Inr t m show ?thesis by (simp add: main_round_def)
  qed (simp add: Pair main_round_def)
qed

definition run_ok :: "'t client_run \<Rightarrow> bool" where
  "run_ok p \<longleftrightarrow> still_runs p \<longrightarrow>
     inv (cr_tables p) \<and> names_fit (cr_client p) \<and>
     subscribers (cc_bus (cr_client p)) = subscribers_at (cr_pc p)"

lemma message_step:
  assumes "json_laws env" and "run_ok p" and "still_runs p"
  shows "run_ok (client_step tables env (Message m) p)"
    and "cr_pc (client_step tables env (Message m) p) =
      (case message_error env (cr_pc p) m (cr_client p) of Some e \<Rightarrow> Client_ended e | None \<Rightarrow> cr_pc p)"
proof -
  obtain r c where rc: "receive_server_input env m (cr_client p) = (r, c)" by fastforce
  have c: "cc_bus c = cc_bus (cr_client p)" "names_fit c"
    using receive_bus [of env m "cr_client p"] receive_names [OF assms(1), of "cr_client p" m] rc assms(2,3)
    by (simp_all add: run_ok_def)
  have r: "r = (case message_error env (cr_pc p) m (cr_client p) of Some e \<Rightarrow> Inl e | None \<Rightarrow> Inr ())"
    using receive_result [OF assms(1), of "cr_client p" "cr_pc p" m] rc assms(2,3)
    by (simp add: run_ok_def still_runs_def)
  have step: "client_step tables env (Message m) p =
      (case r of Inl e \<Rightarrow> p\<lparr>cr_client := c, cr_pc := Client_ended e\<rparr> | Inr _ \<Rightarrow> p\<lparr>cr_client := c\<rparr>)"
    using assms(3) rc by (cases "cr_pc p") (simp_all add: client_step_def still_runs_def)
  show "run_ok (client_step tables env (Message m) p)"
    using step c assms(2,3) by (cases r) (simp_all add: run_ok_def still_runs_def)
  show "cr_pc (client_step tables env (Message m) p) =
      (case message_error env (cr_pc p) m (cr_client p) of Some e \<Rightarrow> Client_ended e | None \<Rightarrow> cr_pc p)"
    using step r by (simp split: option.split)
qed

lemma main_step:
  assumes "run_ok p" and "still_runs p"
  shows "run_ok (client_step tables env (Main_thread reading now) p)"
    and "cr_pc (client_step tables env (Main_thread reading now) p) =
      (case step_error tables env (Main_thread reading now) p of
         Some e \<Rightarrow> Client_ended e
       | None \<Rightarrow> (if cr_pc p = Before_send_output then Before_recv_config else Main_loop))"
proof -
  have "run_ok (client_step tables env (Main_thread reading now) p) \<and>
    cr_pc (client_step tables env (Main_thread reading now) p) =
      (case step_error tables env (Main_thread reading now) p of
         Some e \<Rightarrow> Client_ended e
       | None \<Rightarrow> (if cr_pc p = Before_send_output then Before_recv_config else Main_loop))"
  proof (cases "cr_pc p")
    case Main_loop
    obtain r t where u: "tb_update_table tables reading (cr_tables p) = (r, t)" by fastforce
    show ?thesis
      using round [of p, where reading = reading and env = env and now = now] assms u Main_loop
      by (cases r) (auto simp: run_ok_def client_step_def step_error_def still_runs_def)
  qed (use assms in \<open>auto simp: run_ok_def still_runs_def client_step_def step_error_def subscribers_at_def
      register_send_output_to_server_def register_recv_config_def subscribe_def\<close>)
  then show "run_ok (client_step tables env (Main_thread reading now) p)"
    and "cr_pc (client_step tables env (Main_thread reading now) p) =
      (case step_error tables env (Main_thread reading now) p of
         Some e \<Rightarrow> Client_ended e
       | None \<Rightarrow> (if cr_pc p = Before_send_output then Before_recv_config else Main_loop))" by simp_all
qed

lemma step_ok: "json_laws env \<Longrightarrow> run_ok p \<Longrightarrow> run_ok (client_step tables env step p)"
proof (cases "still_runs p")
  case False
  then have "client_step tables env step p = p"
    by (auto simp: still_runs_def client_step_def)
  then show "run_ok p \<Longrightarrow> ?thesis" by simp
next
  case True
  then show "json_laws env \<Longrightarrow> run_ok p \<Longrightarrow> ?thesis"
    using message_step(1) main_step(1) by (cases step) auto
qed

lemma work_ok: "json_laws env \<Longrightarrow> run_ok p \<Longrightarrow> run_ok (client_work tables env sched p)"
  by (induction sched arbitrary: p) (simp_all add: step_ok)

lemma step_ends:
  assumes "json_laws env" and "run_ok p" and "still_runs p"
  shows "cr_pc (client_step tables env step p) = Client_ended e \<longleftrightarrow> step_error tables env step p = Some e"
proof (cases step)
  case (Message m)
  moreover have "step_error tables env (Message m) p = message_error env (cr_pc p) m (cr_client p)"
    using assms(3) by (cases "cr_pc p") (simp_all add: step_error_def still_runs_def)
  ultimately show ?thesis
    using message_step(2) [OF assms] assms(3) by (auto simp: still_runs_def split: option.split)
qed (auto simp: main_step(2) [OF assms(2,3)] split: option.split)

end

section \<open>The start\<close>

text \<open>Names read from the log file are no longer than the file.\<close>

lemma getline_length:
  assumes "getline d str s = (x, s')"
  shows "length x \<le> max (length str) (length (inbuf s))" and "length (inbuf s') \<le> length (inbuf s)"
proof -
  have "length (tl (dropWhile P xs)) \<le> length xs" for P and xs :: string
    using length_dropWhile_le [of P xs] by (simp add: le_diff_conv)
  moreover have "length (takeWhile P xs) \<le> length xs" for P and xs :: string
    by (rule length_takeWhile_le)
  ultimately show "length x \<le> max (length str) (length (inbuf s))" and "length (inbuf s') \<le> length (inbuf s)"
    using assms by (auto simp: getline_def le_max_iff_disj split: if_splits)
qed

lemma deserialize_str_name:
  assumes "deserialize_str num this s = (ret, e, s')"
  shows "length (inbuf s') \<le> length (inbuf s)"
    and "length (le_process_name e) \<le> max (length (le_process_name this)) (length (inbuf s))"
proof -
  obtain line s1 where l: "getline newline [] s = (line, s1)" by fastforce
  obtain temp ss where t: "getline bar [] (stream_of line) = (temp, ss)" by fastforce
  obtain name ss1 where n: "getline bar (le_process_name this) ss = (name, ss1)" by fastforce
  have "le_process_name e \<in> {le_process_name this, name}" and s': "s' = s1"
    using assms l t n by (auto simp: deserialize_str_def Let_def case_prod_beta split: if_splits)
  moreover have "length name \<le> max (length (le_process_name this)) (length (inbuf s))"
    using getline_length [OF l] getline_length [OF t] getline_length [OF n] by simp
  ultimately show "length (le_process_name e) \<le> max (length (le_process_name this)) (length (inbuf s))"
    by auto
  show "length (inbuf s') \<le> length (inbuf s)" using getline_length(2) [OF l] s' by simp
qed

lemma load_entries_names:
  assumes "load_entries num mem ack s acc = Some es" and "good s \<or> eofbit s" and "length (inbuf s) < k"
    and "list_all (\<lambda>e. length (le_process_name e) < k) acc"
  shows "list_all (\<lambda>e. length (le_process_name e) < k) es"
  using assms
proof (induction "length (inbuf s)" arbitrary: s acc rule: less_induct)
  case less
  show ?case
  proof (cases "eofbit s")
    case True
    then show ?thesis using less.prems by (simp add: load_entries.simps)
  next
    case False
    with less.prems have g: "good s" by simp
    obtain ret e s' where d: "deserialize_str num (LogEntry_default mem) s = (ret, e, s')"
      by (cases "deserialize_str num (LogEntry_default mem) s")
    have short: "length (inbuf s') < k" "length (le_process_name e) < k"
      using deserialize_str_name [OF d] less.prems(3) by (auto simp: LogEntry_default_def)
    define acc' where "acc' = (if ret = 0 \<and> ack < le_id e then acc @ [e] else acc)"
    have acc': "list_all (\<lambda>e. length (le_process_name e) < k) acc'"
      using less.prems(4) short(2) by (simp add: acc'_def)
    have load: "load_entries num mem ack s' acc' = Some es"
      using less.prems(1) False d by (auto simp: acc'_def load_entries.simps [of _ _ _ s] split: if_splits)
    show ?thesis
    proof (cases "eofbit s'")
      case True
      then show ?thesis using load acc' by (simp add: load_entries_eof)
    next
      case False
      then show ?thesis
        using deserialize_str_progress [OF g d] less.hyps [OF _ load _ short(1) acc'] by blast
    qed
  qed
qed

lemma LogQueue_new_names:
  assumes "LogQueue_new mem_ack num mem log_file ack_file fs = Some (q, fs')"
    and "\<And>t. files fs log_file = Some t \<Longrightarrow> length t < k" and "1 < k" and "log_file \<noteq> ack_file"
  shows "list_all (\<lambda>e. length (le_process_name e) < k) (lq_log_entries q)"
proof -
  obtain ack fs1 where a: "load_ack mem_ack ack_file fs = (ack, fs1)" by fastforce
  have fs1: "files fs1 log_file = files fs log_file" "no_read fs1 = no_read fs"
    using a assms(4) by (auto simp: load_ack_def open_trunc_def write_file_def split: option.splits if_splits)
  show ?thesis
  proof (cases "open_in fs1 log_file")
    case None
    then show ?thesis using assms(1) a by (auto simp: LogQueue_new_def)
  next
    case (Some s)
    then obtain t where t: "files fs log_file = Some t" "s = stream_of t"
      using fs1 by (auto simp: open_in_def split: if_splits)
    obtain es where "load_entries num mem ack s [] = Some es" and q: "lq_log_entries q = es"
      using assms(1) a Some by (auto simp: LogQueue_new_def split: option.splits)
    from load_entries_names [OF this(1), of k] show ?thesis
      using t q assms(2) by (simp add: good_def)
  qed
qed

definition small_files :: "fsys \<Rightarrow> bool" where
  "small_files fs \<longleftrightarrow> (\<forall>name t. files fs name = Some t \<longrightarrow> length t < 2 ^ 32)"

lemma startup_config_fit:
  assumes "startup_config env fs = (Inr config, fs')" and "json_laws env" and "small_files fs"
  shows "list_all (\<lambda>e. length (ce_process_name e) < 2 ^ 32) (config_entries config)"
    and "name \<noteq> config_path (ke_home env) \<Longrightarrow> files fs' name = files fs name"
proof -
  consider (default) "config = default_config"
    | (read) t es where "files fs (config_path (ke_home env)) = Some t" "ke_parse env t = Inr es"
        "config_entries config = map convert_after_read es"
    using assms(1)
    by (auto simp: startup_config_def read_config_def open_in_def bindR_Inr_iff Config_empty_def
        split: sum.splits prod.splits if_splits option.splits)
  then show "list_all (\<lambda>e. length (ce_process_name e) < 2 ^ 32) (config_entries config)"
  proof cases
    case default
    then show ?thesis by (simp add: default_config_def ConfigEntry_new_def convert_after_read_def)
  next
    case read
    then have "length t < 2 ^ 32" using assms(3) by (auto simp: small_files_def)
    then show ?thesis
      using json_laws_parse(2) [OF assms(2) read(2)]
      by (auto simp: read(3) list_all_iff convert_after_read_def dest: order.strict_trans1)
  qed
  show "name \<noteq> config_path (ke_home env) \<Longrightarrow> files fs' name = files fs name"
    using assms(1)
    by (auto simp: startup_config_def Config_destroy_def write_config_def open_trunc_def write_file_def
        split: sum.splits prod.splits if_splits option.splits)
qed

lemma client_construct_ok:
  assumes "client_construct env ip port fs = Some (Inr c, fs')" and "json_laws env" and "small_files fs"
    and "config_path (ke_home env) \<noteq> ''rmt-log.txt''"
  shows "names_fit c" and "subscribers (cc_bus c) = [LoggerCallback]"
proof -
  obtain config fs1 q fs2 where
    s: "startup_config env fs = (Inr config, fs1)"
    and q: "LogQueue_new (ke_mem_ack env) (in_num (ke_indet env)) (in_entry (ke_indet env))
      ''rmt-log.txt'' ''rmt-ack.txt'' fs1 = Some (q, fs2)"
    and c: "cc_logger c = \<lparr>cl_config = config, cl_log_queue = q\<rparr>" "cc_bus c = subscribe LoggerCallback EventBus_new"
    using assms(1) by (auto simp: client_construct_def split: prod.splits sum.splits option.splits)
  have "list_all (\<lambda>e. length (le_process_name e) < 2 ^ 32) (lq_log_entries q)"
    using startup_config_fit(2) [OF s assms(2,3), of "''rmt-log.txt''"] assms(3,4)
    by (intro LogQueue_new_names [OF q]) (auto simp: small_files_def)
  with startup_config_fit(1) [OF s assms(2,3)] c show "names_fit c" by (simp add: names_fit_def)
  show "subscribers (cc_bus c) = [LoggerCallback]" using c by (simp add: subscribe_def EventBus_new_def)
qed

text \<open>The tables of both builds keep the contract.\<close>

interpretation linux: process_tables "linux_build ord first page_size pcap"
    "\<lambda>t. iterates ord \<and> tables_ok (lt_table t)" for ord first page_size pcap
proof unfold_locales
  fix t t' :: "'a linux_tables" and reading
  assume inv: "iterates ord \<and> tables_ok (lt_table t)"
  show "iterates ord \<and> tables_ok (lt_table t')"
    if "tb_update_table (linux_build ord first page_size pcap) reading t = (Inr (), t')"
    using that inv update_table_ok [of "lt_table t" ord first page_size "lr_uninit reading" "lr_procfs reading" "lr_packets reading" "Inr ()"]
    by (auto simp: linux_build_def split: prod.splits)
qed (auto simp: linux_build_def tables_ok_def split: sum.splits prod.splits)

interpretation windows: process_tables "windows_build ord tdh inet"
    "\<lambda>t. iterates ord \<and> tables_agree (wt_table t)" for ord tdh inet
proof unfold_locales
  fix t t' :: windows_tables and reading
  assume inv: "iterates ord \<and> tables_agree (wt_table t)"
  show "iterates ord \<and> tables_agree (wt_table t')"
    if "tb_update_table (windows_build ord tdh inet) reading t = (Inr (), t')"
    using that inv update_table_windows_exact [of "wt_table t" ord]
    by (auto simp: windows_build_def split: prod.splits sum.splits)
qed (auto simp: windows_build_def split: sum.splits prod.splits)

end
