(* ===== verification/Client_Properties.thy ===== *)
theory Client_Properties
  imports Client_Laws Table_Properties
begin

text \<open>
  The properties of \<^verbatim>\<open>client_main\<close>: what can end it, what it needs to start on Linux, and which messages it
  drops while it starts.
\<close>

section \<open>Runs of the whole program\<close>

lemma client_main_working:
  assumes "client_main platform system build env args reading sched t0 fs os = (Working p, os')"
  obtains ip port t1 t2 c fs' where "tb_setup_network build t0 = (Inr (), t1)"
    and "tb_update_table build reading t1 = (Inr (), t2)"
    and "client_construct env ip port fs = Some (Inr c, fs')"
    and "p = client_work build env sched \<lparr>cr_pc = Before_send_output, cr_tables = t2, cr_client = c\<rparr>"
  using assms by (auto simp: client_main_def split: prod.splits sum.splits option.splits)

lemma client_construct_bus:
  "client_construct env ip port fs = Some (Inr c, fs') \<Longrightarrow> subscribers (cc_bus c) = [LoggerCallback]"
  by (auto simp: client_construct_def subscribe_def EventBus_new_def
      split: prod.splits sum.splits option.splits)

fun main_steps :: "'r client_step list \<Rightarrow> nat" where
  "main_steps [] = 0"
| "main_steps (Main_thread _ _ # sched) = Suc (main_steps sched)"
| "main_steps (Message _ # sched) = main_steps sched"

text \<open>Where the main thread is and who is subscribed only depends on how often it was scheduled.\<close>

definition registered :: "nat \<Rightarrow> client_pc \<Rightarrow> bool" where
  "registered n pc \<longleftrightarrow>
     pc = (if n = 0 then Before_send_output else if n = 1 then Before_recv_config else Main_loop)"

definition at_start :: "nat \<Rightarrow> 't client_run \<Rightarrow> bool" where
  "at_start n p \<longleftrightarrow> registered n (cr_pc p) \<and>
     (n < 2 \<longrightarrow> subscribers (cc_bus (cr_client p)) = subscribers_at (cr_pc p))"

lemma message_registers:
  assumes "at_start n p" and "still_runs (client_step build env (Message m) p)"
  shows "at_start n (client_step build env (Message m) p)"
proof -
  obtain r c where rc: "receive_server_input env m (cr_client p) = (r, c)" by fastforce
  then have "cc_bus c = cc_bus (cr_client p)" using receive_bus [of env m "cr_client p"] by simp
  then show ?thesis
    using assms rc by (cases "cr_pc p"; cases r) (auto simp: client_step_def still_runs_def at_start_def)
qed

lemma main_registers:
  assumes "at_start n p" and runs: "still_runs (client_step build env (Main_thread reading now) p)"
  shows "at_start (Suc n) (client_step build env (Main_thread reading now) p)"
proof (cases "n < 2")
  case True
  then show ?thesis
    using assms(1)
    by (auto simp: at_start_def registered_def client_step_def subscribers_at_def less_2_cases_iff
        register_send_output_to_server_def register_recv_config_def subscribe_def)
next
  case False
  then have "cr_pc p = Main_loop" using assms(1) by (auto simp: at_start_def registered_def)
  then show ?thesis
    using False runs
    by (auto simp: client_step_def at_start_def registered_def still_runs_def main_round_def
        split: prod.splits sum.splits)
qed

lemma work_registrations:
  "at_start n p \<Longrightarrow> still_runs (client_work build env sched p) \<Longrightarrow>
     at_start (n + main_steps sched) (client_work build env sched p)"
proof (induction sched arbitrary: n p)
  case Nil
  then show ?case by simp
next
  case (Cons s sched)
  have ended: "client_work build env ts q = q" if "\<not> still_runs q" for ts q
    using that by (induction ts) (auto simp: still_runs_def client_step_def)
  then have runs: "still_runs (client_step build env s p)"
    using Cons.prems(2) by (metis client_work_simps(2))
  show ?case
  proof (cases s)
    case (Main_thread reading now)
    from main_registers [OF Cons.prems(1) runs [unfolded this]] show ?thesis
      using Cons.IH [of "Suc n"] Cons.prems(2) Main_thread by simp
  next
    case (Message m)
    from message_registers [OF Cons.prems(1) runs [unfolded this]] show ?thesis
      using Cons.IH [of n] Cons.prems(2) Message by simp
  qed
qed

text \<open>The invariant of the runs holds from the start.\<close>

context process_tables begin

lemma main_ends:
  assumes main: "client_main platform system tables env args reading sched t0 fs os = (Working p, os')"
    and t0: "inv t0" and laws: "json_laws env" and "small_files fs"
    and "config_path (ke_home env) \<noteq> ''rmt-log.txt''" and "still_runs p"
  shows "cr_pc (client_step tables env step p) = Client_ended e \<longleftrightarrow> step_error tables env step p = Some e"
proof -
  obtain ip port t1 t2 c fs' where t: "tb_setup_network tables t0 = (Inr (), t1)"
      "tb_update_table tables reading t1 = (Inr (), t2)"
    and c: "client_construct env ip port fs = Some (Inr c, fs')"
    and p: "p = client_work tables env sched \<lparr>cr_pc = Before_send_output, cr_tables = t2, cr_client = c\<rparr>"
    by (rule client_main_working [OF main])
  have "inv t2" using update_inv [OF setup_inv [OF t0 t(1)] t(2)] .
  moreover note client_construct_ok [OF c laws assms(4,5)]
  ultimately have "run_ok \<lparr>cr_pc = Before_send_output, cr_tables = t2, cr_client = c\<rparr>"
    by (simp add: run_ok_def subscribers_at_def)
  from work_ok [OF laws this] have "run_ok p" by (simp add: p)
  then show ?thesis using step_ends [OF laws] assms(6) by blast
qed

end

section \<open>Properties\<close>

text \<open>
  A configuration that the operator pushes while the client starts is lost: the receiving thread
  runs before the subscriber for configurations is registered, and until the main thread has done both
  registrations such a message changes nothing in the client and gets no answer.
\<close>

lemma early_config_lost:
  assumes "client_main platform system build env args reading sched t0 fs os = (Working p, os')"
    and "main_steps sched < 2" and "write_string (''config '' @ content) = Inr message"
  shows "client_step build env (Message message) p = p"
proof (cases "still_runs p")
  case True
  obtain t2 c where p: "p = client_work build env sched \<lparr>cr_pc = Before_send_output, cr_tables = t2, cr_client = c\<rparr>"
    and c: "subscribers (cc_bus c) = [LoggerCallback]"
    using client_main_working [OF assms(1)] client_construct_bus by metis
  have "at_start 0 \<lparr>cr_pc = Before_send_output, cr_tables = t2, cr_client = c\<rparr>"
    by (simp add: at_start_def registered_def subscribers_at_def c)
  from work_registrations [OF this] True have start: "at_start (main_steps sched) p" by (simp add: p)
  let ?c = "cr_client p"
  let ?ev = "NetworkRecvEvent (cc_server_ip ?c) (cc_server_port ?c) message"
  have w: "read_string (stream_of message) = Inr (''config '' @ content, stream_of [])"
    using parsesD_all [OF parses_string [OF assms(3)]] .
  have "client_call env LoggerCallback ?ev ?c = (Inr (), ?c)"
    by (rule logger_result(2) [OF w]) (rule starts_with_append)
  moreover have "subscribers (cc_bus ?c) = [LoggerCallback] \<or>
      subscribers (cc_bus ?c) = [LoggerCallback, SendToServerCallback]" and pc: "cr_pc p \<noteq> Main_loop"
    using start assms(2) by (auto simp: at_start_def registered_def subscribers_at_def less_2_cases_iff)
  ultimately have "receive_server_input env message ?c = (Inr (), ?c)"
    using write_string_nonempty [OF assms(3)]
    by (auto simp: receive_server_input_def client_publish.simps publish_def client_call_send)
  then show ?thesis using pc by (cases "cr_pc p") (simp_all add: client_step_def)
qed (auto simp: client_step_def still_runs_def)

text \<open>
  C17. What can end the client on Linux, after any run: exactly an exception of \<^verbatim>\<open>update_table\<close> in a round; a
  message that is not empty but holds no string; a configuration that can be parsed but not written to
  its file. No acknowledgement, whatever number it has, no other message, and nothing between the
  update of the tables and the sending of the batch ever ends it. A step is a whole round or a whole
  message here; what the two threads do to the queue when they overlap is in \<open>Queue_Race\<close>.
\<close>

theorem client_ends_only:
  assumes "client_main platform system (linux_build ord first page_size pcap) env args reading sched
      linux_tables_new fs os = (Working p, os')"
    and "iterates ord" and "json_laws env" and "small_files fs"
    and "config_path (ke_home env) \<noteq> ''rmt-log.txt''" and "still_runs p"
  shows "cr_pc (client_step (linux_build ord first page_size pcap) env step p) = Client_ended e \<longleftrightarrow>
    step_error (linux_build ord first page_size pcap) env step p = Some e"
  using assms by (intro linux.main_ends [OF assms(1)]) (simp_all add: linux_tables_new_def)

text \<open>The same on Windows.\<close>

lemma windows_client_ends_only:
  assumes "client_main platform system (windows_build ord tdh inet) env args reading sched
      windows_tables_new fs os = (Working p, os')"
    and "iterates ord" and "json_laws env" and "small_files fs"
    and "config_path (ke_home env) \<noteq> ''rmt-log.txt''" and "still_runs p"
  shows "cr_pc (client_step (windows_build ord tdh inet) env step p) = Client_ended e \<longleftrightarrow>
    step_error (windows_build ord tdh inet) env step p = Some e"
  using assms tables_ok_new
  by (intro windows.main_ends [OF assms(1)]) (simp_all add: windows_tables_new_def tables_ok_def)

lemma socket_loop_error: "socket_loop mem entries sockets = Inl e \<Longrightarrow> \<exists>why. e = Undefined why"
proof (induction entries arbitrary: mem sockets)
  case (Cons entry entries)
  then show ?case
    by (cases entry) (auto simp: bindR_Inl_iff parse_socket_inode_def Let_def split: if_splits)
qed simp

lemma port_map_pids_error: "port_map_pids un os sockets pids m = Inl e \<Longrightarrow> \<exists>why. e = Undefined why"
  by (induction un os sockets pids m rule: port_map_pids.induct)
     (auto simp: bindR_Inl_iff get_socket_inode_list_def dest: socket_loop_error split: if_splits)

text \<open>
  C18. On Linux the client does not even start on a machine whose TCP connections are all local ones, as
  with the default server address: the first update takes \<^verbatim>\<open>begin()\<close> of an empty map (if not, reading a
  socket link was undefined before), whatever else is there.
\<close>

theorem start_needs_connection:
  assumes "client_address args = Inr address" and "setup_network pcap None = Inr capture"
    and "fst (read_stat_cpu (un_stat (lr_uninit reading)) (lr_procfs reading) empty_buffer) = Inr cpu"
    and "proc_dir (lr_procfs reading) = Some names"
    and "proc_net_tcp (lr_procfs reading) = Some (concat (map (\<lambda>l. l @ [CHR 0x0A])
           (header # map (\<lambda>(slot, s, ws, tail). tcp_line [] slot s ws tail) rows)))"
    and "CHR 0x0A \<notin> set header"
    and "list_all (\<lambda>(slot, s, ws, tail). slot \<noteq> [] \<and> list_all (\<lambda>c. \<not> is_space c) slot \<and>
           list_all plain_word ws \<and> length ws = 6 \<and> CHR 0x0A \<notin> set (tcp_line [] slot s ws tail)) rows"
    and "list_all (\<lambda>(slot, s, ws, tail). si_local_ip s AND 0xff = 127) rows"
    and "first Map.empty = None"
  shows "\<exists>why. fst (client_main platform system (linux_build ord first page_size pcap) env args reading sched
    linux_tables_new fs os) = Start_ends (Undefined why) fs"
proof -
  have "filter (\<lambda>s. si_local_ip s AND 0xff \<noteq> 127) (map (\<lambda>(slot, s, ws, tail). s) rows) = []"
    using assms(8) by (auto simp: filter_empty_conv list_all_iff)
  then have "parse_net_tcp (un_tcp (lr_uninit reading)) (lr_procfs reading) = Map.empty"
    using net_tcp_read_back [OF assms(5-7)] by simp
  then have "\<exists>why pt. update_table ord first page_size (lr_uninit reading) (lr_procfs reading) (lr_packets reading)
      ProcessTable_new = (Inl (Undefined why), pt)"
    using assms(3,4,9) port_map_pids_error
    by (cases "read_stat_cpu (un_stat (lr_uninit reading)) (lr_procfs reading) empty_buffer")
       (auto simp: update_table_def ProcessTable_new_def list_pids_def Let_def split: sum.splits)
  then show ?thesis
    using assms(1,2)
    by (auto simp: client_main_def linux_build_def linux_tables_new_def PcapHandler_new_def split: prod.splits)
qed

text \<open>A client on the small \<^verbatim>\<open>/proc\<close>, with a library that reads no JSON.\<close>

definition small_env :: client_env where
  "small_env = \<lparr>ke_indet = \<lparr>in_num = 0, in_entry = LogEntry_new 0 [] 0 CPU 0, in_count = 0, in_id = 0\<rparr>,
     ke_mem_ack = 0, ke_dump = (\<lambda>_. Inr []), ke_parse = (\<lambda>_. Inl Json_error), ke_home = [], ke_mkdir_ok = True\<rparr>"

definition one_device :: "unit pcap_api" where
  "one_device = \<lparr>pcap_open_live = (\<lambda>_ _ _ _. Some ()), pcap_setnonblock = (\<lambda>_ _. 0)\<rparr>"

definition small_build :: "(linux_reading, unit linux_tables) table_build" where
  "small_build = linux_build ascending (\<lambda>_. Some 88) 4096 one_device"

definition demo_reading :: linux_reading where
  "demo_reading = \<lparr>lr_uninit = demo_uninit, lr_procfs = demo_os, lr_packets = []\<rparr>"

definition quiet_system :: "unit system" where
  "quiet_system = \<lparr>sys_answer = (\<lambda>_ _. (0, ())), sys_errno = (\<lambda>_. 0), sys_strerror = (\<lambda>_. [])\<rparr>"

definition quiet_os :: "unit os" where
  "quiet_os = \<lparr>os_state = (), os_calls = [], os_cerr = []\<rparr>"

lemma small_construct: "\<exists>c fs. client_construct small_env ip port empty_fsys = Some (Inr c, fs)"
proof -
  obtain fs1 where start: "startup_config small_env empty_fsys = (Inr default_config, fs1)"
    by (simp add: startup_config_def read_config_def open_in_def empty_fsys_def Config_destroy_def
        write_config_def open_trunc_def small_env_def split: prod.split)
  obtain q fs2 where q: "LogQueue_new (ke_mem_ack small_env) (in_num (ke_indet small_env)) (in_entry (ke_indet small_env))
      ''rmt-log.txt'' ''rmt-ack.txt'' fs1 = Some (q, fs2)"
    using LogQueue_new_returns by blast
  have "fst (Config_destroy (ke_dump small_env) (ke_mkdir_ok small_env) (ke_home small_env) c fs) = Inr ()" for c fs
    by (simp add: Config_destroy_def write_config_def small_env_def split: option.split)
  then obtain fs3 where "Config_destroy (ke_dump small_env) (ke_mkdir_ok small_env) (ke_home small_env) default_config
      (LogQueue_destroy q fs2) = (Inr (), fs3)"
    by (metis prod.collapse)
  then show ?thesis using start q by (simp add: client_construct_def)
qed

lemma small_main:
  "\<exists>p. client_main Posix quiet_system small_build small_env [] demo_reading [] linux_tables_new empty_fsys quiet_os =
      (Working p, snd (network_init Posix quiet_system quiet_os)) \<and> cr_pc p = Before_send_output"
proof -
  obtain c fs where c: "client_construct small_env SERVER_IP (of_int SERVER_PORT) empty_fsys = Some (Inr c, fs)"
    using small_construct by blast
  have "tb_setup_network small_build linux_tables_new =
      (Inr (), linux_tables_new\<lparr>lt_handle := Some (), lt_nonblocking := True\<rparr>)"
    by (simp add: small_build_def linux_build_def setup_network_def one_device_def)
  moreover have "tb_update_table small_build demo_reading t = (Inr (), t\<lparr>lt_table := demo_table\<rparr>)"
    if "lt_table t = ProcessTable_new" for t
    using that demo_update by (simp add: small_build_def linux_build_def demo_reading_def)
  ultimately show ?thesis
    using c by (auto simp: client_main_def client_address_def linux_tables_new_def split: prod.split)
qed

lemma small_laws: "json_laws small_env" "small_files empty_fsys" "config_path (ke_home small_env) \<noteq> ''rmt-log.txt''"
  by (simp_all add: json_laws_def small_files_def empty_fsys_def small_env_def config_path_def)

lemma client_ends_only_witness:
  "\<exists>p os'. client_main Posix quiet_system small_build small_env [] demo_reading [] linux_tables_new empty_fsys quiet_os =
      (Working p, os') \<and>
    cr_pc (client_step small_build small_env (Message ''x'') p) = Client_ended Serializable.read_failed"
proof -
  obtain p os' where p: "client_main Posix quiet_system small_build small_env [] demo_reading [] linux_tables_new
      empty_fsys quiet_os = (Working p, os')" and pc: "cr_pc p = Before_send_output"
    using small_main by blast
  have "read_string (stream_of ''x'') = Inl Serializable.read_failed"
    by (simp add: read_string_def read_uint32_def stream_read_def Let_def)
  then have "step_error small_build small_env (Message ''x'') p = Some Serializable.read_failed"
    by (simp add: step_error_def pc message_error_def)
  then show ?thesis
    using p client_ends_only [OF p [unfolded small_build_def] _ small_laws, of "Message ''x''" Serializable.read_failed]
    by (auto simp: pc still_runs_def small_build_def)
qed

lemma early_config_lost_witness:
  "\<exists>p os' message. client_main Posix quiet_system small_build small_env [] demo_reading [] linux_tables_new empty_fsys quiet_os =
      (Working p, os') \<and> write_string ''config []'' = Inr message \<and>
    client_step small_build small_env (Message message) p = p"
proof -
  obtain p os' where p: "client_main Posix quiet_system small_build small_env [] demo_reading [] linux_tables_new
      empty_fsys quiet_os = (Working p, os')"
    using small_main by blast
  obtain m where m: "write_string (''config '' @ ''[]'') = Inr m" by (auto simp: write_string_Inr)
  from early_config_lost [OF p _ m] p m show ?thesis by auto
qed

text \<open>The same machine with one connection, from 127.0.0.1.\<close>

definition local_os :: procfs where
  "local_os = demo_os\<lparr>proc_net_tcp := Some (concat (map (\<lambda>l. l @ [CHR 0x0A])
     [''sl'', tcp_line [] ''0:'' (demo_socket\<lparr>si_local_ip := 0x0100007F\<rparr>) (replicate 6 ([], ''0'')) ''1'']))\<rparr>"

lemma start_needs_connection_witness:
  "\<exists>why. fst (client_main Posix quiet_system (linux_build ascending (\<lambda>m. if m = Map.empty then None else Some 88) 4096 one_device)
    small_env [] (demo_reading\<lparr>lr_procfs := local_os\<rparr>) [] linux_tables_new empty_fsys quiet_os) =
      Start_ends (Undefined why) empty_fsys"
proof (rule start_needs_connection)
  let ?reading = "demo_reading\<lparr>lr_procfs := local_os\<rparr>"
  let ?s = "demo_socket\<lparr>si_local_ip := 0x0100007F\<rparr>"
  let ?rows = "[(''0:'', ?s, replicate 6 ([] :: string, ''0''), ''1'')]"
  show "client_address [] = Inr (SERVER_IP, of_int SERVER_PORT)" by (simp add: client_address_def)
  show "setup_network one_device None = Inr ((), True)" by (simp add: setup_network_def one_device_def)
  have "read_stat_cpu mem local_os b = read_stat_cpu mem demo_os b" for mem b
    by (simp add: read_stat_cpu_def read_file_def local_os_def)
  then show "fst (read_stat_cpu (un_stat (lr_uninit ?reading)) (lr_procfs ?reading) empty_buffer) =
      Inr \<lparr>cpu_usage = 10, cpu_idle = 3\<rparr>"
    by (simp add: demo_reading_def demo_read_stat)
  show "proc_dir (lr_procfs ?reading) = Some [''self'', ''7'']" by (simp add: local_os_def demo_os_def)
  show "proc_net_tcp (lr_procfs ?reading) = Some (concat (map (\<lambda>l. l @ [CHR 0x0A])
      (''sl'' # map (\<lambda>(slot, s, ws, tail). tcp_line [] slot s ws tail) ?rows)))"
    by (simp add: local_os_def)
  show "list_all (\<lambda>(slot, s, ws, tail). slot \<noteq> [] \<and> list_all (\<lambda>c. \<not> is_space c) slot \<and>
      list_all plain_word ws \<and> length ws = 6 \<and> CHR 0x0A \<notin> set (tcp_line [] slot s ws tail)) ?rows"
    by (simp add: tcp_line_def spaced_def newline_not_hex demo_socket_def show_demo plain_word_def is_space_def list_all_iff)
qed (simp_all add: demo_socket_def)

end
