(* ===== verification/Overload.thy ===== *)
theory Overload
  imports Client_Laws Delivery
begin

text \<open>
  From \<^verbatim>\<open>/proc\<close> to the server's file: a round of the client's main loop in the network of \<open>Delivery\<close>. A program
  whose usage, as the process table has it, is above a threshold gets a log, and the log is stored.
\<close>

section \<open>Usage and thresholds\<close>

fun resource_usage :: "LogType \<Rightarrow> ProcessStat \<Rightarrow> u64" where
  "resource_usage CPU stat = ucast (cpu_usage_percent stat)"
| "resource_usage MEM stat = mem_usage stat"
| "resource_usage DISK stat = disk_total stat"
| "resource_usage NET stat = network_total stat"
| "resource_usage (LogType_value _) stat = 0"

fun resource_threshold :: "LogType \<Rightarrow> ConfigEntry \<Rightarrow> u64" where
  "resource_threshold CPU entry = ucast (ce_cpu_usage entry)"
| "resource_threshold MEM entry = ce_mem_usage entry"
| "resource_threshold DISK entry = ce_disk_usage entry"
| "resource_threshold NET entry = ce_network_usage entry"
| "resource_threshold (LogType_value _) entry = 0"

lemma exceeded_is_finding:
  assumes "entry \<in> set es"
    and "resource_threshold ty entry < resource_usage ty (stat_of m (ce_process_name entry))"
  shows "(ce_process_name entry, ty, resource_usage ty (stat_of m (ce_process_name entry))) \<in> set (findings m es)"
proof -
  have "(ce_process_name entry, ty, resource_usage ty (stat_of m (ce_process_name entry))) \<in> set (entry_findings m entry)"
    using assms(2) by (cases ty) (auto simp: entry_findings_def Let_def)
  with assms(1) show ?thesis by (auto simp: findings_def)
qed

lemma finding_is_numbered:
  "(name, ty, v) \<in> set fs \<Longrightarrow> \<exists>i. LogEntry_new i name now ty v \<in> set (number k now fs)"
  by (induction k now fs rule: number.induct) auto

lemma usage_of_program:
  assumes "m name = (if pids_named pt name = {} then None else Some (total_stat pt (pids_named pt name)))"
  shows "resource_usage ty (stat_of m name) = resource_usage ty (total_stat pt (pids_named pt name))"
  using assms
  by (cases ty) (simp_all add: stat_of_def total_stat_def Let_def ProcessStat_default_def DiskStat_default_def
      NetworkStat_default_def disk_total_def network_total_def)

lemma client_holds_names_fit:
  assumes "client_holds kenv hist j c"
  shows "names_fit c"
proof -
  have "list_all sendable hist" "lq_log_entries (client_queue c) = drop j hist" "loggable (client_config c)"
    using assms by (auto simp: client_holds_def queue_holds_def queue_at_def history_def)
  then show ?thesis
    by (auto simp: names_fit_def list_all_iff sendable_def loggable_def dest: in_set_dropD)
qed

text \<open>The server's file has a line for every log of the history it holds.\<close>

lemma server_holds_line:
  assumes "server_holds info fs held" and "e \<in> set held"
  shows "\<exists>before after. files fs (client_log_file info) = Some (before @ serialize_str e @ after)"
proof -
  have "files fs (client_log_file info) = Some (concat (map serialize_str held))"
    using assms by (auto simp: server_holds_def holds_logs_def)
  moreover obtain xs ys where "held = xs @ e # ys" using split_list [OF assms(2)] by blast
  ultimately show ?thesis by auto
qed

section \<open>A round in the network\<close>

context process_tables begin

lemma round_logs:
  assumes "net_start kenv n0" and steps: "(net_step kenv senv)\<^sup>*\<^sup>* n0 n"
    and pc: "cr_pc p = Main_loop" and client: "cr_client p = nw_client n" and "inv (cr_tables p)"
    and upd: "tb_update_table tables reading (cr_tables p) = (Inr (), t)"
    and entry: "entry \<in> set (client_config (nw_client n))"
    and over: "resource_threshold resource entry <
      resource_usage resource (total_stat (tb_table tables t) (pids_named (tb_table tables t) (ce_process_name entry)))"
    and bounds: "length (nw_hist n) + 4 * length (client_config (nw_client n)) + 1 < 2 ^ 64"
      "length (lq_log_entries (client_queue (nw_client n))) + 4 * length (client_config (nw_client n)) < 2 ^ 32"
      "length (lq_log_entries (client_queue (nw_client n))) + 4 * length (client_config (nw_client n)) \<le> 100 * r"
    and p'_def: "p' = client_step tables kenv (Main_thread reading now) p"
  shows "cr_pc p' = Main_loop \<and> cr_tables p' = t \<and>
    (\<exists>i c s before after.
       quiet_rounds kenv senv (nw_info n) r ((cr_client p')\<lparr>cc_outbox := []\<rparr>, nw_server n) = Inr (c, s) \<and>
       files (sv_fs s) (client_log_file (nw_info n)) = Some (before @
         serialize_str (LogEntry_new i (ce_process_name entry) now resource
           (resource_usage resource (total_stat (tb_table tables t) (pids_named (tb_table tables t) (ce_process_name entry))))) @
         after))"
proof -
  let ?c = "nw_client n" and ?pt = "tb_table tables t" and ?name = "ce_process_name entry"
  obtain tr where rel: "net_rel kenv n tr"
    using simulations [OF steps net_rel_start [OF assms(1)] transfer_ok_start] by blast
  then have holds: "client_holds kenv (nw_hist n) (tr_from tr) ?c" by (simp add: net_rel_def)
  obtain m c where m: "get_map_program_name_resource (tb_order tables) ?pt = Inr m"
    and tick: "client_tick kenv m now ?c = (Inr (), c)"
    and p': "p' = p\<lparr>cr_tables := t, cr_client := c\<rparr>" and "inv t"
    using round [of p, where reading = reading and env = kenv and now = now] assms(5) upd
      client_holds_names_fit [OF holds] pc client
    by (auto simp: p'_def client_step_def)
  have sums: "m ?name = (if pids_named ?pt ?name = {} then None else Some (total_stat ?pt (pids_named ?pt ?name)))"
    using sums [OF \<open>inv t\<close>] m by auto
  note usage = usage_of_program [where m = m and pt = ?pt and name = ?name and ty = resource, OF sums]
  let ?v = "resource_usage resource (total_stat ?pt (pids_named ?pt ?name))"
  have "(?name, resource, ?v) \<in> set (findings m (client_config ?c))"
    using exceeded_is_finding [OF entry, of resource m] over by (simp add: usage)
  then obtain i where new: "LogEntry_new i ?name now resource ?v \<in> set (new_logs m now ?c)"
    using finding_is_numbered by (fastforce simp: new_logs_def)
  have few: "length (new_logs m now ?c) \<le> 4 * length (client_config ?c)" by (rule new_logs_length)
  let ?n = "from_client c (n\<lparr>nw_hist := nw_hist n @ new_logs m now ?c\<rparr>)"
  have "net_step kenv senv n ?n" using bounds(1) few by (intro net_step.tick [where m = m and now = now]) (simp_all add: tick)
  then have steps': "(net_step kenv senv)\<^sup>*\<^sup>* n0 ?n" using steps by simp
  have "client_holds kenv (nw_hist n @ new_logs m now ?c) (tr_from tr) (c\<lparr>cc_outbox := []\<rparr>)"
    using bounds(1) few by (intro client_tick_holds(1) [OF holds tick]) simp
  then have "length (lq_log_entries (client_queue c)) = length (lq_log_entries (client_queue ?c)) + length (new_logs m now ?c)"
    using holds by (auto simp: client_holds_def queue_holds_def queue_at_def)
  then obtain c' s' where q: "quiet_rounds kenv senv (nw_info n) r (c\<lparr>cc_outbox := []\<rparr>, nw_server n) = Inr (c', s')"
    and "server_holds (nw_info n) (sv_fs s') (nw_hist n @ new_logs m now ?c)"
    using network_drains [OF assms(1) steps', of r] bounds few by (auto simp: from_client_def)
  with server_holds_line [OF this(2), of "LogEntry_new i ?name now resource ?v"] new pc p'
  show ?thesis by auto
qed

end

end
