(* ===== verification/Spec2Isabelle.thy ===== *)
theory Spec2Isabelle
  imports Restart_Empty Senders Server_Main Locks Queue_Race Progress Unit_Tests Registry_Laws
    Shared_Address Client_Properties Overload
begin

text \<open>
  A verification library for the remote monitoring tool under \<^verbatim>\<open>src/src\<close>: a client that watches the
  processes of its computer and logs every program over a threshold, and a server that collects the
  logs of many clients and sends them their thresholds. File names below are relative to
  \<^verbatim>\<open>src/src\<close>; definitions have the names of the functions they model.

  \<^bold>\<open>The program.\<close>
  Once a second the client's main loop (\<^verbatim>\<open>client_main\<close>) has the process table read the system
  (\<^verbatim>\<open>ProcessTable::update_table\<close>), compares the sums per program with the thresholds of the
  configuration (\<^verbatim>\<open>ClientLogger::generate_log\<close>), appends what exceeds them to a queue with a log file
  (\<^verbatim>\<open>LogQueue\<close>), and sends the first hundred logs that are not acknowledged. The server accepts
  clients (\<^verbatim>\<open>ClientManager\<close>), appends the logs that continue a client's file
  (\<^verbatim>\<open>ClientHandler::handle_recv_log\<close>) and answers with the last id it holds; the client then drops
  what is acknowledged. The operator's line \<^verbatim>\<open>k:config file\<close> sends thresholds to client \<^verbatim>\<open>k\<close>, which
  uses and stores them. Inside either program the parts talk over an \<^verbatim>\<open>EventBus\<close>; between the two run
  length-prefixed messages over TCP.

  \<^bold>\<open>The theories,\<close> in the order of their dependencies:

  \<^item> \<open>Prelude\<close>: machine integers, exceptions and undefined behaviour as values, integers in memory.
    \<open>Std_Stream\<close>: the streams, numbers and files of the standard library.
  \<^item> \<open>Serializable\<close>, \<open>Codec\<close>, \<open>Messages\<close>: \<^verbatim>\<open>common/serializable\<close> - byte order and primitives; the
    interface \<^verbatim>\<open>ISerializable\<close> as the locales \<open>codec\<close> and \<open>strict_codec\<close> with the vector templates as
    their clients; the messages over the sockets' \<^verbatim>\<open>send\<close> and \<^verbatim>\<open>recv\<close>.
  \<^item> \<open>Log_Entry\<close> (\<^verbatim>\<open>common/log_entry\<close>), \<open>Config\<close> (\<^verbatim>\<open>config\<close>, \<^verbatim>\<open>config_entry\<close>, \<^verbatim>\<open>global\<close>, POSIX build),
    \<open>Registry\<close> and \<open>Registry_Laws\<close> (\<^verbatim>\<open>registry\<close> and the Windows build of the configuration), \<open>Util\<close> and
    \<open>Progress\<close> (\<^verbatim>\<open>util\<close>; the second its progress bar and clock),
    \<open>Event_Bus\<close> (with \<^verbatim>\<open>event\<close>, \<^verbatim>\<open>network_event\<close>, \<^verbatim>\<open>input_event\<close>, \<^verbatim>\<open>input_handler\<close>), \<open>Backoff\<close>, \<open>Wire\<close> (the
    text of an acknowledgement, from its printer to its parser).
  \<^item> \<open>Log_Queue\<close>: \<^verbatim>\<open>client/log_queue\<close> over the file system; \<open>Queue_History\<close>: queue and files against
    the history of all logs; \<open>Queue_Race\<close>: the two threads that use it, one access at a time.
  \<^item> \<open>Process_Stat\<close> (\<^verbatim>\<open>process_stat\<close>, \<^verbatim>\<open>process_listing\<close>), \<open>Proc_Parsing\<close> and \<open>Proc_Laws\<close> (the scanners of
    \<^verbatim>\<open>/proc\<close> and what they return on the kernel's texts), \<open>Double\<close> (the floating-point share of the
    processor), \<open>Network_Processing\<close> and \<open>Etw_Decoder\<close> (bytes per process on Linux and on Windows),
    \<open>Process_Table\<close> and \<open>Process_Table_Windows\<close> (\<^verbatim>\<open>update_table\<close> of both builds), \<open>Process_Views\<close>
    (comparators, sorted view, screen, sums per program), \<open>Table_Laws\<close> and \<open>Table_Properties\<close>,
    \<open>Windows_Client\<close> (where the Windows build gets its data: process snapshot and trace session).
  \<^item> \<open>Client_Logger\<close>, \<open>Server_Connector\<close>, \<open>Client\<close> (subscribers, start, main loop of
    \<^verbatim>\<open>client/client.cpp\<close>) and \<open>Startup\<close> (the command lines of both programs). \<open>Client_Main\<close>: the whole of
    \<^verbatim>\<open>client_main\<close>, with the process table of either build behind one interface (locale
    \<open>process_tables\<close> of \<open>Client_Laws\<close>), its two threads step by step; \<open>Client_Laws\<close> and
    \<open>Client_Properties\<close>: what every run keeps, what ends it, what it needs to start.
  \<^item> \<open>Client_Handler\<close>, \<open>Client_Manager\<close>: the server; \<open>Server_Runs\<close>: its table of clients over a run;
    \<open>Senders\<close>: the threads of either program that send, in any schedule. \<open>Network\<close>: \<^verbatim>\<open>network.cpp\<close> and
    \<^verbatim>\<open>error.cpp\<close> over system calls. \<open>Server_Main\<close>: \<^verbatim>\<open>server.cpp\<close> and \<^verbatim>\<open>ClientManager::run\<close>, from the socket to
    the exit code, the threads interleaved step by step. \<open>Locks\<close>: the server's two mutexes under any number of threads.
  \<^item> \<open>Log_Transfer\<close>: the contract of the log transfer, without payloads or files. \<open>Delivery\<close>: client,
    server and network as one transition system, and the simulation of the contract by it.
    \<open>Restart_Empty\<close> and \<open>Shared_Address\<close>: the cases the contract excludes. \<open>Overload\<close>: a round of the main
    loop, from what the update reads to the line in the server's file. \<open>Unit_Tests\<close>: the repository's tests
    as lemmas about the model. This theory: what follows for the whole system.

  \<^bold>\<open>State and errors.\<close>
  A class is a record, a method a function from the old to the new object; a subscriber of the bus
  is a data value that the program's \<open>_call\<close> function interprets. An exception is the left value of
  a sum and keeps the effects that came before it; \<open>Undefined\<close> marks what the C++ standard gives no
  meaning and is caught by no handler. Integers have the width of the source. A thread that is
  started to send one message is an entry of an outbox; the network of \<open>Delivery\<close> may deliver
  such an entry late, repeatedly or never. \<open>Senders\<close> looks inside: there the threads of one connection
  share the socket, a step is at most one call of \<^verbatim>\<open>send\<close>, and a thread that runs alone is a call of
  \<open>send_message\<close>.

  \<^bold>\<open>What is proved.\<close>
  \<^item> Delivery: an invariant over all interleavings (exactly once and in order), the refinement of the
    contract, progress when messages get through, finality of what is stored, and the restart with an
    empty queue, from which no log ever gets through again. A second client behind the same address
    loses its logs until it has more than the first. What exceeds its threshold in the process table
    becomes a line with the exact total in the server's file.
  \<^item> Queue: the constructor returns on every file system; reopening, acknowledging and destroying do
    what the history says. The race of \<open>get_batch_log\<close> with \<open>ack_log\<close> cannot make the server store
    anything wrong, but it can end the client with an exception.
  \<^item> Formats: round trips of logs in both forms and of configurations in file and registry (with the
    rounding to units), and what a damaged registry gives.
  \<^item> Process table: the tables of the Linux build agree after every update, also after one that
    throws; the sorted view is the best rows for any admissible sort; the comparators are strict
    orders; sums, disk differences and network bytes are exact; the shares are bounded as long as
    counters grow; the scanners read back the kernel's texts, apart from the errors stated.
  \<^item> Programs: messages reported as sent one after the other arrive; threads that send at the same time
    keep every byte but not the frames; a client that is gone ends the server; reconnection follows the
    delays, the server's table stays in order, and a pushed configuration reaches the client, its file
    and the next start. Unless its threads overlap, the client is ended by three kinds of errors only, which
    are named exactly; one of them meets every Linux machine without a TCP connection to another one. The
    threads of the server never block each other for ever; its exit codes, what stops it, and which
    \<^verbatim>\<open>exit\<close> is lost.
  \<^item> Windows: the trace session is taken over from an earlier run; a snapshot that fails empties the
    tables of processes.

  \<^bold>\<open>Parameters.\<close>
  The JSON library, the socket, registry, capture, snapshot, trace and TDH calls, \<^verbatim>\<open>inet_pton\<close>, what the kernel answers
  to \<^verbatim>\<open>read\<close> and \<^verbatim>\<open>readlink\<close>, the iteration order of hash maps (\<open>ord\<close>, \<open>first\<close>), \<^verbatim>\<open>std::partial_sort\<close>
  (locale \<open>partial_sorter\<close>), \<^verbatim>\<open>std::format\<close> of a \<^verbatim>\<open>double\<close> and the contents of uninitialised memory are
  arguments of the definitions. What a theorem needs of them is a named predicate that states their
  documented behaviour, and a witness gives a concrete instance of it.

  \<^bold>\<open>Bounds and fuel.\<close>
  Log ids are 64-bit words: the delivery theorems speak of runs with fewer than \<open>2\<^sup>6\<^sup>4\<close> logs (\<open>history\<close>).
  Lengths and counts on the wire are below \<open>2\<^sup>3\<^sup>2\<close>. The buffer for \<^verbatim>\<open>/proc\<close> has 4096 bytes. Loops that
  wait for the outside take fuel or a list of outcomes: \<^verbatim>\<open>reconnect\<close> has as much fuel as there are
  attempts, and its property shows that one more than the number of failures is enough; the loops of
  \<open>send_exact\<close>, \<open>recv_exact\<close> and TDH's growing buffer have measures, and the constructor of \<open>LogQueue\<close>
  is a \<open>partial_function\<close> that is shown to return. The loop over a process snapshot is one too: it returns
  when Windows comes to the end of its list.

  \<^bold>\<open>Not modelled.\<close>
  \<^item> Threads that run at the same time are modelled at a grain that fits each question: whole handlers in
    \<open>Delivery\<close>, \<open>Client_Main\<close> and \<open>Server_Runs\<close>, calls of \<^verbatim>\<open>send\<close> in \<open>Senders\<close>, accesses to the queue in \<open>Queue_Race\<close>, lock
    operations in \<open>Locks\<close>. Two unlocked accesses at the very same moment (the queue, the configuration and
    \<^verbatim>\<open>is_running\<close> are shared without a lock) have no meaning in C++ and none here.
  \<^item> In \<open>Locks\<close> an event is published in a state fixed at its start; which locks it takes depends on that
    state, and the theorem holds for all of them.
  \<^item> Exhausted memory, and the output on the screen and on the error stream, except the errors of
    \<^verbatim>\<open>server_main\<close>, the process screen and the progress bar.
  \<^item> What the operating system does behind its calls, beyond the laws stated for it.
\<close>

section \<open>Delivery of the logs\<close>


text \<open>A concrete system: no files yet, the binary form in the place of JSON, no home directory.\<close>

definition demo_kenv :: client_env where
  "demo_kenv = \<lparr>ke_indet = \<lparr>in_num = 0, in_entry = LogEntry_new 0 [] 0 CPU 0, in_count = 0, in_id = 0\<rparr>,
     ke_mem_ack = 0, ke_dump = binary_dump, ke_parse = binary_parse, ke_home = [], ke_mkdir_ok = True\<rparr>"

definition demo_senv :: server_env where
  "demo_senv = \<lparr>se_indet = ke_indet demo_kenv, se_parse = binary_parse\<rparr>"

definition demo_info :: ClientInfo where
  "demo_info = ClientInfo_new 1 5 ''10.0.0.7'' 40000"

definition demo_server :: Server where
  "demo_server = accept_new_client 5 ''10.0.0.7'' 40000 (server_start empty_fsys)"

definition demo_stats :: "string \<rightharpoonup> ProcessStat" where
  "demo_stats = [''test_prog'' \<mapsto> ProcessStat_default\<lparr>mem_usage := 2 ^ 40\<rparr>]"

lemma demo_dump: "\<exists>t. binary_dump (map convert_before_write (config_entries default_config)) = Inr t"
proof -
  have "list_all (\<lambda>c. length (ce_process_name c) < 2 ^ 32)
      (map convert_before_write (config_entries default_config))"
    by (simp add: default_config_def ConfigEntry_new_def convert_after_read_def convert_before_write_def)
  then obtain t where "write_vector_serializeable ce_serialize
      (map convert_before_write (config_entries default_config)) = Inr t"
    using config_entry_codec.vector_ser_ok by blast
  moreover have "length (config_entries default_config) = 4" by (simp add: default_config_def)
  ultimately show ?thesis by (simp add: binary_dump_def)
qed

lemma demo_start: "\<exists>c fs. client_start demo_kenv ''10.0.0.1'' 12345 empty_fsys = Some (Inr c, fs) \<and>
    client_holds demo_kenv [] 0 c \<and> cl_config (cc_logger c) = default_config"
proof -
  from demo_dump obtain t where
    "ke_dump demo_kenv (map convert_before_write (config_entries default_config)) = Inr t"
    by (auto simp: demo_kenv_def)
  then show ?thesis
    by (intro first_start) (simp_all add: empty_fsys_def demo_kenv_def config_path_def)
qed

lemma demo_server: "server_knows demo_info [] demo_server"
  unfolding demo_info_def demo_server_def by (rule first_accept) (simp_all add: empty_fsys_def)

lemma demo_net:
  "\<exists>n. net_start demo_kenv n \<and> nw_info n = demo_info \<and> nw_server n = demo_server \<and>
     cl_config (cc_logger (nw_client n)) = default_config"
proof -
  obtain c where c: "client_holds demo_kenv [] 0 c" "cl_config (cc_logger c) = default_config"
    using demo_start by blast
  let ?n = "\<lparr>nw_client = c, nw_server = demo_server, nw_info = demo_info,
      nw_up = {}, nw_down = {}, nw_hist = []\<rparr>"
  have "net_start demo_kenv ?n" using demo_server c(1) by (simp add: net_start_def)
  with c(2) show ?thesis by (intro exI [of _ ?n]) simp
qed

lemma exactly_once_entries:
  assumes "net_start kenv n0" and "(net_step kenv senv)\<^sup>*\<^sup>* n0 n"
  shows "length (lq_log_entries (client_queue (nw_client n))) \<le> length (nw_hist n)"
  using simulations [OF assms(2) net_rel_start [OF assms(1)] transfer_ok_start] net_rel_split
  by fastforce

lemma demo_findings:
  "findings demo_stats (config_entries default_config) = [(''test_prog'', MEM, 2 ^ 40)]"
  by (simp add: findings_def default_config_def ConfigEntry_new_def convert_after_read_def
      entry_findings_def stat_of_def demo_stats_def ProcessStat_default_def DiskStat_default_def
      NetworkStat_default_def disk_total_def network_total_def unit_values Let_def)

text \<open>One round of the main loop in the demonstration system.\<close>

lemma demo_tick:
  assumes "net_start demo_kenv n" and "cl_config (cc_logger (nw_client n)) = default_config"
  shows "\<exists>n'. net_step demo_kenv demo_senv n n' \<and> length (nw_hist n') = 1"
proof -
  let ?c = "nw_client n" and ?new = "new_logs demo_stats 7 (nw_client n)"
  have new: "length ?new = 1" by (simp add: new_logs_def assms(2) demo_findings)
  have c: "client_holds demo_kenv [] 0 ?c" "nw_hist n = []" using assms(1) by (simp_all add: net_start_def)
  obtain l fs where g: "generate_log demo_stats 7 (cc_logger ?c) (cc_fs ?c) = (l, fs)"
    by (cases "generate_log demo_stats 7 (cc_logger ?c) (cc_fs ?c)")
  have "client_holds demo_kenv ?new 0 (?c\<lparr>cc_logger := l, cc_fs := fs\<rparr>)"
    using generate_log_holds [OF c(1) g] new by simp
  then have "list_all sendable (lq_log_entries (cl_log_queue l))"
    by (auto simp: client_holds_def queue_holds_def queue_at_def history_def)
  with client_tick_sends [OF _ g, of demo_kenv] obtain c' where
    "client_tick demo_kenv demo_stats 7 ?c = (Inr (), c')"
    using c(1) by (auto simp: client_holds_def)
  from tick [where n = n, OF this] new c(2) show ?thesis
    by (intro exI [of _ "from_client c' (n\<lparr>nw_hist := nw_hist n @ ?new\<rparr>)"])
       (simp add: from_client_def)
qed


text \<open>
  C2. The two programs and the network implement the abstract contract: every run of the detailed
  system is matched by a run of the transfer of positions in the history.
\<close>

theorem implements_contract:
  assumes "net_start kenv n0" and "(net_step kenv senv)\<^sup>*\<^sup>* n0 n"
  shows "\<exists>t. transfer_step\<^sup>*\<^sup>* transfer_start t \<and> net_rel kenv n t"
  using simulations [OF assms(2) net_rel_start [OF assms(1)] transfer_ok_start] by blast

lemma implements_contract_witness:
  "\<exists>n0 n t. net_start demo_kenv n0 \<and> (net_step demo_kenv demo_senv)\<^sup>*\<^sup>* n0 n \<and>
    transfer_step\<^sup>*\<^sup>* transfer_start t \<and> net_rel demo_kenv n t \<and> tr_total t = 1"
proof -
  obtain n0 n where n: "net_start demo_kenv n0" "net_step demo_kenv demo_senv n0 n"
    "length (nw_hist n) = 1"
    using demo_net demo_tick by blast
  then have steps: "(net_step demo_kenv demo_senv)\<^sup>*\<^sup>* n0 n" by simp
  from implements_contract [OF n(1) this] obtain t where
    "transfer_step\<^sup>*\<^sup>* transfer_start t" "net_rel demo_kenv n t" by blast
  with n steps show ?thesis by (metis net_rel_def)
qed

lemma net_hist_prefix:
  assumes "(net_step kenv senv)\<^sup>*\<^sup>* n n'"
  shows "\<exists>new. nw_hist n' = nw_hist n @ new"
  using assms
proof (induction rule: rtranclp_induct)
  case base
  then show ?case by simp
next
  case (step n1 n2)
  then show ?case using net_hist_mono by fastforce
qed

lemma take_prefix_split:
  assumes "k \<le> m" and "k \<le> length xs"
  shows "\<exists>more. take m (xs @ ys) = take k xs @ more"
proof -
  have "take k (take m (xs @ ys)) = take k xs" using assms by simp
  then show ?thesis by (metis append_take_drop_id)
qed

text \<open>
  C5. What the server has stored is final: at any later time its file holds the same logs, possibly
  followed by more.
\<close>

theorem stored_is_final:
  assumes "net_start kenv n0" and "(net_step kenv senv)\<^sup>*\<^sup>* n0 n1" and "(net_step kenv senv)\<^sup>*\<^sup>* n1 n2"
  shows "\<exists>held more. server_holds (nw_info n1) (sv_fs (nw_server n1)) held \<and>
    server_holds (nw_info n2) (sv_fs (nw_server n2)) (held @ more)"
proof -
  from simulations [OF assms(2) net_rel_start [OF assms(1)] transfer_ok_start] obtain t1 where
    t1: "net_rel kenv n1 t1" "transfer_ok t1" by blast
  from simulations [OF assms(3) t1] obtain t2 where
    t2: "transfer_step\<^sup>*\<^sup>* t1 t2" "net_rel kenv n2 t2" "transfer_ok t2" by blast
  from net_hist_prefix [OF assms(3)] obtain new where hist: "nw_hist n2 = nw_hist n1 @ new" by blast
  have "tr_stored t1 \<le> length (nw_hist n1)" using t1 by (simp add: net_rel_def transfer_ok_def)
  moreover have "tr_stored t1 \<le> tr_stored t2" using transfer_stored_mono [OF t2(1)] by simp
  ultimately obtain more where
    "take (tr_stored t2) (nw_hist n2) = take (tr_stored t1) (nw_hist n1) @ more"
    unfolding hist using take_prefix_split by blast
  with t1(1) t2(2) show ?thesis unfolding net_rel_def server_knows_def by metis
qed

lemma stored_is_final_witness:
  "\<exists>n0 n1. net_start demo_kenv n0 \<and> (net_step demo_kenv demo_senv)\<^sup>*\<^sup>* n0 n1 \<and> length (nw_hist n1) = 1 \<and>
    (\<exists>held more. server_holds (nw_info n0) (sv_fs (nw_server n0)) held \<and>
      server_holds (nw_info n1) (sv_fs (nw_server n1)) (held @ more))"
proof -
  obtain n0 n where n: "net_start demo_kenv n0" "net_step demo_kenv demo_senv n0 n"
    "length (nw_hist n) = 1"
    using demo_net demo_tick by blast
  then have "(net_step demo_kenv demo_senv)\<^sup>*\<^sup>* n0 n" by simp
  with stored_is_final [OF n(1) rtranclp.rtrancl_refl this] n show ?thesis by blast
qed



text \<open>
  C4. From the kernel to the server: when, in a round of a client with any history, the processes of a
  configured program together use more of a resource than its threshold, the round goes through, and
  even if its own message is lost enough rounds over a working network bring a line with this program,
  resource and exact total into the server's file.
\<close>

theorem overload_reaches_server:
  assumes "net_start kenv n0" and "(net_step kenv senv)\<^sup>*\<^sup>* n0 n"
    and "cr_pc p = Main_loop" and "cr_client p = nw_client n"
    and "iterates ord" and "tables_ok (lt_table (cr_tables p))"
    and "update_table ord first page_size (lr_uninit reading) (lr_procfs reading) (lr_packets reading)
      (lt_table (cr_tables p)) = (Inr (), pt)"
    and "entry \<in> set (client_config (nw_client n))"
    and "resource_threshold resource entry <
      resource_usage resource (total_stat pt (pids_named pt (ce_process_name entry)))"
    and "length (nw_hist n) + 4 * length (client_config (nw_client n)) + 1 < 2 ^ 64"
    and "length (lq_log_entries (client_queue (nw_client n))) + 4 * length (client_config (nw_client n)) < 2 ^ 32"
    and "length (lq_log_entries (client_queue (nw_client n))) + 4 * length (client_config (nw_client n)) \<le> 100 * r"
  shows "\<exists>p' i c s before after.
    client_step (linux_build ord first page_size pcap) kenv (Main_thread reading now) p = p' \<and>
    cr_pc p' = Main_loop \<and> lt_table (cr_tables p') = pt \<and>
    quiet_rounds kenv senv (nw_info n) r ((cr_client p')\<lparr>cc_outbox := []\<rparr>, nw_server n) = Inr (c, s) \<and>
    files (sv_fs s) (client_log_file (nw_info n)) = Some (before @
      serialize_str (LogEntry_new i (ce_process_name entry) now resource
        (resource_usage resource (total_stat pt (pids_named pt (ce_process_name entry))))) @ after)"
proof -
  let ?build = "linux_build ord first page_size pcap"
  have upd: "tb_update_table ?build reading (cr_tables p) = (Inr (), (cr_tables p)\<lparr>lt_table := pt\<rparr>)"
    and pt: "tb_table ?build ((cr_tables p)\<lparr>lt_table := pt\<rparr>) = pt"
    using assms(7) by (simp_all add: linux_build_def)
  have inv: "iterates ord \<and> tables_ok (lt_table (cr_tables p))" using assms(5,6) by simp
  from linux.round_logs [OF assms(1-4) inv upd assms(8) _ assms(10-12) refl, unfolded pt, OF assms(9)]
  show ?thesis by fastforce
qed

text \<open>Program \<open>a\<close> of the small \<^verbatim>\<open>/proc\<close>, with a threshold of one byte.\<close>

definition demo_entry :: ConfigEntry where
  "demo_entry = ConfigEntry_new ''a'' (2 ^ 31) 1 (2 ^ 63) (2 ^ 63)"

lemma overload_reaches_server_witness:
  "\<exists>n0 c s i before after. net_start demo_kenv n0 \<and> client_config (nw_client n0) = [demo_entry] \<and>
    quiet_rounds demo_kenv demo_senv demo_info 1
      ((cr_client (client_step small_build demo_kenv (Main_thread demo_reading 7)
          \<lparr>cr_pc = Main_loop, cr_tables = linux_tables_new, cr_client = nw_client n0\<rparr>))\<lparr>cc_outbox := []\<rparr>,
       demo_server) = Inr (c, s) \<and>
    files (sv_fs s) (client_log_file demo_info) =
      Some (before @ serialize_str (LogEntry_new i ''a'' 7 MEM 12288) @ after)"
proof -
  obtain n where n: "net_start demo_kenv n" "nw_info n = demo_info" "nw_server n = demo_server"
    using demo_net by blast
  let ?c = "nw_client n"
  define n0 where "n0 = n\<lparr>nw_client := ?c\<lparr>cc_logger := (cc_logger ?c)\<lparr>cl_config := \<lparr>config_entries = [demo_entry]\<rparr>\<rparr>\<rparr>\<rparr>"
  have start: "net_start demo_kenv n0" and cfg: "client_config (nw_client n0) = [demo_entry]"
    and info: "nw_info n0 = demo_info" "nw_server n0 = demo_server" "nw_hist n0 = []"
    using n by (simp_all add: net_start_def n0_def client_holds_def loggable_def demo_entry_def ConfigEntry_new_def)
  have queue: "lq_log_entries (client_queue (nw_client n0)) = []"
    using exactly_once_entries [OF start, of demo_senv n0] info(3) by simp
  let ?p = "\<lparr>cr_pc = Main_loop, cr_tables = linux_tables_new, cr_client = nw_client n0\<rparr>"
  have upd: "update_table ascending (\<lambda>_. Some 88) 4096 (lr_uninit demo_reading) (lr_procfs demo_reading)
      (lr_packets demo_reading) (lt_table (cr_tables ?p)) = (Inr (), demo_table)"
    using demo_update by (simp add: demo_reading_def linux_tables_new_def)
  have "pids_named demo_table ''a'' = {7}" by (auto simp: pids_named_def demo_table_def)
  then have total: "mem_usage (total_stat demo_table (pids_named demo_table (ce_process_name demo_entry))) = 12288"
    by (simp add: total_stat_def Let_def demo_table_def demo_entry_def ConfigEntry_new_def)
  have over: "resource_threshold MEM demo_entry <
      resource_usage MEM (total_stat demo_table (pids_named demo_table (ce_process_name demo_entry)))"
    by (simp add: total) (simp add: demo_entry_def ConfigEntry_new_def)
  have "\<exists>p' i c s before after.
    client_step small_build demo_kenv (Main_thread demo_reading 7) ?p = p' \<and>
    cr_pc p' = Main_loop \<and> lt_table (cr_tables p') = demo_table \<and>
    quiet_rounds demo_kenv demo_senv (nw_info n0) 1 ((cr_client p')\<lparr>cc_outbox := []\<rparr>, nw_server n0) = Inr (c, s) \<and>
    files (sv_fs s) (client_log_file (nw_info n0)) = Some (before @
      serialize_str (LogEntry_new i (ce_process_name demo_entry) 7 MEM
        (resource_usage MEM (total_stat demo_table (pids_named demo_table (ce_process_name demo_entry))))) @ after)"
    unfolding small_build_def
    by (rule overload_reaches_server [OF start _ _ _ _ _ upd _ over])
       (simp_all add: cfg queue info linux_tables_new_def)
  then obtain i c s before after where
    "quiet_rounds demo_kenv demo_senv demo_info 1
      ((cr_client (client_step small_build demo_kenv (Main_thread demo_reading 7) ?p))\<lparr>cc_outbox := []\<rparr>,
       demo_server) = Inr (c, s)"
    "files (sv_fs s) (client_log_file demo_info) =
      Some (before @ serialize_str (LogEntry_new i ''a'' 7 MEM 12288) @ after)"
    by (auto simp: info total) (simp add: demo_entry_def ConfigEntry_new_def)
  with start cfg show ?thesis by blast
qed


text \<open>A hundred logs, all acknowledged, and a client that starts on the files they left.\<close>

definition hundred_logs :: "LogEntry list" where
  "hundred_logs = number 1 7 (replicate 100 (''p'', MEM, 5))"

definition hundred_fs :: fsys where
  "hundred_fs = empty_fsys\<lparr>files := [''rmt-log.txt'' \<mapsto> [], ''rmt-ack.txt'' \<mapsto> ''100'']\<rparr>"

definition hundred_queue :: LogQueue where
  "hundred_queue = \<lparr>lq_log_file = ''rmt-log.txt'', lq_ack_file = ''rmt-ack.txt'', lq_ack_id = 100,
     lq_log_entries = [], lq_new_id = 101\<rparr>"

definition hundred_server_fs :: fsys where
  "hundred_server_fs = empty_fsys\<lparr>files :=
     [client_log_file demo_info \<mapsto> concat (map serialize_str hundred_logs)]\<rparr>"

lemma hundred_history: "history hundred_logs" "length hundred_logs = 100"
proof -
  have "history ([] @ number (of_nat (length ([] :: LogEntry list) + 1)) 7 (replicate 100 (''p'', MEM, 5)))"
    by (rule history_number) (simp_all add: history_def list_all_iff)
  then show "history hundred_logs" by (simp add: hundred_logs_def)
  show "length hundred_logs = 100" by (simp add: hundred_logs_def)
qed

lemma hundred_queue_at: "queue_at hundred_logs 100 100 100 hundred_queue hundred_fs"
proof -
  have "show_nat 100 = ''100''" by (simp add: show_nat.simps digit_chars)
  then show ?thesis
    using hundred_history
    by (simp add: queue_at_def hundred_queue_def hundred_fs_def empty_fsys_def)
qed

lemma hundred_server:
  "server_knows demo_info hundred_logs (accept_new_client 5 ''10.0.0.7'' 40000 (server_start hundred_server_fs))"
proof -
  let ?s = "server_start hundred_server_fs"
  have "server_holds demo_info (sv_fs ?s) hundred_logs"
    using hundred_history
    by (simp add: server_holds_def holds_logs_def server_start_def hundred_server_fs_def empty_fsys_def
        history_def)
  then have "server_knows (ClientInfo_new (sv_next_client_id ?s) 5 (ci_client_ip demo_info) 40000) hundred_logs
      (accept_new_client 5 (ci_client_ip demo_info) 40000 ?s)"
    by (intro server_accept_knows server_ok_start)
       (simp_all add: server_start_def distinct_addresses_def)
  then show ?thesis by (simp add: server_start_def ClientInfo_new_def demo_info_def)
qed

lemma hundred_start:
  "\<exists>c fs. client_start demo_kenv ''10.0.0.1'' 12345 hundred_fs = Some (Inr c, fs) \<and>
     cl_config (cc_logger c) = default_config"
proof -
  from demo_dump obtain t where
    t: "ke_dump demo_kenv (map convert_before_write (config_entries default_config)) = Inr t"
    by (auto simp: demo_kenv_def)
  have path: "config_path (ke_home demo_kenv) = ''/.config/rmt/rmt-config.json''"
    by (simp add: config_path_def demo_kenv_def)
  have "queue_at hundred_logs 100 100 100 hundred_queue
      (hundred_fs\<lparr>files := (files hundred_fs)(config_path (ke_home demo_kenv) \<mapsto> t)\<rparr>)"
    using hundred_queue_at by (simp add: queue_at_def path hundred_queue_def)
  from queue_at_reopen [OF this] have "\<exists>q. LogQueue_new (ke_mem_ack demo_kenv) (in_num (ke_indet demo_kenv))
      (in_entry (ke_indet demo_kenv)) ''rmt-log.txt'' ''rmt-ack.txt''
      (hundred_fs\<lparr>files := (files hundred_fs)(config_path (ke_home demo_kenv) \<mapsto> t)\<rparr>) =
      Some (q, hundred_fs\<lparr>files := (files hundred_fs)(config_path (ke_home demo_kenv) \<mapsto> t)\<rparr>)"
    by (simp add: hundred_queue_def)
  then obtain q where new: "LogQueue_new (ke_mem_ack demo_kenv) (in_num (ke_indet demo_kenv))
      (in_entry (ke_indet demo_kenv)) ''rmt-log.txt'' ''rmt-ack.txt''
      (hundred_fs\<lparr>files := (files hundred_fs)(config_path (ke_home demo_kenv) \<mapsto> t)\<rparr>) =
      Some (q, hundred_fs\<lparr>files := (files hundred_fs)(config_path (ke_home demo_kenv) \<mapsto> t)\<rparr>)" by blast
  have "ke_mkdir_ok demo_kenv" by (simp add: demo_kenv_def)
  from default_start [OF _ _ this t new, of "''10.0.0.1''" 12345] show ?thesis
    by (auto simp: path hundred_fs_def empty_fsys_def)
qed


text \<open>
  C7. A second client behind the address of a first one, numbering its logs from 1 as every client
  does: while it has no more logs than the server holds of the first, one exchange with a working
  network removes all of them from its queue, and the server has stored none.
\<close>

theorem shared_address_loses_logs:
  assumes "server_knows first held s" and "(i, second) \<in> set (sv_client_handlers s)"
    and "ci_client_ip second = ci_client_ip first" and "client_holds kenv mine 0 c"
    and "0 < length mine" and "length mine \<le> length held" and "length mine < 2 ^ 32"
    and "length held + 1 < 2 ^ 64"
  shows "\<exists>c' s'. exchange kenv senv second Map.empty now (c, s) = Inr (c', s') \<and>
    lq_log_entries (client_queue c') = [] \<and> server_holds second (sv_fs s') held"
proof -
  have "server_knows second held s"
    using assms(1-3) server_holds_ip [of second first] by (auto simp: server_knows_def)
  from shared_address_round [OF assms(4) this assms(5-8), of senv now] show ?thesis
    unfolding server_knows_def by blast
qed

text \<open>Two clients at 10.0.0.7; of the first the server holds one log, and the second has made one.\<close>

definition demo_log :: LogEntry where
  "demo_log = LogEntry_new 1 ''test_prog'' 7 MEM (2 ^ 40)"

definition demo_second :: ClientInfo where
  "demo_second = ClientInfo_new 2 6 ''10.0.0.7'' 40001"

definition demo_shared :: Server where
  "demo_shared = accept_new_client 6 ''10.0.0.7'' 40001 (accept_new_client 5 ''10.0.0.7'' 40000
     (server_start (empty_fsys\<lparr>files := [''client-log-10.0.0.7.txt'' \<mapsto> serialize_str demo_log]\<rparr>)))"

lemma demo_shared_knows:
  "server_knows demo_second [demo_log] demo_shared" "(1, demo_info) \<in> set (sv_client_handlers demo_shared)"
proof -
  let ?fs = "empty_fsys\<lparr>files := [''client-log-10.0.0.7.txt'' \<mapsto> serialize_str demo_log]\<rparr>"
  let ?s1 = "accept_new_client 5 ''10.0.0.7'' 40000 (server_start ?fs)"
  have s1: "?s1 = (server_start ?fs)\<lparr>sv_next_client_id := 2,
      sv_bus := subscribe (HandlerCallback demo_info) (sv_bus (server_start ?fs)),
      sv_client_handlers := [(1, demo_info)]\<rparr>"
    using accept_new_client_fields [OF server_ok_start, of 5 "''10.0.0.7''" 40000 ?fs]
    by (simp add: server_start_def Let_def demo_info_def)
  have ok: "server_ok ?s1" by (intro server_ok_accept server_ok_start)
  have fields: "sv_client_handlers ?s1 = [(1, demo_info)]" "sv_outbox ?s1 = []" "sv_fs ?s1 = ?fs"
    "sv_next_client_id ?s1 = 2"
    unfolding s1 by (simp_all add: server_start_def)
  have "server_holds demo_second ?fs [demo_log]"
    by (simp add: server_holds_def holds_logs_def client_log_file_def demo_second_def ClientInfo_new_def
        empty_fsys_def demo_log_def LogEntry_new_def storable_def)
  then have "server_knows (ClientInfo_new (sv_next_client_id ?s1) 6 (ci_client_ip demo_second) 40001) [demo_log]
      (accept_new_client 6 (ci_client_ip demo_second) 40001 ?s1)"
    by (intro server_accept_knows ok)
       (simp_all add: fields distinct_addresses_def, simp add: demo_info_def ClientInfo_new_def)
  then show "server_knows demo_second [demo_log] demo_shared"
    by (simp add: fields demo_shared_def) (simp add: demo_second_def ClientInfo_new_def)
  show "(1, demo_info) \<in> set (sv_client_handlers demo_shared)"
    unfolding demo_shared_def accept_new_client_fields [OF ok] by (simp add: fields Let_def)
qed

lemma shared_address_loses_logs_witness:
  "\<exists>c c' s'. lq_log_entries (client_queue c) = [demo_log] \<and>
     exchange demo_kenv demo_senv demo_info Map.empty 8 (c, demo_shared) = Inr (c', s') \<and>
     lq_log_entries (client_queue c') = [] \<and> server_holds demo_info (sv_fs s') [demo_log]"
proof -
  obtain c0 fs0 where c0: "client_holds demo_kenv [] 0 c0" "cl_config (cc_logger c0) = default_config"
    using demo_start by blast
  then have "lq_new_id (client_queue c0) = 1" by (auto simp: client_holds_def queue_holds_def queue_at_def)
  then have new: "new_logs demo_stats 7 c0 = [demo_log]"
    by (simp add: new_logs_def c0(2) demo_findings demo_log_def)
  obtain l fs where g: "generate_log demo_stats 7 (cc_logger c0) (cc_fs c0) = (l, fs)"
    by (cases "generate_log demo_stats 7 (cc_logger c0) (cc_fs c0)")
  let ?c = "c0\<lparr>cc_logger := l, cc_fs := fs\<rparr>"
  have c: "client_holds demo_kenv [demo_log] 0 ?c" using generate_log_holds [OF c0(1) g] new by simp
  then have "lq_log_entries (client_queue ?c) = [demo_log]"
    by (auto simp: client_holds_def queue_holds_def queue_at_def)
  moreover have "ci_client_ip demo_info = ci_client_ip demo_second"
    by (simp add: demo_info_def demo_second_def ClientInfo_new_def)
  ultimately show ?thesis
    using shared_address_loses_logs [OF demo_shared_knows _ c, of demo_senv 8] by fastforce
qed

section \<open>The operator's configuration\<close>



end
